(* ===== verification/Prelude.thy ===== *)
theory Prelude
  imports Main "HOL-Library.Word" "HOL-Library.Char_ord" "HOL-Library.List_Lexorder"
begin

text \<open>
  Shared vocabulary of the development: the exceptions the C++ code can raise, the parts of
  the standard library the sources use (\<open>std::size_t\<close>, \<open>std::string\<close> search and \<open>substr\<close>,
  \<open>std::to_string\<close>, \<open>std::hex\<close> output, heap allocation through \<open>std::unique_ptr\<close>), the
  generic FIFO and registry interfaces several components implement, and the lemmas on
  lists, words and results that the component theories share.
\<close>

named_theorems wf_intros \<open>preservation rules of the component invariants\<close>

section \<open>Exceptions and results\<close>

text \<open>
  One constructor for each kind of exception that the sources throw themselves or let
  through from a library. A C++ function that may throw returns \<open>exn + 'a\<close>.
\<close>

datatype exn =
    OutOfRange                      \<comment> \<open>\<open>std::out_of_range\<close> from \<open>std::string::substr\<close>\<close>
  | RuntimeError string             \<comment> \<open>\<open>std::runtime_error\<close>\<close>
  | InfrastructureError string      \<comment> \<open>\<open>core::errors::InfrastructureError\<close>\<close>
  | JsonParseError                  \<comment> \<open>\<open>nlohmann::json::parse_error\<close>\<close>
  | JsonTypeError nat               \<comment> \<open>\<open>nlohmann::json::type_error\<close> with its numeric id\<close>
  | JsonOutOfRange                  \<comment> \<open>\<open>nlohmann::json::out_of_range\<close>\<close>
  | SqlError string                 \<comment> \<open>an exception of \<open>pqxx\<close>\<close>
  | YamlError string                \<comment> \<open>an exception of \<open>yaml-cpp\<close>\<close>

type_synonym 'a result = "exn + 'a"

definition rbind :: "'a result \<Rightarrow> ('a \<Rightarrow> 'b result) \<Rightarrow> 'b result" where
  "rbind r f = (case r of Inl e \<Rightarrow> Inl e | Inr x \<Rightarrow> f x)"

definition is_ok :: "'a result \<Rightarrow> bool" where
  "is_ok r = (case r of Inl _ \<Rightarrow> False | Inr _ \<Rightarrow> True)"

section \<open>\<open>std::size_t\<close> and \<open>std::string\<close>\<close>

type_synonym size_t = "64 word"

definition npos :: size_t where
  "npos = - 1"

text \<open>
  A \<open>std::string\<close> never exceeds \<open>max_size()\<close>, which is below \<open>2^63\<close> for every library in use.
\<close>

definition std_string :: "string \<Rightarrow> bool" where
  "std_string s \<longleftrightarrow> length s < 2 ^ 63"

fun index_of :: "char \<Rightarrow> string \<Rightarrow> nat option" where
  "index_of c [] = None"
| "index_of c (x # xs) = (if x = c then Some 0 else map_option Suc (index_of c xs))"

fun last_index_of :: "char \<Rightarrow> string \<Rightarrow> nat option" where
  "last_index_of c [] = None"
| "last_index_of c (x # xs) =
     (case last_index_of c xs of
        Some i \<Rightarrow> Some (Suc i)
      | None \<Rightarrow> if x = c then Some 0 else None)"

definition str_find :: "string \<Rightarrow> char \<Rightarrow> size_t" where
  "str_find s c = (case index_of c s of None \<Rightarrow> npos | Some i \<Rightarrow> of_nat i)"

definition str_rfind :: "string \<Rightarrow> char \<Rightarrow> size_t" where
  "str_rfind s c = (case last_index_of c s of None \<Rightarrow> npos | Some i \<Rightarrow> of_nat i)"

definition str_size :: "string \<Rightarrow> size_t" where
  "str_size s = of_nat (length s)"

definition substr :: "string \<Rightarrow> size_t \<Rightarrow> size_t \<Rightarrow> string result" where
  "substr s pos n =
     (if length s < unat pos then Inl OutOfRange
      else Inr (take (unat n) (drop (unat pos) s)))"

definition starts_with :: "string \<Rightarrow> string \<Rightarrow> bool" where
  "starts_with s p \<longleftrightarrow> take (length p) s = p"

definition ends_with :: "string \<Rightarrow> string \<Rightarrow> bool" where
  "ends_with s p \<longleftrightarrow> length p \<le> length s \<and> drop (length s - length p) s = p"

section \<open>Number output\<close>

text \<open>Digits as \<open>std::to_string\<close> (base 10) and \<open>std::hex\<close> (base 16, lower case) print them.\<close>

definition digit_char :: "nat \<Rightarrow> char" where
  "digit_char d = (if d < 10 then char_of (48 + d) else char_of (87 + d))"

definition char_digit :: "char \<Rightarrow> nat" where
  "char_digit c = (if (of_char c :: nat) < 58 then of_char c - 48 else of_char c - 87)"

function radix_digits :: "nat \<Rightarrow> nat \<Rightarrow> string" where
  "radix_digits b n =
     (if b < 2 \<or> n < b then [digit_char n]
      else radix_digits b (n div b) @ [digit_char (n mod b)])"
  by pat_completeness auto
termination
  by (relation "measure snd") (auto intro: div_less_dividend)

declare radix_digits.simps [simp del]

definition radix_value :: "nat \<Rightarrow> string \<Rightarrow> nat" where
  "radix_value b s = foldl (\<lambda>acc c. b * acc + char_digit c) 0 s"

definition to_string :: "nat \<Rightarrow> string" where
  "to_string n = radix_digits 10 n"

definition to_hex :: "nat \<Rightarrow> string" where
  "to_hex n = radix_digits 16 n"

section \<open>Heap objects owned through \<open>std::unique_ptr\<close>\<close>

type_synonym addr = nat

record 'e heap =
  store :: "addr \<rightharpoonup> 'e"
  brk :: addr

definition empty_heap :: "'e heap" where
  "empty_heap = \<lparr>store = Map.empty, brk = 0\<rparr>"

definition make_unique :: "'e \<Rightarrow> 'e heap \<Rightarrow> addr \<times> 'e heap" where
  "make_unique e h = (brk h, h\<lparr>store := (store h)(brk h \<mapsto> e), brk := Suc (brk h)\<rparr>)"

definition free_ptr :: "addr \<Rightarrow> 'e heap \<Rightarrow> 'e heap" where
  "free_ptr a h = h\<lparr>store := (store h)(a := None)\<rparr>"

definition live :: "'e heap \<Rightarrow> addr set" where
  "live h = dom (store h)"

definition heap_ok :: "'e heap \<Rightarrow> bool" where
  "heap_ok h \<longleftrightarrow> live h \<subseteq> {..<brk h}"

section \<open>The FIFO channel interface\<close>

text \<open>
  A channel accepts or refuses a pushed element and hands elements out in arrival order.
  The mailbox of an actor and the write queue of a WebSocket session are channels; what a
  client may conclude from any sequence of pushes and pops is proved once, here.
\<close>

datatype 'a chan_op = ChanPush 'a | ChanPop

fun chan_run ::
  "('a \<Rightarrow> 'm \<Rightarrow> bool \<times> 'm) \<Rightarrow> ('m \<Rightarrow> 'a option \<times> 'm) \<Rightarrow> 'a chan_op list \<Rightarrow> 'm
     \<Rightarrow> 'a list \<times> 'a list \<times> 'm" where
  "chan_run push pop [] m = ([], [], m)"
| "chan_run push pop (ChanPush x # ops) m =
     (case push x m of (ok, m') \<Rightarrow>
      case chan_run push pop ops m' of (acc, out, m'') \<Rightarrow>
        (if ok then x # acc else acc, out, m''))"
| "chan_run push pop (ChanPop # ops) m =
     (case pop m of (r, m') \<Rightarrow>
      case chan_run push pop ops m' of (acc, out, m'') \<Rightarrow>
        (acc, (case r of None \<Rightarrow> out | Some x \<Rightarrow> x # out), m''))"

locale fifo_channel =
  fixes push :: "'a \<Rightarrow> 'm \<Rightarrow> bool \<times> 'm"
    and pop :: "'m \<Rightarrow> 'a option \<times> 'm"
    and contents :: "'m \<Rightarrow> 'a list"
    and invar :: "'m \<Rightarrow> bool"
  assumes push_ok: "invar m \<Longrightarrow> push x m = (ok, m') \<Longrightarrow>
      invar m' \<and> contents m' = (if ok then contents m @ [x] else contents m)"
    and pop_ok: "invar m \<Longrightarrow> pop m = (r, m') \<Longrightarrow>
      invar m' \<and> (case r of None \<Rightarrow> contents m = [] \<and> contents m' = []
                 | Some x \<Rightarrow> contents m = x # contents m')"
begin

lemma fifo_order:
  assumes "invar m" and "chan_run push pop ops m = (acc, out, m')"
  shows "invar m' \<and> out @ contents m' = contents m @ acc"
  using assms
proof (induction ops arbitrary: m acc out m')
  case Nil
  then show ?case by simp
next
  case (Cons op ops)
  show ?case
  proof (cases op)
    case (ChanPush x)
    obtain ok m1 where p: "push x m = (ok, m1)" by fastforce
    obtain acc1 out1 m2 where r: "chan_run push pop ops m1 = (acc1, out1, m2)"
      by (metis prod_cases3)
    from push_ok [OF Cons.prems(1) p] Cons.IH [OF _ r] Cons.prems(2) ChanPush p r
    show ?thesis by (auto split: if_splits)
  next
    case ChanPop
    obtain x m1 where p: "pop m = (x, m1)" by fastforce
    obtain acc1 out1 m2 where r: "chan_run push pop ops m1 = (acc1, out1, m2)"
      by (metis prod_cases3)
    from pop_ok [OF Cons.prems(1) p] Cons.IH [OF _ r] Cons.prems(2) ChanPop p r
    show ?thesis by (auto split: option.splits)
  qed
qed

end

section \<open>The registry interface\<close>

text \<open>
  A table of weak references under string keys: a lookup returns the object last stored
  under the key unless the key was erased since or the object has expired.
\<close>

locale weak_registry =
  fixes bind :: "string \<Rightarrow> 'o \<Rightarrow> 'r \<Rightarrow> 'r"
    and unbind :: "string \<Rightarrow> 'r \<Rightarrow> 'r"
    and find :: "('o \<Rightarrow> bool) \<Rightarrow> 'r \<Rightarrow> string \<Rightarrow> 'o option"
  assumes find_bind: "find alive (bind k x r) k' =
      (if k' = k then (if alive x then Some x else None) else find alive r k')"
    and find_unbind: "find alive (unbind k r) k' =
      (if k' = k then None else find alive r k')"
begin

lemma find_bind_bind: "find alive (bind k y (bind k x r)) k' = find alive (bind k y r) k'"
  by (simp add: find_bind)

lemma find_unbind_bind: "find alive (unbind k (bind k x r)) k' = find alive (unbind k r) k'"
  by (simp add: find_bind find_unbind)

lemma unbind_stale: "find alive (unbind k (bind k y (bind k x r))) k = None"
  by (simp add: find_unbind)

end

section \<open>The start/stop interface\<close>

text \<open>
  A component guarded by a \<open>running_\<close> flag that is exchanged atomically: starting a running
  component and stopping a stopped one change nothing.
\<close>

locale lifecycle =
  fixes start :: "'c \<Rightarrow> 's \<Rightarrow> 's"
    and stop :: "'s \<Rightarrow> 's"
    and running :: "'s \<Rightarrow> bool"
  assumes start_running: "running (start c s)"
    and start_again: "running s \<Longrightarrow> start c s = s"
    and stop_running: "\<not> running (stop s)"
    and stop_again: "\<not> running s \<Longrightarrow> stop s = s"
begin

lemma start_idem: "start d (start c s) = start c s"
  by (rule start_again) (rule start_running)

lemma stop_idem: "stop (stop s) = stop s"
  by (rule stop_again) (rule stop_running)

end

section \<open>Shared lemmas\<close>

lemma rbind_simps [simp]: "rbind (Inl e) f = Inl e" "rbind (Inr x) f = f x"
  by (simp_all add: rbind_def)

lemma rbind_eq_Inr: "rbind r f = Inr y \<longleftrightarrow> (\<exists>x. r = Inr x \<and> f x = Inr y)"
  by (cases r) auto

lemma rbind_eq_Inl: "rbind r f = Inl e \<longleftrightarrow> r = Inl e \<or> (\<exists>x. r = Inr x \<and> f x = Inl e)"
  by (cases r) auto

lemma rbind_cong [fundef_cong]:
  "r = r' \<Longrightarrow> (\<And>x. r' = Inr x \<Longrightarrow> f x = g x) \<Longrightarrow> rbind r f = rbind r' g"
  by (cases r') auto

lemma is_ok_simps [simp]: "is_ok (Inr x)" "\<not> is_ok (Inl e)"
  by (simp_all add: is_ok_def)

lemma is_ok_iff: "is_ok r \<longleftrightarrow> (\<exists>x. r = Inr x)"
  by (cases r) auto

lemma is_ok_rbind: "is_ok (rbind r f) \<longleftrightarrow> (\<exists>x. r = Inr x \<and> is_ok (f x))"
  by (cases r) auto

lemma unat_of_nat64 [simp]: "n < 2 ^ 64 \<Longrightarrow> unat (of_nat n :: size_t) = n"
  by (simp add: unat_of_nat)

lemma unat_npos [simp]: "unat npos = 2 ^ 64 - 1"
  by (simp add: npos_def unsigned_minus_1_eq_mask mask_eq_exp_minus_1)

lemma npos_plus_one [simp]: "npos + 1 = 0"
  by (simp add: npos_def)

lemma of_nat_neq_npos: "n < 2 ^ 64 - 1 \<Longrightarrow> (of_nat n :: size_t) \<noteq> npos"
  by (metis unat_of_nat64 unat_npos less_imp_le_nat less_le_trans nat_neq_iff diff_le_self)

lemma index_of_None [simp]: "index_of c s = None \<longleftrightarrow> c \<notin> set s"
  by (induction s) auto

lemma last_index_of_None [simp]: "last_index_of c s = None \<longleftrightarrow> c \<notin> set s"
  by (induction s) (auto split: option.splits)

lemma index_of_append [simp]: "c \<notin> set xs \<Longrightarrow> index_of c (xs @ c # ys) = Some (length xs)"
  by (induction xs) auto

lemma last_index_of_append [simp]:
  "c \<notin> set ys \<Longrightarrow> last_index_of c (xs @ c # ys) = Some (length xs)"
  by (induction xs) (auto split: option.splits)

lemma last_index_of_split:
  "last_index_of c s = Some i \<Longrightarrow> s = take i s @ c # drop (Suc i) s \<and> c \<notin> set (drop (Suc i) s)"
  by (induction s arbitrary: i) (auto split: option.splits if_splits)

lemma index_of_bound: "index_of c s = Some i \<Longrightarrow> i < length s"
  by (induction s arbitrary: i) (auto split: if_splits)

lemma last_index_of_bound: "last_index_of c s = Some i \<Longrightarrow> i < length s"
  by (induction s arbitrary: i) (auto split: option.splits if_splits)

lemma starts_with_append [simp]: "starts_with (p @ s) p"
  by (simp add: starts_with_def)

lemma ends_with_append [simp]: "ends_with (s @ p) p"
  by (simp add: ends_with_def)

lemma starts_with_iff: "starts_with s p \<longleftrightarrow> (\<exists>r. s = p @ r)"
  by (auto simp: starts_with_def) (metis append_take_drop_id)

lemma ends_with_iff: "ends_with s p \<longleftrightarrow> (\<exists>r. s = r @ p)"
  by (auto simp: ends_with_def) (metis append_take_drop_id)

subsection \<open>Number output\<close>

lemma char_digit_digit_char: "d < 16 \<Longrightarrow> char_digit (digit_char d) = d"
  by (auto simp: char_digit_def digit_char_def)

lemma radix_value_snoc: "radix_value b (s @ [c]) = b * radix_value b s + char_digit c"
  by (simp add: radix_value_def)

lemma radix_value_digits:
  assumes "2 \<le> b" and "b \<le> 16"
  shows "radix_value b (radix_digits b n) = n"
  using assms
proof (induction b n rule: radix_digits.induct)
  case (1 b n)
  show ?case
  proof (cases "n < b")
    case True
    with "1.prems" show ?thesis
      by (simp add: radix_digits.simps [of b n] radix_value_def char_digit_digit_char)
  next
    case False
    then have "n mod b < 16" using "1.prems" 
      by (metis less_le_trans mod_less_divisor zero_less_numeral)
    with False 1 show ?thesis
      by (simp add: radix_digits.simps [of b n] radix_value_snoc char_digit_digit_char)
  qed
qed

lemma to_string_value: "radix_value 10 (to_string n) = n"
  by (simp add: to_string_def radix_value_digits)

lemma to_hex_value: "radix_value 16 (to_hex n) = n"
  by (simp add: to_hex_def radix_value_digits)

lemma to_string_inject [simp]: "to_string m = to_string n \<longleftrightarrow> m = n"
  by (metis to_string_value)

lemma to_hex_inject [simp]: "to_hex m = to_hex n \<longleftrightarrow> m = n"
  by (metis to_hex_value)

lemma digit_char_range: "d < 16 \<Longrightarrow> digit_char d \<in> set ''0123456789abcdef''"
proof -
  have "\<forall>d \<in> set [0..<16]. digit_char d \<in> set ''0123456789abcdef''" by code_simp
  moreover assume "d < 16"
  ultimately show ?thesis by auto
qed

lemma radix_digits_set:
  assumes "2 \<le> b" and "b \<le> 16"
  shows "set (radix_digits b n) \<subseteq> set ''0123456789abcdef''"
  using assms
proof (induction b n rule: radix_digits.induct)
  case (1 b n)
  have m: "n mod b < 16" using "1.prems" by (meson less_le_trans mod_less_divisor zero_less_numeral)
  show ?case
  proof (cases "n < b")
    case True
    with "1.prems" have "digit_char n \<in> set ''0123456789abcdef''" by (intro digit_char_range) simp
    with True show ?thesis by (simp only: radix_digits.simps [of b n]) simp
  next
    case False
    from m have "digit_char (n mod b) \<in> set ''0123456789abcdef''" by (rule digit_char_range)
    moreover from False "1.prems" have "set (radix_digits b (n div b)) \<subseteq> set ''0123456789abcdef''"
      by (intro "1.IH") auto
    ultimately show ?thesis using False "1.prems"
      by (subst radix_digits.simps) (simp only: if_False not_less set_append, simp)
  qed
qed

lemma radix_digits_length:
  assumes "2 \<le> b" and "n < b ^ Suc k"
  shows "length (radix_digits b n) \<le> Suc k"
  using assms(2)
proof (induction k arbitrary: n)
  case 0
  then show ?case by (simp add: radix_digits.simps [of b n])
next
  case (Suc k)
  show ?case
  proof (cases "n < b")
    case True
    then show ?thesis by (simp add: radix_digits.simps [of b n])
  next
    case False
    have "n div b < b ^ Suc k"
      using Suc.prems assms(1) by (simp add: less_mult_imp_div_less mult.commute)
    from Suc.IH [OF this] False assms(1) show ?thesis
      by (simp add: radix_digits.simps [of b n])
  qed
qed

lemma radix_digits_nonempty [simp]: "radix_digits b n \<noteq> []"
  by (subst radix_digits.simps) simp

subsection \<open>The heap\<close>

lemma live_make_unique: "live (snd (make_unique e h)) = insert (brk h) (live h)"
  by (auto simp: live_def make_unique_def)

lemma live_free: "live (free_ptr a h) = live h - {a}"
  by (auto simp: live_def free_ptr_def)

lemma heap_ok_make_unique: "heap_ok h \<Longrightarrow> heap_ok (snd (make_unique e h))"
  by (auto simp: heap_ok_def live_def make_unique_def)

lemma heap_ok_free: "heap_ok h \<Longrightarrow> heap_ok (free_ptr a h)"
  by (auto simp: heap_ok_def live_def free_ptr_def)

lemma heap_ok_empty: "heap_ok empty_heap"
  by (simp add: heap_ok_def live_def empty_heap_def)

lemma fresh_not_live: "heap_ok h \<Longrightarrow> brk h \<notin> live h"
  by (auto simp: heap_ok_def)

end
