(* ===== verification/Json_Lib.thy ===== *)
theory Json_Lib
  imports Prelude
begin

text \<open>
  The JSON library \<open>nlohmann::json\<close> is not part of the repository. Its values are the
  documented JSON data model; its functions are fields of the record \<open>json_lib\<close>, which every
  definition that calls the library takes as an argument. The predicate \<open>nlohmann_json\<close>
  states the documented behaviour the server's code relies on; theorems that need it carry
  it as a hypothesis, and \<open>table_json\<close> is a concrete library that satisfies it.
\<close>

section \<open>Values\<close>

text \<open>
  Objects are \<open>std::map<std::string, json>\<close>, the library's default: an association list
  with strictly increasing keys. The library compares its signed and unsigned integers by
  value, so both are \<open>JInt\<close>; a floating point number is kept as its bit pattern.
  \<open>JDiscarded\<close> is the value a failed parse without exceptions returns.
\<close>

datatype json =
    JNull
  | JBool bool
  | JInt int
  | JFloat "64 word"
  | JString string
  | JArray "json list"
  | JObject "(string \<times> json) list"
  | JDiscarded

text \<open>Insertion into the ordered map: an existing key keeps its value.\<close>

fun map_emplace :: "string \<Rightarrow> 'v \<Rightarrow> (string \<times> 'v) list \<Rightarrow> (string \<times> 'v) list" where
  "map_emplace k v [] = [(k, v)]"
| "map_emplace k v ((k', v') # kvs) =
     (if k = k' then (k', v') # kvs
      else if k < k' then (k, v) # (k', v') # kvs
      else (k', v') # map_emplace k v kvs)"

definition make_object :: "(string \<times> json) list \<Rightarrow> json" where
  "make_object kvs = JObject (fold (\<lambda>(k, v). map_emplace k v) kvs [])"

text \<open>An element of a braced list that the library reads as a key/value pair.\<close>

fun json_pair :: "json \<Rightarrow> (string \<times> json) option" where
  "json_pair (JArray [JString k, v]) = Some (k, v)"
| "json_pair _ = None"

section \<open>The library's functions\<close>

record json_lib =
  parse_noexcept :: "string \<Rightarrow> json"                   \<comment> \<open>\<open>parse(s, nullptr, false)\<close>\<close>
  parse_throw :: "string \<Rightarrow> json result"               \<comment> \<open>\<open>parse(s)\<close>\<close>
  is_object :: "json \<Rightarrow> bool"
  value_str :: "json \<Rightarrow> string \<Rightarrow> string \<Rightarrow> string result" \<comment> \<open>\<open>value(key, "...")\<close>\<close>
  value_json :: "json \<Rightarrow> string \<Rightarrow> json \<Rightarrow> json result"   \<comment> \<open>\<open>value(key, json)\<close>\<close>
  init_list :: "json list \<Rightarrow> json"                     \<comment> \<open>\<open>json{a, b, ...}\<close>\<close>
  dump :: "json \<Rightarrow> string result"                       \<comment> \<open>\<open>dump()\<close>, throws on bad UTF-8\<close>
  dump_replace :: "json \<Rightarrow> string"                      \<comment> \<open>\<open>dump(..., replace)\<close>\<close>
  at_key :: "json \<Rightarrow> string \<Rightarrow> json result"             \<comment> \<open>\<open>at(key)\<close>\<close>
  get_string :: "json \<Rightarrow> string result"                 \<comment> \<open>\<open>get<std::string>()\<close>\<close>

text \<open>
  The documented behaviour. \<open>value\<close> throws \<open>type_error.306\<close> when called on a value that is
  not an object and \<open>type_error.302\<close> when the member has another type than the default;
  a braced list is an object exactly when every element is a two-element array whose first
  element is a string.
\<close>

definition value_str_spec :: "json \<Rightarrow> string \<Rightarrow> string \<Rightarrow> string result" where
  "value_str_spec j k d =
     (case j of
        JObject kvs \<Rightarrow>
          (case map_of kvs k of
             None \<Rightarrow> Inr d
           | Some (JString s) \<Rightarrow> Inr s
           | Some _ \<Rightarrow> Inl (JsonTypeError 302))
      | _ \<Rightarrow> Inl (JsonTypeError 306))"

definition value_json_spec :: "json \<Rightarrow> string \<Rightarrow> json \<Rightarrow> json result" where
  "value_json_spec j k d =
     (case j of
        JObject kvs \<Rightarrow> (case map_of kvs k of None \<Rightarrow> Inr d | Some v \<Rightarrow> Inr v)
      | _ \<Rightarrow> Inl (JsonTypeError 306))"

definition init_list_spec :: "json list \<Rightarrow> json" where
  "init_list_spec js =
     (if \<forall>j \<in> set js. json_pair j \<noteq> None then make_object (map (the \<circ> json_pair) js)
      else JArray js)"

definition at_key_spec :: "json \<Rightarrow> string \<Rightarrow> json result" where
  "at_key_spec j k =
     (case j of
        JObject kvs \<Rightarrow> (case map_of kvs k of None \<Rightarrow> Inl JsonOutOfRange | Some v \<Rightarrow> Inr v)
      | _ \<Rightarrow> Inl (JsonTypeError 304))"

definition get_string_spec :: "json \<Rightarrow> string result" where
  "get_string_spec j = (case j of JString s \<Rightarrow> Inr s | _ \<Rightarrow> Inl (JsonTypeError 302))"

definition nlohmann_json :: "json_lib \<Rightarrow> bool" where
  "nlohmann_json J \<longleftrightarrow>
     (\<forall>j. is_object J j = (\<exists>kvs. j = JObject kvs)) \<and>
     value_str J = value_str_spec \<and>
     value_json J = value_json_spec \<and>
     (\<forall>js. js \<noteq> [] \<longrightarrow> init_list J js = init_list_spec js) \<and>
     at_key J = at_key_spec \<and>
     get_string J = get_string_spec \<and>
     (\<forall>s. parse_throw J s =
        (if parse_noexcept J s = JDiscarded then Inl JsonParseError
         else Inr (parse_noexcept J s)))"

text \<open>
  Serialising a value whose strings are valid UTF-8 and parsing the text again gives the
  value back. Theorems state this for the values they are about.
\<close>

definition json_roundtrips :: "json_lib \<Rightarrow> json \<Rightarrow> bool" where
  "json_roundtrips J j \<longleftrightarrow>
     dump J j = Inr (dump_replace J j) \<and> parse_noexcept J (dump_replace J j) = j"

text \<open>A string member, and the object a braced list of pairs denotes.\<close>

definition jpair :: "json_lib \<Rightarrow> string \<Rightarrow> json \<Rightarrow> json" where
  "jpair J k v = init_list J [JString k, v]"

section \<open>A concrete library\<close>

text \<open>
  Parsing and printing by a finite table of texts; everything else as documented.
\<close>

definition table_json :: "(string \<times> json) list \<Rightarrow> json_lib" where
  "table_json t =
     \<lparr>parse_noexcept = (\<lambda>s. case map_of t s of None \<Rightarrow> JDiscarded | Some j \<Rightarrow> j),
      parse_throw = (\<lambda>s. case map_of t s of
                          None \<Rightarrow> Inl JsonParseError
                        | Some j \<Rightarrow> if j = JDiscarded then Inl JsonParseError else Inr j),
      is_object = (\<lambda>j. case j of JObject _ \<Rightarrow> True | _ \<Rightarrow> False),
      value_str = value_str_spec,
      value_json = value_json_spec,
      init_list = init_list_spec,
      dump = (\<lambda>j. case map_of (map (\<lambda>(s, v). (v, s)) t) j of
                   None \<Rightarrow> Inl (JsonTypeError 316) | Some s \<Rightarrow> Inr s),
      dump_replace = (\<lambda>j. case map_of (map (\<lambda>(s, v). (v, s)) t) j of
                           None \<Rightarrow> ''?'' | Some s \<Rightarrow> s),
      at_key = at_key_spec,
      get_string = get_string_spec\<rparr>"

section \<open>Consequences\<close>

lemma table_json_ok: "nlohmann_json (table_json t)"
  by (auto simp: nlohmann_json_def table_json_def split: option.splits json.splits)

abbreviation sorted_keys :: "(string \<times> 'v) list \<Rightarrow> bool" where
  "sorted_keys kvs \<equiv> sorted_wrt (<) (map fst kvs)"

lemma keys_emplace: "set (map fst (map_emplace k v kvs)) = insert k (set (map fst kvs))"
  by (induction k v kvs rule: map_emplace.induct) auto

lemma sorted_emplace: "sorted_keys kvs \<Longrightarrow> sorted_keys (map_emplace k v kvs)"
proof (induction k v kvs rule: map_emplace.induct)
  case (1 k v)
  then show ?case by simp
next
  case (2 k v k' v' kvs)
  have "\<forall>x \<in> set (map fst (map_emplace k v kvs)). k' < x" if "k \<noteq> k'" "\<not> k < k'"
    using that "2.prems" unfolding keys_emplace by auto
  with 2 show ?case by (auto intro: order.strict_trans)
qed

lemma sorted_keys_less: "sorted_keys ((k', v') # kvs) \<Longrightarrow> k < k' \<Longrightarrow> map_of kvs k = None"
  by (fastforce simp: map_of_eq_None_iff)

lemma map_of_emplace:
  "sorted_keys kvs \<Longrightarrow> map_of (map_emplace k v kvs) k' =
     (if k' = k \<and> map_of kvs k = None then Some v else map_of kvs k')"
proof (induction k v kvs rule: map_emplace.induct)
  case (1 k v)
  then show ?case by simp
next
  case (2 k v k1 v1 kvs)
  then have "map_of kvs k = None" if "k < k1"
    using that by (rule_tac sorted_keys_less)
  with 2 show ?case by auto
qed

lemma emplace_fold:
  assumes "sorted_keys acc"
  shows "sorted_keys (fold (\<lambda>(k, v). map_emplace k v) kvs acc) \<and>
     map_of (fold (\<lambda>(k, v). map_emplace k v) kvs acc) k' =
       (case map_of acc k' of Some v \<Rightarrow> Some v | None \<Rightarrow> map_of kvs k')"
  using assms
proof (induction kvs arbitrary: acc)
  case Nil
  then show ?case by (simp split: option.splits)
next
  case (Cons p kvs)
  obtain k v where p: "p = (k, v)" by (cases p)
  from Cons.IH [OF sorted_emplace [OF Cons.prems, of k v]] show ?case
    by (auto simp: p map_of_emplace [OF Cons.prems] split: option.splits)
qed

lemma make_object_lookup:
  obtains m where "make_object kvs = JObject m" and "map_of m = map_of kvs"
proof
  show "make_object kvs = JObject (fold (\<lambda>(k, v). map_emplace k v) kvs [])"
    by (simp add: make_object_def)
  show "map_of (fold (\<lambda>(k, v). map_emplace k v) kvs []) = map_of kvs"
    using emplace_fold [of "[]" kvs] by (simp add: fun_eq_iff)
qed

lemma jpair_eq: "nlohmann_json J \<Longrightarrow> jpair J k v = JArray [JString k, v]"
  by (auto simp: nlohmann_json_def jpair_def init_list_spec_def)

lemma init_list_pairs:
  assumes J: "nlohmann_json J" and "kvs \<noteq> []"
  shows "init_list J (map (\<lambda>(k, v). jpair J k v) kvs) = make_object kvs"
proof -
  have "map (the \<circ> json_pair) (map (\<lambda>(k, v). jpair J k v) kvs) = kvs"
    by (induction kvs) (auto simp: jpair_eq [OF J])
  moreover have "\<forall>j \<in> set (map (\<lambda>(k, v). jpair J k v) kvs). json_pair j \<noteq> None"
    by (auto simp: jpair_eq [OF J])
  ultimately show ?thesis
    using assms by (simp add: nlohmann_json_def init_list_spec_def)
qed

lemma value_str_make_object:
  assumes "nlohmann_json J"
  shows "value_str J (make_object kvs) k d =
     (case map_of kvs k of
        None \<Rightarrow> Inr d | Some (JString s) \<Rightarrow> Inr s | Some _ \<Rightarrow> Inl (JsonTypeError 302))"
proof -
  obtain m where "make_object kvs = JObject m" and "map_of m = map_of kvs"
    by (rule make_object_lookup)
  with assms show ?thesis by (simp add: nlohmann_json_def value_str_spec_def)
qed

lemma at_key_make_object:
  assumes "nlohmann_json J"
  shows "at_key J (make_object kvs) k =
     (case map_of kvs k of None \<Rightarrow> Inl JsonOutOfRange | Some v \<Rightarrow> Inr v)"
proof -
  obtain m where "make_object kvs = JObject m" and "map_of m = map_of kvs"
    by (rule make_object_lookup)
  with assms show ?thesis by (simp add: nlohmann_json_def at_key_spec_def)
qed

lemma is_object_make_object: "nlohmann_json J \<Longrightarrow> is_object J (make_object kvs)"
  by (simp add: nlohmann_json_def make_object_def)

end
