(* ===== verification/Mailbox.thy ===== *)
theory Mailbox
  imports Json_Lib
begin

text \<open>
  \<open>core/actor/actor_message.hpp\<close> and \<open>core/actor/mailbox.{hpp,cpp}\<close>: the messages actors
  exchange and the mailbox that holds raw pointers to them. The queue inside a mailbox is
  \<open>boost::lockfree::queue\<close>, a parameter (\<open>queue_lib\<close>) whose documented behaviour is the
  predicate \<open>lockfree_queue\<close>. Envelopes live in a heap, so that what the code does with the
  ownership of a pointer (\<open>release\<close>, destruction of a \<open>unique_ptr\<close>) is visible.
\<close>

section \<open>Messages\<close>

datatype ActorType = session | chat | message | storage

text \<open>The enumerators as the \<open>std::uint8_t\<close> values the compiler gives them.\<close>

primrec actor_code :: "ActorType \<Rightarrow> nat" where
  "actor_code session = 0"
| "actor_code chat = 1"
| "actor_code message = 2"
| "actor_code storage = 3"

instantiation ActorType :: linorder
begin

definition less_eq_ActorType :: "ActorType \<Rightarrow> ActorType \<Rightarrow> bool" where
  "less_eq_ActorType a b \<longleftrightarrow> actor_code a \<le> actor_code b"

definition less_ActorType :: "ActorType \<Rightarrow> ActorType \<Rightarrow> bool" where
  "less_ActorType a b \<longleftrightarrow> actor_code a < actor_code b"

instance
proof
  fix a b :: ActorType
  show "a \<le> b \<Longrightarrow> b \<le> a \<Longrightarrow> a = b"
    by (cases a; cases b) (auto simp: less_eq_ActorType_def)
qed (auto simp: less_eq_ActorType_def less_ActorType_def)

end

record AuthEvent =
  auth_sessionId :: string
  auth_userId :: string

record SendMessageEvent =
  sm_sessionId :: string
  sm_chatId :: string
  sm_senderId :: string
  sm_recipientId :: string
  sm_text :: string

record TypingEvent =
  ty_chatId :: string
  ty_userId :: string

record ReadEvent =
  rd_chatId :: string
  rd_userId :: string
  rd_messageId :: string

record StoragePersistMessage =
  pm_chatId :: string
  pm_senderId :: string
  pm_content :: string

record SessionOutgoingEvent =
  so_sessionId :: string
  so_payload :: json

datatype ActorPayload =
    PAuth AuthEvent
  | PSend SendMessageEvent
  | PTyping TypingEvent
  | PRead ReadEvent
  | PPersist StoragePersistMessage
  | POutgoing SessionOutgoingEvent

record ActorEnvelope =
  destination :: ActorType
  payload :: ActorPayload

section \<open>The queue library\<close>

record 'q queue_lib =
  q_new :: "size_t \<Rightarrow> 'q"
  q_bounded_push :: "addr \<Rightarrow> 'q \<Rightarrow> bool \<times> 'q"
  q_pop :: "'q \<Rightarrow> (addr \<times> 'q) option"

text \<open>
  Documented behaviour of \<open>boost::lockfree::queue\<close>: a linearizable FIFO queue; \<open>bounded_push\<close>
  never allocates and can fail only when all nodes allocated at construction are in use;
  \<open>pop\<close> fails exactly on an empty queue. \<open>cont\<close> are the queued pointers in order, \<open>nodes\<close> is
  the size of the node pool.
\<close>

definition lockfree_queue ::
  "'q queue_lib \<Rightarrow> ('q \<Rightarrow> addr list) \<Rightarrow> ('q \<Rightarrow> nat) \<Rightarrow> bool" where
  "lockfree_queue Q cont nodes \<longleftrightarrow>
     (\<forall>n. cont (q_new Q n) = [] \<and> unat n \<le> nodes (q_new Q n)) \<and>
     (\<forall>a q ok q'. q_bounded_push Q a q = (ok, q') \<longrightarrow>
        cont q' = (if ok then cont q @ [a] else cont q) \<and> nodes q' = nodes q \<and>
        (length (cont q) < nodes q \<longrightarrow> ok)) \<and>
     (\<forall>q. q_pop Q q = None \<longleftrightarrow> cont q = []) \<and>
     (\<forall>q a q'. q_pop Q q = Some (a, q') \<longrightarrow> cont q = a # cont q' \<and> nodes q' = nodes q)"

text \<open>A queue library that satisfies it: a list with a fixed number of nodes.\<close>

definition list_queue :: "(addr list \<times> nat) queue_lib" where
  "list_queue =
     \<lparr>q_new = (\<lambda>n. ([], unat n)),
      q_bounded_push = (\<lambda>a (xs, n). if length xs < n then (True, xs @ [a], n) else (False, xs, n)),
      q_pop = (\<lambda>(xs, n). case xs of [] \<Rightarrow> None | x # ys \<Rightarrow> Some (x, ys, n))\<rparr>"

section \<open>Mailbox\<close>

record 'q mailbox =
  mb_queue :: 'q
  mb_active :: bool

definition Mailbox_new :: "'q queue_lib \<Rightarrow> size_t \<Rightarrow> 'q mailbox" where
  "Mailbox_new Q capacity = \<lparr>mb_queue = q_new Q capacity, mb_active = True\<rparr>"

text \<open>
  \<open>push\<close> takes ownership of the envelope at \<open>a\<close>. On the early return the \<open>unique_ptr\<close>
  parameter still owns it and destroys it; otherwise the pointer is released before
  \<open>bounded_push\<close>, so nobody owns it when the queue refuses it.
\<close>

fun Mailbox_push ::
  "'q queue_lib \<Rightarrow> addr \<Rightarrow> 'e heap \<times> 'q mailbox \<Rightarrow> bool \<times> 'e heap \<times> 'q mailbox" where
  "Mailbox_push Q a (h, mb) =
     (if \<not> mb_active mb then (False, free_ptr a h, mb)
      else case q_bounded_push Q a (mb_queue mb) of
             (ok, q') \<Rightarrow> (ok, h, mb\<lparr>mb_queue := q'\<rparr>))"

fun Mailbox_pop ::
  "'q queue_lib \<Rightarrow> 'e heap \<times> 'q mailbox \<Rightarrow> addr option \<times> 'e heap \<times> 'q mailbox" where
  "Mailbox_pop Q (h, mb) =
     (case q_pop Q (mb_queue mb) of
        None \<Rightarrow> (None, h, mb)
      | Some (raw, q') \<Rightarrow> (Some raw, h, mb\<lparr>mb_queue := q'\<rparr>))"

text \<open>The destructor's loop; \<open>None\<close> is a loop that does not end.\<close>

partial_function (option) Mailbox_drain ::
  "'q queue_lib \<Rightarrow> 'e heap \<Rightarrow> 'q \<Rightarrow> ('e heap \<times> 'q) option" where
  "Mailbox_drain Q h q =
     (case q_pop Q q of
        None \<Rightarrow> Some (h, q)
      | Some r \<Rightarrow> Mailbox_drain Q (free_ptr (fst r) h) (snd r))"

definition Mailbox_destroy ::
  "'q queue_lib \<Rightarrow> 'e heap \<times> 'q mailbox \<Rightarrow> ('e heap \<times> 'q mailbox) option" where
  "Mailbox_destroy Q hm =
     (case Mailbox_drain Q (fst hm) (mb_queue (snd hm)) of
        None \<Rightarrow> None
      | Some (h', q') \<Rightarrow> Some (h', \<lparr>mb_queue = q', mb_active = False\<rparr>))"

text \<open>What a mailbox holds, and that it owns it: distinct live envelopes.\<close>

definition mailbox_contents :: "('q \<Rightarrow> addr list) \<Rightarrow> 'e heap \<times> 'q mailbox \<Rightarrow> addr list" where
  "mailbox_contents cont hm = cont (mb_queue (snd hm))"

definition mailbox_owns :: "('q \<Rightarrow> addr list) \<Rightarrow> 'e heap \<times> 'q mailbox \<Rightarrow> bool" where
  "mailbox_owns cont hm \<longleftrightarrow>
     distinct (mailbox_contents cont hm) \<and> set (mailbox_contents cont hm) \<subseteq> live (fst hm)"

section \<open>Library facts\<close>

lemma list_queue_ok: "lockfree_queue list_queue fst snd"
  by (auto simp: lockfree_queue_def list_queue_def split: list.splits if_splits)

lemma lockfree_new:
  "lockfree_queue Q cont nodes \<Longrightarrow> cont (q_new Q n) = []"
  by (simp add: lockfree_queue_def)

lemma lockfree_new_nodes:
  "lockfree_queue Q cont nodes \<Longrightarrow> unat n \<le> nodes (q_new Q n)"
  by (simp add: lockfree_queue_def)

lemma lockfree_push:
  "lockfree_queue Q cont nodes \<Longrightarrow> q_bounded_push Q a q = (ok, q') \<Longrightarrow>
     cont q' = (if ok then cont q @ [a] else cont q) \<and> nodes q' = nodes q"
  by (simp add: lockfree_queue_def)

lemma lockfree_push_room:
  "lockfree_queue Q cont nodes \<Longrightarrow> length (cont q) < nodes q \<Longrightarrow>
     q_bounded_push Q a q = (ok, q') \<Longrightarrow> ok"
  unfolding lockfree_queue_def by blast

lemma lockfree_pop_None:
  "lockfree_queue Q cont nodes \<Longrightarrow> q_pop Q q = None \<longleftrightarrow> cont q = []"
  by (simp add: lockfree_queue_def)

lemma lockfree_pop_Some:
  "lockfree_queue Q cont nodes \<Longrightarrow> q_pop Q q = Some (a, q') \<Longrightarrow>
     cont q = a # cont q' \<and> nodes q' = nodes q"
  by (simp add: lockfree_queue_def)

section \<open>The mailbox is a FIFO channel\<close>

interpretation mbox: fifo_channel
  "Mailbox_push Q" "Mailbox_pop Q" "mailbox_contents cont" "\<lambda>_. lockfree_queue Q cont nodes"
  for Q cont nodes
proof (unfold_locales, goal_cases)
  case (1 m x ok m')
  then show ?case
    by (cases m) (auto simp: mailbox_contents_def split: if_splits prod.splits dest: lockfree_push)
next
  case (2 m r m')
  then show ?case
    by (cases m)
      (auto simp: mailbox_contents_def lockfree_pop_None split: option.splits
        dest: lockfree_pop_Some)
qed

section \<open>Ownership\<close>

lemma Mailbox_drain_frees:
  assumes "lockfree_queue Q cont nodes"
  shows "\<exists>h' q'. Mailbox_drain Q h q = Some (h', q') \<and> cont q' = [] \<and>
           live h' = live h - set (cont q)"
proof (induction "length (cont q)" arbitrary: h q)
  case 0
  then have "q_pop Q q = None" using assms by (simp add: lockfree_pop_None)
  with 0 show ?case by (subst Mailbox_drain.simps) simp
next
  case (Suc n)
  then obtain a q1 where p: "q_pop Q q = Some (a, q1)"
    using lockfree_pop_None [OF assms, of q] by (cases "q_pop Q q") auto
  from lockfree_pop_Some [OF assms p] have c: "cont q = a # cont q1" by simp
  with Suc.hyps have "n = length (cont q1)" by simp
  from Suc.hyps(1) [OF this, of "free_ptr a h"] obtain h' q' where
    "Mailbox_drain Q (free_ptr a h) q1 = Some (h', q')" "cont q' = []"
    "live h' = live (free_ptr a h) - set (cont q1)" by blast
  with p c show ?case by (subst Mailbox_drain.simps) (auto simp: live_free)
qed

lemma live_Mailbox_push:
  "Mailbox_push Q a (h, mb) = (ok, h', mb') \<Longrightarrow>
     live h' = (if mb_active mb then live h else live h - {a}) \<and> mb_active mb' = mb_active mb \<and>
     (mb_active mb \<longrightarrow> h' = h)"
  by (auto simp: live_free split: if_splits prod.splits)

lemma Mailbox_push_inactive:
  "Mailbox_push Q a (h, mb) = (ok, h', mb') \<Longrightarrow> \<not> mb_active mb \<Longrightarrow> mb' = mb \<and> \<not> ok"
  by simp

lemma mailbox_owns_push:
  assumes Q: "lockfree_queue Q cont nodes" and own: "mailbox_owns cont (h, mb)"
    and a: "a \<in> live h" "a \<notin> set (mailbox_contents cont (h, mb))"
    and p: "Mailbox_push Q a (h, mb) = (ok, h', mb')"
  shows "mailbox_owns cont (h', mb')"
proof -
  have c: "mailbox_contents cont (h', mb') =
      (if ok then mailbox_contents cont (h, mb) @ [a] else mailbox_contents cont (h, mb))"
    using mbox.push_ok [OF Q p] by blast
  show ?thesis
    using own a c live_Mailbox_push [OF p] Mailbox_push_inactive [OF p]
    by (cases "mb_active mb") (auto simp: mailbox_owns_def split: if_splits)
qed

lemma live_Mailbox_pop: "Mailbox_pop Q (h, mb) = (r, h', mb') \<Longrightarrow> h' = h \<and> mb_active mb' = mb_active mb"
  by (auto split: option.splits)

lemma mailbox_owns_pop:
  assumes Q: "lockfree_queue Q cont nodes" and own: "mailbox_owns cont (h, mb)"
    and p: "Mailbox_pop Q (h, mb) = (Some a, h', mb')"
  shows "mailbox_owns cont (free_ptr a h', mb') \<and> a \<in> live h'"
proof -
  have c: "mailbox_contents cont (h, mb) = a # mailbox_contents cont (h', mb')"
    using mbox.pop_ok [OF Q p] by simp
  show ?thesis
    using own c live_Mailbox_pop [OF p]
    by (auto simp: mailbox_owns_def live_free mailbox_contents_def)
qed

section \<open>Properties\<close>

text \<open>
  Mailbox order. Whatever sequence of \<open>push\<close> and \<open>pop\<close> calls a mailbox sees, the
  pointers handed out so far followed by those still queued are exactly the pointers queued
  at the start followed by the accepted ones: nothing is lost, duplicated or reordered.
\<close>

theorem Mailbox_fifo:
  assumes "lockfree_queue Q cont nodes"
    and "chan_run (Mailbox_push Q) (Mailbox_pop Q) ops hm = (accepted, popped, hm')"
  shows "popped @ mailbox_contents cont hm' = mailbox_contents cont hm @ accepted"
  using mbox.fifo_order [OF assms] by blast

theorem Mailbox_fifo_witness:
  "\<exists>hm'. chan_run (Mailbox_push list_queue) (Mailbox_pop list_queue)
      [ChanPush 7, ChanPush 8, ChanPop, ChanPush 9]
      (empty_heap :: ActorEnvelope heap, Mailbox_new list_queue 2) = ([7, 8, 9], [7], hm') \<and>
    [7] @ mailbox_contents fst hm' = [7, 8, 9]"
proof -
  let ?hm = "(empty_heap :: ActorEnvelope heap, Mailbox_new list_queue 2)"
  let ?hm' = "(empty_heap :: ActorEnvelope heap, \<lparr>mb_queue = ([8, 9 :: nat], 2 :: nat), mb_active = True\<rparr>)"
  have r: "chan_run (Mailbox_push list_queue) (Mailbox_pop list_queue)
      [ChanPush 7, ChanPush 8, ChanPop, ChanPush 9] ?hm = ([7, 8, 9], [7], ?hm')"
    by (simp add: Mailbox_new_def list_queue_def)
  have "[7] @ mailbox_contents fst ?hm' = mailbox_contents fst ?hm @ [7, 8, 9]"
    by (rule Mailbox_fifo [OF list_queue_ok r])
  with r show ?thesis
    by (intro exI [of _ ?hm']) (simp add: mailbox_contents_def Mailbox_new_def list_queue_def)
qed

text \<open>
  The outcomes of \<open>Mailbox::push\<close>. A closed mailbox destroys the envelope and reports
  failure. An open mailbox never touches the heap: on success the envelope is queued last;
  on failure the queue is unchanged and the envelope stays allocated although no queue and
  no \<open>unique_ptr\<close> refers to it any more, so a full mailbox leaks the message.
\<close>

theorem Mailbox_push_outcomes:
  assumes "lockfree_queue Q cont nodes" and "a \<in> live h"
    and "a \<notin> set (mailbox_contents cont (h, mb))"
    and "Mailbox_push Q a (h, mb) = (ok, h', mb')"
  shows "if \<not> mb_active mb then \<not> ok \<and> live h' = live h - {a} \<and> mb' = mb
         else if ok then h' = h \<and> mailbox_contents cont (h', mb') = mailbox_contents cont (h, mb) @ [a]
         else nodes (mb_queue mb) \<le> length (mailbox_contents cont (h, mb)) \<and>
              a \<in> live h' \<and> a \<notin> set (mailbox_contents cont (h', mb'))"
proof (cases "mb_active mb")
  case False
  with assms(4) show ?thesis by (auto simp: live_free)
next
  case True
  obtain q' where p: "q_bounded_push Q a (mb_queue mb) = (ok, q')"
    using assms(4) True by (auto split: prod.splits)
  with assms(4) True have eq: "h' = h" "mb' = mb\<lparr>mb_queue := q'\<rparr>" by auto
  have "nodes (mb_queue mb) \<le> length (cont (mb_queue mb))" if "\<not> ok"
    using that lockfree_push_room [OF assms(1) _ p] by (meson not_less)
  with lockfree_push [OF assms(1) p] True assms(2,3)
  show ?thesis unfolding eq mailbox_contents_def by simp
qed

theorem Mailbox_push_outcomes_witness:
  "let h = snd (make_unique (\<lparr>destination = chat, payload = PTyping \<lparr>ty_chatId = [], ty_userId = []\<rparr>\<rparr>)
                 empty_heap);
       mb = \<lparr>mb_queue = ([5 :: nat], 1 :: nat), mb_active = True\<rparr>
   in Mailbox_push list_queue 0 (h, mb) = (False, h, mb) \<and> 0 \<in> live h \<and>
      0 \<notin> set (mailbox_contents fst (h, mb))"
proof -
  let ?e = "\<lparr>destination = chat, payload = PTyping \<lparr>ty_chatId = [], ty_userId = []\<rparr>\<rparr>"
  let ?h = "snd (make_unique ?e empty_heap)"
  let ?mb = "\<lparr>mb_queue = ([5 :: nat], 1 :: nat), mb_active = True\<rparr>"
  have l: "0 \<in> live ?h" and c: "0 \<notin> set (mailbox_contents fst (?h, ?mb))"
    by (simp_all add: live_make_unique empty_heap_def mailbox_contents_def)
  have r: "Mailbox_push list_queue 0 (?h, ?mb) = (False, ?h, ?mb)"
    by (simp add: list_queue_def)
  from Mailbox_push_outcomes [OF list_queue_ok l c r] r show ?thesis by (simp add: Let_def)
qed

text \<open>
  The destructor's loop ends, empties the queue, and frees exactly the envelopes that
  were still queued.
\<close>

theorem Mailbox_destroy_frees:
  assumes "lockfree_queue Q cont nodes"
  shows "\<exists>hm'. Mailbox_destroy Q hm = Some hm' \<and> mailbox_contents cont hm' = [] \<and>
           live (fst hm') = live (fst hm) - set (mailbox_contents cont hm) \<and>
           \<not> mb_active (snd hm')"
  using Mailbox_drain_frees [OF assms, of "fst hm" "mb_queue (snd hm)"]
  by (auto simp: Mailbox_destroy_def mailbox_contents_def)

theorem Mailbox_destroy_frees_witness:
  "\<exists>hm'. Mailbox_destroy list_queue
      (empty_heap :: ActorEnvelope heap, \<lparr>mb_queue = ([3 :: nat, 4], 2 :: nat), mb_active = True\<rparr>) = Some hm' \<and>
      mailbox_contents fst hm' = []"
  using Mailbox_destroy_frees [OF list_queue_ok,
      of "(empty_heap :: ActorEnvelope heap, \<lparr>mb_queue = ([3, 4], 2), mb_active = True\<rparr>)"]
  by blast

end
