(* ===== verification/Actor_System.thy ===== *)
theory Actor_System
  imports Mailbox
begin

text \<open>
  \<open>core/actor/actor.hpp\<close> and \<open>core/actor/actor_system.{hpp,cpp}\<close>: the registry of actors, message
  sending and the start/stop protocol. The worker loop is in \<open>Actors\<close>, because it calls the
  actors' handlers. The abstract view of an actor system is a list of pending envelopes for
  each actor type (\<open>inbox\<close>); the lemmas below show that sending and taking refine appending to
  and removing from these lists while the heap ownership stays consistent.
\<close>

section \<open>State\<close>

text \<open>The class of a registered actor decides which \<open>handle\<close> its workers run.\<close>

datatype actor_class = SessionActor | ChatActor | MessageActor | StorageActor

record 'q Actor =
  actor_kind :: actor_class
  actor_mailbox :: "'q mailbox"

record 'q actor_system =
  as_actors :: "ActorType \<rightharpoonup> 'q Actor"
  as_running :: bool
  as_workers :: nat
  as_heap :: "ActorEnvelope heap"

section \<open>Operations\<close>

text \<open>
  The constructors of the actors pass their mailbox to the base class. What else they keep is
  the same for every worker and reaches the handlers as arguments: the actor system, and for
  the storage actor the message repository.
\<close>

definition SessionActor_new :: "'q mailbox \<Rightarrow> 'q Actor" where
  "SessionActor_new mailbox = \<lparr>actor_kind = SessionActor, actor_mailbox = mailbox\<rparr>"

definition ChatActor_new :: "'q mailbox \<Rightarrow> 'q Actor" where
  "ChatActor_new mailbox = \<lparr>actor_kind = ChatActor, actor_mailbox = mailbox\<rparr>"

definition MessageActor_new :: "'q mailbox \<Rightarrow> 'q Actor" where
  "MessageActor_new mailbox = \<lparr>actor_kind = MessageActor, actor_mailbox = mailbox\<rparr>"

definition StorageActor_new :: "'q mailbox \<Rightarrow> 'q Actor" where
  "StorageActor_new mailbox = \<lparr>actor_kind = StorageActor, actor_mailbox = mailbox\<rparr>"

lemmas actor_new_defs = SessionActor_new_def ChatActor_new_def MessageActor_new_def StorageActor_new_def

definition ActorSystem_new :: "'q actor_system" where
  "ActorSystem_new = \<lparr>as_actors = Map.empty, as_running = False, as_workers = 0, as_heap = empty_heap\<rparr>"

definition ActorSystem_registerActor ::
  "ActorType \<Rightarrow> 'q Actor \<Rightarrow> 'q actor_system \<Rightarrow> 'q actor_system" where
  "ActorSystem_registerActor t ac sys = sys\<lparr>as_actors := (as_actors sys)(t \<mapsto> ac)\<rparr>"

text \<open>
  \<open>send\<close> owns the envelope at \<open>a\<close>. With no actor registered for the destination the
  \<open>unique_ptr\<close> goes out of scope and the envelope is destroyed. (A pointer to nothing is not
  passed by any caller; the model leaves the system alone.)
\<close>

definition ActorSystem_send ::
  "'q queue_lib \<Rightarrow> addr \<Rightarrow> 'q actor_system \<Rightarrow> bool \<times> 'q actor_system" where
  "ActorSystem_send Q a sys =
     (case store (as_heap sys) a of
        None \<Rightarrow> (False, sys)
      | Some envelope \<Rightarrow>
          (case as_actors sys (destination envelope) of
             None \<Rightarrow> (False, sys\<lparr>as_heap := free_ptr a (as_heap sys)\<rparr>)
           | Some ac \<Rightarrow>
               (case Mailbox_push Q a (as_heap sys, actor_mailbox ac) of
                  (ok, h', mb') \<Rightarrow>
                    (ok, sys\<lparr>as_heap := h',
                             as_actors := (as_actors sys)
                               (destination envelope \<mapsto> ac\<lparr>actor_mailbox := mb'\<rparr>)\<rparr>))))"

text \<open>The idiom of every sender: \<open>make_unique\<close>, fill in, \<open>send(std::move(...))\<close>.\<close>

definition post :: "'q queue_lib \<Rightarrow> ActorEnvelope \<Rightarrow> 'q actor_system \<Rightarrow> bool \<times> 'q actor_system" where
  "post Q e sys =
     (case make_unique e (as_heap sys) of
        (a, h) \<Rightarrow> ActorSystem_send Q a (sys\<lparr>as_heap := h\<rparr>))"

text \<open>\<open>actor->mailbox()->pop()\<close> for one registered actor.\<close>

definition take_envelope ::
  "'q queue_lib \<Rightarrow> ActorType \<Rightarrow> 'q actor_system \<Rightarrow> addr option \<times> 'q actor_system" where
  "take_envelope Q t sys =
     (case as_actors sys t of
        None \<Rightarrow> (None, sys)
      | Some ac \<Rightarrow>
          (case Mailbox_pop Q (as_heap sys, actor_mailbox ac) of
             (r, h', mb') \<Rightarrow>
               (r, sys\<lparr>as_heap := h',
                       as_actors := (as_actors sys)(t \<mapsto> ac\<lparr>actor_mailbox := mb'\<rparr>)\<rparr>)))"

text \<open>The \<open>unique_ptr\<close> of a handled envelope goes out of scope.\<close>

definition drop_envelope :: "addr \<Rightarrow> 'q actor_system \<Rightarrow> 'q actor_system" where
  "drop_envelope a sys = sys\<lparr>as_heap := free_ptr a (as_heap sys)\<rparr>"

definition ActorSystem_start :: "nat \<Rightarrow> 'q actor_system \<Rightarrow> 'q actor_system" where
  "ActorSystem_start workerThreads sys =
     (if as_running sys then sys
      else sys\<lparr>as_running := True, as_workers := as_workers sys + workerThreads\<rparr>)"

definition ActorSystem_stop :: "'q actor_system \<Rightarrow> 'q actor_system" where
  "ActorSystem_stop sys =
     (if \<not> as_running sys then sys else sys\<lparr>as_running := False, as_workers := 0\<rparr>)"

text \<open>
  The destructor stops the workers; then the map of actors is destroyed, in its iteration order
  \<open>ts\<close>, and each actor takes its mailbox with it. \<open>None\<close> is a destructor that does not return.
\<close>

fun destroy_actors :: "'q queue_lib \<Rightarrow> ActorType list \<Rightarrow> 'q actor_system \<Rightarrow> 'q actor_system option" where
  "destroy_actors Q [] sys = Some sys"
| "destroy_actors Q (t # ts) sys =
     (case as_actors sys t of
        None \<Rightarrow> destroy_actors Q ts sys
      | Some ac \<Rightarrow>
          (case Mailbox_destroy Q (as_heap sys, actor_mailbox ac) of
             None \<Rightarrow> None
           | Some (h', _) \<Rightarrow>
               destroy_actors Q ts (sys\<lparr>as_heap := h', as_actors := (as_actors sys)(t := None)\<rparr>)))"

definition ActorSystem_destroy ::
  "'q queue_lib \<Rightarrow> ActorType list \<Rightarrow> 'q actor_system \<Rightarrow> 'q actor_system option" where
  "ActorSystem_destroy Q ts sys = destroy_actors Q ts (ActorSystem_stop sys)"

section \<open>Abstract view and invariant\<close>

definition queued :: "('q \<Rightarrow> addr list) \<Rightarrow> 'q actor_system \<Rightarrow> ActorType \<Rightarrow> addr list" where
  "queued cont sys t =
     (case as_actors sys t of None \<Rightarrow> [] | Some ac \<Rightarrow> cont (mb_queue (actor_mailbox ac)))"

definition inbox :: "('q \<Rightarrow> addr list) \<Rightarrow> 'q actor_system \<Rightarrow> ActorType \<Rightarrow> ActorEnvelope list" where
  "inbox cont sys t = map (the \<circ> store (as_heap sys)) (queued cont sys t)"

text \<open>
  Ownership: every queued pointer is live and is queued once, in the mailbox of its own
  destination.
\<close>

definition sys_wf :: "('q \<Rightarrow> addr list) \<Rightarrow> 'q actor_system \<Rightarrow> bool" where
  "sys_wf cont sys \<longleftrightarrow>
     heap_ok (as_heap sys) \<and>
     (\<forall>t. distinct (queued cont sys t)) \<and>
     (\<forall>t. \<forall>a \<in> set (queued cont sys t).
        \<exists>e. store (as_heap sys) a = Some e \<and> destination e = t)"

text \<open>Nothing is allocated but what is queued.\<close>

definition no_garbage :: "('q \<Rightarrow> addr list) \<Rightarrow> 'q actor_system \<Rightarrow> bool" where
  "no_garbage cont sys \<longleftrightarrow> live (as_heap sys) = (\<Union>t. set (queued cont sys t))"

definition has_room ::
  "('q \<Rightarrow> addr list) \<Rightarrow> ('q \<Rightarrow> nat) \<Rightarrow> 'q actor_system \<Rightarrow> ActorType \<Rightarrow> bool" where
  "has_room cont nodes sys t \<longleftrightarrow>
     (\<exists>ac. as_actors sys t = Some ac \<and> mb_active (actor_mailbox ac) \<and>
        length (queued cont sys t) < nodes (mb_queue (actor_mailbox ac)))"

section \<open>Start and stop\<close>

interpretation actor_threads: lifecycle ActorSystem_start ActorSystem_stop as_running
  by unfold_locales (auto simp: ActorSystem_start_def ActorSystem_stop_def)

lemma workers_start: "\<not> as_running sys \<Longrightarrow> as_workers (ActorSystem_start n sys) = as_workers sys + n"
  by (simp add: ActorSystem_start_def)

section \<open>Sending refines appending\<close>

lemma sys_wf_new: "sys_wf cont ActorSystem_new"
  by (simp add: sys_wf_def ActorSystem_new_def heap_ok_empty queued_def)

lemma queued_register:
  "queued cont (ActorSystem_registerActor t ac sys) =
     (queued cont sys)(t := cont (mb_queue (actor_mailbox ac)))"
  by (auto simp: queued_def ActorSystem_registerActor_def)

lemma sys_wf_register:
  assumes "lockfree_queue Q cont nodes" and "sys_wf cont sys"
  shows "sys_wf cont (ActorSystem_registerActor t
           \<lparr>actor_kind = k, actor_mailbox = Mailbox_new Q n\<rparr> sys)"
  using assms unfolding sys_wf_def queued_register
  by (auto simp: Mailbox_new_def lockfree_new [OF assms(1)] ActorSystem_registerActor_def)

lemma store_make_unique: "store (snd (make_unique e h)) = (store h)(brk h \<mapsto> e)"
  by (simp add: make_unique_def)

lemma queued_live: "sys_wf cont sys \<Longrightarrow> a \<in> set (queued cont sys t) \<Longrightarrow> a \<in> live (as_heap sys)"
  by (force simp: sys_wf_def live_def)

lemma queued_fresh: "sys_wf cont sys \<Longrightarrow> brk (as_heap sys) \<notin> set (queued cont sys t)"
  by (metis queued_live fresh_not_live sys_wf_def)

lemma queued_unique:
  "sys_wf cont sys \<Longrightarrow> a \<in> set (queued cont sys t) \<Longrightarrow> a \<in> set (queued cont sys t') \<Longrightarrow> t = t'"
  unfolding sys_wf_def by (metis option.inject)

abbreviation new_addr :: "'q actor_system \<Rightarrow> addr" where
  "new_addr sys \<equiv> brk (as_heap sys)"

abbreviation new_heap :: "ActorEnvelope \<Rightarrow> 'q actor_system \<Rightarrow> ActorEnvelope heap" where
  "new_heap e sys \<equiv> snd (make_unique e (as_heap sys))"

lemma new_addr_none: "sys_wf cont sys \<Longrightarrow> store (as_heap sys) (new_addr sys) = None"
  using fresh_not_live [of "as_heap sys"] by (auto simp: sys_wf_def live_def)

lemma post_unregistered:
  "as_actors sys (destination e) = None \<Longrightarrow>
     post Q e sys = (False, sys\<lparr>as_heap := free_ptr (new_addr sys) (new_heap e sys)\<rparr>)"
  by (simp add: post_def ActorSystem_send_def make_unique_def)

lemma post_registered:
  assumes "as_actors sys (destination e) = Some ac"
    and "Mailbox_push Q (new_addr sys) (new_heap e sys, actor_mailbox ac) = (ok, h', mb')"
  shows "post Q e sys = (ok, sys\<lparr>as_heap := h', as_actors := (as_actors sys)
           (destination e \<mapsto> ac\<lparr>actor_mailbox := mb'\<rparr>)\<rparr>)"
  using assms by (simp add: post_def ActorSystem_send_def make_unique_def del: Mailbox_push.simps)

lemma post_cases:
  assumes "post Q e sys = (ok, sys')"
  obtains
    (unregistered) "as_actors sys (destination e) = None" "\<not> ok"
      "sys' = sys\<lparr>as_heap := free_ptr (new_addr sys) (new_heap e sys)\<rparr>"
  | (registered) ac h' mb' where "as_actors sys (destination e) = Some ac"
      "Mailbox_push Q (new_addr sys) (new_heap e sys, actor_mailbox ac) = (ok, h', mb')"
      "sys' = sys\<lparr>as_heap := h', as_actors := (as_actors sys)
                 (destination e \<mapsto> ac\<lparr>actor_mailbox := mb'\<rparr>)\<rparr>"
proof (cases "as_actors sys (destination e)")
  case None
  with assms show ?thesis using post_unregistered [OF None, of Q] by (intro unregistered) auto
next
  case (Some ac)
  obtain ok' h' mb' where
    m: "Mailbox_push Q (new_addr sys) (new_heap e sys, actor_mailbox ac) = (ok', h', mb')"
    by (metis prod_cases3)
  from post_registered [OF Some m] assms have "ok' = ok"
    "sys' = sys\<lparr>as_heap := h', as_actors := (as_actors sys)
                 (destination e \<mapsto> ac\<lparr>actor_mailbox := mb'\<rparr>)\<rparr>" by auto
  with Some m show ?thesis by (intro registered) simp_all
qed

lemma queued_post:
  assumes "lockfree_queue Q cont nodes" and "post Q e sys = (ok, sys')"
  shows "queued cont sys' t =
    (if ok \<and> t = destination e then queued cont sys t @ [new_addr sys] else queued cont sys t)"
  using assms(2)
proof (cases rule: post_cases)
  case unregistered
  then show ?thesis by (simp add: queued_def)
next
  case (registered ac h' mb')
  have "cont (mb_queue mb') = (if ok then cont (mb_queue (actor_mailbox ac)) @ [new_addr sys]
          else cont (mb_queue (actor_mailbox ac)))"
    using mbox.push_ok [OF assms(1) registered(2)] by (simp add: mailbox_contents_def)
  with registered(1,3) show ?thesis by (simp add: queued_def)
qed

lemma heap_Mailbox_push:
  "Mailbox_push Q a (h, mb) = (ok, h', mb') \<Longrightarrow> h' = (if mb_active mb then h else free_ptr a h)"
  by (auto split: if_splits prod.splits)

lemma heap_post:
  assumes "post Q e sys = (ok, sys')"
  shows "as_heap sys' = new_heap e sys \<or>
         (\<not> ok \<and> as_heap sys' = free_ptr (new_addr sys) (new_heap e sys))"
  using assms
proof (cases rule: post_cases)
  case unregistered
  then show ?thesis by simp
next
  case (registered ac h' mb')
  from heap_Mailbox_push [OF registered(2)] Mailbox_push_inactive [OF registered(2)]
  show ?thesis unfolding registered(3) by (cases "mb_active (actor_mailbox ac)") simp_all
qed

lemma store_post:
  assumes "sys_wf cont sys" and "post Q e sys = (ok, sys')"
  shows "a \<noteq> new_addr sys \<Longrightarrow> store (as_heap sys') a = store (as_heap sys) a"
    and "ok \<Longrightarrow> store (as_heap sys') (new_addr sys) = Some e"
    and "heap_ok (as_heap sys')"
proof -
  have "heap_ok (as_heap sys)" using assms(1) by (simp add: sys_wf_def)
  with heap_post [OF assms(2)] show "heap_ok (as_heap sys')"
    using heap_ok_make_unique heap_ok_free by metis
  show "a \<noteq> new_addr sys \<Longrightarrow> store (as_heap sys') a = store (as_heap sys) a"
    "ok \<Longrightarrow> store (as_heap sys') (new_addr sys) = Some e"
    using heap_post [OF assms(2)] by (auto simp: store_make_unique free_ptr_def)
qed

lemma frame_post:
  assumes "post Q e sys = (ok, sys')"
  shows "as_running sys' = as_running sys" and "as_workers sys' = as_workers sys"
    and "map_option actor_kind (as_actors sys' t) = map_option actor_kind (as_actors sys t)"
  using assms by (cases rule: post_cases; simp)+

lemma sys_wf_post [wf_intros]:
  assumes "lockfree_queue Q cont nodes" and "sys_wf cont sys" and "post Q e sys = (ok, sys')"
  shows "sys_wf cont sys'"
  unfolding sys_wf_def
proof (intro conjI allI ballI)
  show "heap_ok (as_heap sys')" by (rule store_post(3) [OF assms(2,3)])
  fix t
  show "distinct (queued cont sys' t)"
    using assms(2) queued_fresh [OF assms(2)]
    by (simp add: queued_post [OF assms(1,3)] sys_wf_def)
  fix a assume a: "a \<in> set (queued cont sys' t)"
  show "\<exists>e. store (as_heap sys') a = Some e \<and> destination e = t"
  proof (cases "a = new_addr sys")
    case True
    with a queued_fresh [OF assms(2), of t] store_post(2) [OF assms(2,3)] show ?thesis
      by (auto simp: queued_post [OF assms(1,3)] split: if_splits)
  next
    case False
    with a have "a \<in> set (queued cont sys t)"
      by (auto simp: queued_post [OF assms(1,3)] split: if_splits)
    with assms(2) store_post(1) [OF assms(2,3) False] show ?thesis by (auto simp: sys_wf_def)
  qed
qed

lemma inbox_post:
  assumes "lockfree_queue Q cont nodes" and "sys_wf cont sys" and "post Q e sys = (ok, sys')"
  shows "inbox cont sys' t = (if ok \<and> t = destination e then inbox cont sys t @ [e]
           else inbox cont sys t)"
proof -
  have "map (the \<circ> store (as_heap sys')) (queued cont sys t) = inbox cont sys t"
    unfolding inbox_def
  proof (rule map_cong [OF refl])
    fix a assume "a \<in> set (queued cont sys t)"
    with queued_fresh [OF assms(2), of t] have "a \<noteq> new_addr sys" by blast
    with store_post(1) [OF assms(2,3)]
    show "(the \<circ> store (as_heap sys')) a = (the \<circ> store (as_heap sys)) a" by simp
  qed
  then show ?thesis
    using store_post(2) [OF assms(2,3)] by (simp add: inbox_def queued_post [OF assms(1,3)])
qed

lemma post_accepted:
  assumes "lockfree_queue Q cont nodes" and "has_room cont nodes sys (destination e)"
    and "post Q e sys = (ok, sys')"
  shows ok
  using assms(3)
proof (cases rule: post_cases)
  case unregistered
  with assms(2) show ?thesis by (simp add: has_room_def)
next
  case (registered ac h' mb')
  obtain q' where "q_bounded_push Q (new_addr sys) (mb_queue (actor_mailbox ac)) = (ok, q')"
    using registered assms(2) by (auto simp: has_room_def split: prod.splits)
  with assms(1,2) registered(1) show ?thesis
    by (auto simp: has_room_def queued_def intro: lockfree_push_room)
qed

section \<open>Taking refines removing the first\<close>

lemma take_envelope_cases:
  assumes "take_envelope Q t sys = (r, sys')"
  obtains
    (unregistered) "as_actors sys t = None" "r = None" "sys' = sys"
  | (registered) ac mb' where "as_actors sys t = Some ac"
      "Mailbox_pop Q (as_heap sys, actor_mailbox ac) = (r, as_heap sys, mb')"
      "sys' = sys\<lparr>as_actors := (as_actors sys)(t \<mapsto> ac\<lparr>actor_mailbox := mb'\<rparr>)\<rparr>"
proof (cases "as_actors sys t")
  case None
  with assms show ?thesis by (intro unregistered) (simp_all add: take_envelope_def)
next
  case (Some ac)
  obtain r' h' mb' where m: "Mailbox_pop Q (as_heap sys, actor_mailbox ac) = (r', h', mb')"
    by (metis prod_cases3)
  moreover from live_Mailbox_pop [OF m] have "h' = as_heap sys" by simp
  ultimately show ?thesis
    using assms Some registered [of ac mb'] by (auto simp: take_envelope_def)
qed

lemma queued_take:
  assumes "lockfree_queue Q cont nodes" and "take_envelope Q t sys = (r, sys')"
  shows "case r of
      None \<Rightarrow> queued cont sys t = [] \<and> queued cont sys' = queued cont sys
    | Some a \<Rightarrow> queued cont sys t = a # queued cont sys' t \<and>
               (\<forall>t'. t' \<noteq> t \<longrightarrow> queued cont sys' t' = queued cont sys t')"
  using assms(2)
proof (cases rule: take_envelope_cases)
  case unregistered
  then show ?thesis by (simp add: queued_def)
next
  case (registered ac mb')
  from mbox.pop_ok [OF assms(1) registered(2)] registered(1,3) show ?thesis
    by (auto simp: mailbox_contents_def queued_def fun_eq_iff split: option.splits)
qed

lemma frame_take:
  assumes "take_envelope Q t sys = (r, sys')"
  shows "as_heap sys' = as_heap sys" and "as_running sys' = as_running sys"
    and "as_workers sys' = as_workers sys"
    and "map_option actor_kind (as_actors sys' t') = map_option actor_kind (as_actors sys t')"
  using assms by (cases rule: take_envelope_cases; simp)+

lemma take_queued_subset:
  assumes "lockfree_queue Q cont nodes" and "take_envelope Q t sys = (r, sys')"
  shows "queued cont sys t' = queued cont sys' t' \<or>
         (t' = t \<and> (\<exists>a. r = Some a \<and> queued cont sys t' = a # queued cont sys' t'))"
  using queued_take [OF assms] by (cases r; cases "t' = t") auto

lemma sys_wf_take [wf_intros]:
  assumes "lockfree_queue Q cont nodes" and "sys_wf cont sys"
    and "take_envelope Q t sys = (r, sys')"
  shows "sys_wf cont sys'"
  using assms(2) take_queued_subset [OF assms(1,3)] frame_take(1) [OF assms(3)]
  unfolding sys_wf_def by (metis distinct.simps(2) list.set_intros(2))

lemma take_Some:
  assumes "lockfree_queue Q cont nodes" and "sys_wf cont sys"
    and "take_envelope Q t sys = (Some a, sys')"
  shows "\<exists>e. store (as_heap sys') a = Some e \<and> destination e = t \<and>
           inbox cont sys t = e # inbox cont sys' t"
    and "t' \<noteq> t \<Longrightarrow> inbox cont sys' t' = inbox cont sys t'"
    and "\<forall>t'. a \<notin> set (queued cont sys' t')"
proof -
  note q = queued_take [OF assms(1,3)] and h = frame_take(1) [OF assms(3)]
  from q have "a \<in> set (queued cont sys t)" by simp
  with assms(2) obtain e where "store (as_heap sys) a = Some e" "destination e = t"
    unfolding sys_wf_def by blast
  with q h show "\<exists>e. store (as_heap sys') a = Some e \<and> destination e = t \<and>
           inbox cont sys t = e # inbox cont sys' t"
    by (simp add: inbox_def)
  show "t' \<noteq> t \<Longrightarrow> inbox cont sys' t' = inbox cont sys t'"
    using q h by (simp add: inbox_def)
  have "distinct (queued cont sys t)" using assms(2) by (simp add: sys_wf_def)
  with q have nt: "a \<notin> set (queued cont sys' t)" by simp
  show "\<forall>t'. a \<notin> set (queued cont sys' t')"
  proof
    fix t'
    show "a \<notin> set (queued cont sys' t')"
    proof (cases "t' = t")
      case False
      with q have "queued cont sys' t' = queued cont sys t'" by simp
      with False queued_unique [OF assms(2) \<open>a \<in> set (queued cont sys t)\<close>, of t'] show ?thesis
        by auto
    qed (simp add: nt)
  qed
qed

lemma take_None:
  assumes "lockfree_queue Q cont nodes" and "take_envelope Q t sys = (None, sys')"
  shows "inbox cont sys t = []" and "inbox cont sys' = inbox cont sys"
  using queued_take [OF assms] frame_take(1) [OF assms(2)]
  by (simp_all add: inbox_def fun_eq_iff)

lemma queued_drop [simp]: "queued cont (drop_envelope a sys) t = queued cont sys t"
  by (simp add: queued_def drop_envelope_def)

lemma sys_wf_drop [wf_intros]:
  assumes "sys_wf cont sys" and "\<forall>t. a \<notin> set (queued cont sys t)"
  shows "sys_wf cont (drop_envelope a sys)"
  using assms unfolding sys_wf_def queued_drop
  by (auto simp: drop_envelope_def free_ptr_def heap_ok_def live_def)

lemma inbox_drop:
  assumes "\<forall>t. a \<notin> set (queued cont sys t)"
  shows "inbox cont (drop_envelope a sys) t = inbox cont sys t"
  unfolding inbox_def queued_drop
  using assms by (intro map_cong) (auto simp: drop_envelope_def free_ptr_def)

lemma frame_drop [simp]:
  "as_running (drop_envelope a sys) = as_running sys"
  "as_workers (drop_envelope a sys) = as_workers sys"
  "as_actors (drop_envelope a sys) = as_actors sys"
  by (simp_all add: drop_envelope_def)

section \<open>Destruction frees what is queued\<close>

lemma destroy_actors_frees:
  assumes "lockfree_queue Q cont nodes"
  shows "\<exists>sys'. destroy_actors Q ts sys = Some sys' \<and>
    live (as_heap sys') = live (as_heap sys) - (\<Union>t \<in> set ts. set (queued cont sys t))"
proof (induction ts arbitrary: sys)
  case Nil
  then show ?case by simp
next
  case (Cons t ts)
  show ?case
  proof (cases "as_actors sys t")
    case None
    then have "queued cont sys t = []" by (simp add: queued_def)
    with None Cons.IH [of sys] show ?thesis by simp
  next
    case (Some ac)
    let ?q = "mb_queue (actor_mailbox ac)"
    from Mailbox_drain_frees [OF assms, of "as_heap sys" ?q] obtain h' q' where
      d: "Mailbox_drain Q (as_heap sys) ?q = Some (h', q')" "live h' = live (as_heap sys) - set (cont ?q)"
      by blast
    let ?sys = "sys\<lparr>as_heap := h', as_actors := (as_actors sys)(t := None)\<rparr>"
    have q: "queued cont ?sys = (queued cont sys)(t := [])" "queued cont sys t = cont ?q"
      using Some by (auto simp: queued_def)
    from Cons.IH [of ?sys] Some d q show ?thesis
      by (auto simp: Mailbox_destroy_def split: if_splits; metis)
  qed
qed

lemma queued_stop: "queued cont (ActorSystem_stop sys) t = queued cont sys t"
  and heap_stop: "as_heap (ActorSystem_stop sys) = as_heap sys"
  by (simp_all add: queued_def ActorSystem_stop_def)

text \<open>A registered, open mailbox keeps the new envelope allocated, whether it takes it or not.\<close>

definition all_active :: "'q actor_system \<Rightarrow> bool" where
  "all_active sys \<longleftrightarrow> (\<forall>t ac. as_actors sys t = Some ac \<longrightarrow> mb_active (actor_mailbox ac))"

lemma all_active_post: "all_active sys \<Longrightarrow> post Q e sys = (ok, sys') \<Longrightarrow> all_active sys'"
  by (erule post_cases) (auto simp: all_active_def simp del: Mailbox_push.simps dest!: live_Mailbox_push split: if_splits)

lemma all_active_take: "all_active sys \<Longrightarrow> take_envelope Q t sys = (r, sys') \<Longrightarrow> all_active sys'"
  by (erule take_envelope_cases) (auto simp: all_active_def simp del: Mailbox_pop.simps dest!: live_Mailbox_pop split: if_splits)

lemma live_post:
  assumes "all_active sys" and "as_actors sys (destination e) \<noteq> None" and "post Q e sys = (ok, sys')"
  shows "live (as_heap sys') = insert (new_addr sys) (live (as_heap sys))"
  using assms(3)
proof (cases rule: post_cases)
  case unregistered
  with assms(2) show ?thesis by simp
next
  case (registered ac h' mb')
  with assms(1) have "mb_active (actor_mailbox ac)" by (simp add: all_active_def)
  with registered show ?thesis
    using heap_Mailbox_push [OF registered(2)] by (simp add: live_make_unique)
qed

end
