(* ===== verification/Serial_Writer.thy ===== *)
theory Serial_Writer
  imports Prelude
begin

text \<open>
  The write side shared by the WebSocket session classes: \<open>send\<close> posts a handler to the
  session's strand; the handler appends to a queue and starts a write when none is under way;
  the completion of a write pops the queue and starts the next one. The interface is a locale,
  its consequences for any interleaving of these events are proved once.
\<close>

text \<open>Events of the write side: \<open>ODone ec\<close> is the completion of a write, \<open>ec\<close> its error flag.\<close>

datatype out_event = OSend string | ORun | ODone bool

text \<open>
  Runs a sequence of events and collects the messages whose write completed. \<open>None\<close>: an event
  that cannot happen in its state (no posted handler, no write outstanding).
\<close>

fun out_run ::
  "(string \<Rightarrow> 's \<Rightarrow> 's) \<Rightarrow> ('s \<Rightarrow> 's option) \<Rightarrow> (bool \<Rightarrow> 's \<Rightarrow> 's option) \<Rightarrow> ('s \<Rightarrow> string list)
     \<Rightarrow> out_event list \<Rightarrow> 's \<Rightarrow> (string list \<times> 's) option" where
  "out_run send run fin writes [] s = Some ([], s)"
| "out_run send run fin writes (OSend p # es) s = out_run send run fin writes es (send p s)"
| "out_run send run fin writes (ORun # es) s =
     (case run s of None \<Rightarrow> None | Some s' \<Rightarrow> out_run send run fin writes es s')"
| "out_run send run fin writes (ODone ec # es) s =
     (case fin ec s of
        None \<Rightarrow> None
      | Some s' \<Rightarrow>
          (case out_run send run fin writes es s' of
             None \<Rightarrow> None
           | Some (w, s'') \<Rightarrow> Some (if ec then w else hd (writes s) # w, s'')))"

fun sends :: "out_event list \<Rightarrow> string list" where
  "sends [] = []"
| "sends (OSend p # es) = p # sends es"
| "sends (_ # es) = sends es"

definition internal :: "out_event \<Rightarrow> bool" where
  "internal e \<longleftrightarrow> e = ORun \<or> e = ODone False"

locale serial_writer =
  fixes send :: "string \<Rightarrow> 's \<Rightarrow> 's"
    and run :: "'s \<Rightarrow> 's option"
    and fin :: "bool \<Rightarrow> 's \<Rightarrow> 's option"
    and posted :: "'s \<Rightarrow> string list"
    and queue :: "'s \<Rightarrow> string list"
    and writes :: "'s \<Rightarrow> string list"
  assumes send_view: "posted (send p s) = posted s @ [p]" "queue (send p s) = queue s"
      "writes (send p s) = writes s"
    and run_none: "posted s = [] \<Longrightarrow> run s = None"
    and run_view: "posted s = p # ps \<Longrightarrow> \<exists>s'. run s = Some s' \<and> posted s' = ps \<and>
      queue s' = queue s @ [p] \<and> writes s' = (if queue s = [] then writes s @ [p] else writes s)"
    and fin_none: "writes s = [] \<Longrightarrow> fin ec s = None"
    and fin_error: "writes s = x # ws \<Longrightarrow> \<exists>s'. fin True s = Some s' \<and> posted s' = posted s \<and>
      queue s' = queue s \<and> writes s' = ws"
    and fin_ok: "writes s = x # ws \<Longrightarrow> \<exists>s'. fin False s = Some s' \<and> posted s' = posted s \<and>
      queue s' = tl (queue s) \<and>
      writes s' = (if tl (queue s) = [] then ws else ws @ [hd (tl (queue s))])"
begin

abbreviation exec :: "out_event list \<Rightarrow> 's \<Rightarrow> (string list \<times> 's) option" where
  "exec \<equiv> out_run send run fin writes"

definition one_write :: "'s \<Rightarrow> bool" where
  "one_write s \<longleftrightarrow> writes s = [] \<or> (\<exists>x r. writes s = [x] \<and> queue s = x # r)"

text \<open>While no write has failed, a non-empty queue means its front is being written.\<close>

definition writing :: "'s \<Rightarrow> bool" where
  "writing s \<longleftrightarrow> (queue s = [] \<longrightarrow> writes s = []) \<and> (queue s \<noteq> [] \<longrightarrow> writes s = [hd (queue s)])"

lemma writing_one_write: "writing s \<Longrightarrow> one_write s"
  by (cases "queue s") (auto simp: writing_def one_write_def)

lemma run_cases:
  assumes "run s = Some s'"
  obtains p ps where "posted s = p # ps" "posted s' = ps" "queue s' = queue s @ [p]"
    "writes s' = (if queue s = [] then writes s @ [p] else writes s)"
proof (cases "posted s")
  case Nil
  with assms run_none show ?thesis by simp
next
  case (Cons p ps)
  with run_view [OF Cons] assms that show ?thesis by auto
qed

lemma fin_cases:
  assumes "fin ec s = Some s'"
  obtains x ws where "writes s = x # ws" "posted s' = posted s"
    "queue s' = (if ec then queue s else tl (queue s))"
    "writes s' = (if ec \<or> tl (queue s) = [] then ws else ws @ [hd (tl (queue s))])"
proof (cases "writes s")
  case Nil
  with assms fin_none show ?thesis by simp
next
  case (Cons x ws)
  with fin_error [OF Cons] fin_ok [OF Cons] assms that show ?thesis by (cases ec) auto
qed

lemma one_write_run: "one_write s \<Longrightarrow> run s = Some s' \<Longrightarrow> one_write s'"
  by (elim run_cases) (auto simp: one_write_def)

lemma one_write_fin: "one_write s \<Longrightarrow> fin ec s = Some s' \<Longrightarrow> one_write s'"
  by (elim fin_cases) (auto simp: one_write_def neq_Nil_conv split: if_splits)

lemma exec_order:
  assumes "exec es s = Some (wire, s')" and "one_write s"
  shows "one_write s' \<and> wire @ queue s' @ posted s' = queue s @ posted s @ sends es"
  using assms
proof (induction es arbitrary: s wire)
  case Nil
  then show ?case by simp
next
  case (Cons e es)
  show ?case
  proof (cases e)
    case (OSend p)
    with Cons.prems have "exec es (send p s) = Some (wire, s')" by simp
    moreover have "one_write (send p s)"
      using Cons.prems(2) by (simp add: one_write_def send_view)
    ultimately show ?thesis using Cons.IH OSend by (fastforce simp: send_view)
  next
    case ORun
    with Cons.prems obtain s1 where r: "run s = Some s1" and x: "exec es s1 = Some (wire, s')"
      by (auto split: option.splits)
    from Cons.IH [OF x one_write_run [OF Cons.prems(2) r]] r ORun show ?thesis
      by (elim run_cases) auto
  next
    case (ODone ec)
    with Cons.prems obtain s1 w where r: "fin ec s = Some s1" and x: "exec es s1 = Some (w, s')"
      and w: "wire = (if ec then w else hd (writes s) # w)"
      by (auto split: option.splits)
    from Cons.IH [OF x one_write_fin [OF Cons.prems(2) r]] r ODone w Cons.prems(2) show ?thesis
      by (elim fin_cases) (auto simp: one_write_def)
  qed
qed

lemma writing_run: "writing s \<Longrightarrow> run s = Some s' \<Longrightarrow> writing s'"
  by (elim run_cases) (auto simp: writing_def)

lemma writing_fin_ok: "writing s \<Longrightarrow> fin False s = Some s' \<Longrightarrow> writing s'"
  by (elim fin_cases) (auto simp: writing_def split: if_splits)

lemma exec_writing:
  assumes "exec es s = Some (wire, s')" and "writing s" and "ODone True \<notin> set es"
  shows "writing s'"
  using assms
proof (induction es arbitrary: s wire)
  case Nil
  then show ?case by simp
next
  case (Cons e es)
  show ?case
  proof (cases e)
    case (OSend p)
    have "writing (send p s)" using Cons.prems(2) by (simp add: writing_def send_view)
    with Cons OSend show ?thesis by auto
  next
    case ORun
    with Cons show ?thesis by (auto split: option.splits intro: writing_run)
  next
    case (ODone ec)
    with Cons show ?thesis by (auto split: option.splits intro: writing_fin_ok)
  qed
qed

lemma exec_append:
  "exec (es @ es') s = (case exec es s of None \<Rightarrow> None
     | Some (w, s') \<Rightarrow> map_option (\<lambda>(w', s''). (w @ w', s'')) (exec es' s'))"
proof (induction es arbitrary: s)
  case Nil
  then show ?case by (simp add: option.map_id)
next
  case (Cons e es)
  then show ?case
    by (cases e) (auto split: option.splits)
qed

text \<open>Without write errors everything sent can be flushed, in order.\<close>

lemma flush:
  assumes "writing s"
  shows "\<exists>es s'. (\<forall>e \<in> set es. internal e) \<and> exec es s = Some (queue s @ posted s, s') \<and>
           queue s' = [] \<and> posted s' = []"
  using assms
proof (induction "2 * length (posted s) + length (queue s)" arbitrary: s rule: less_induct)
  case less
  show ?case
  proof (cases "posted s")
    case (Cons p ps)
    then obtain s1 where r: "run s = Some s1" using run_view by blast
    then have v: "posted s1 = ps" "queue s1 = queue s @ [p]"
      using Cons by (auto elim: run_cases)
    with Cons less.hyps [of s1] writing_run [OF less.prems r] obtain es s' where
      "\<forall>e \<in> set es. internal e" "exec es s1 = Some (queue s1 @ posted s1, s')"
      "queue s' = []" "posted s' = []" by auto
    with r v Cons show ?thesis
      by (intro exI [of _ "ORun # es"] exI [of _ s']) (auto simp: internal_def)
  next
    case Nil
    show ?thesis
    proof (cases "queue s")
      case Nil
      with \<open>posted s = []\<close> show ?thesis by (intro exI [of _ "[]"] exI [of _ s]) simp
    next
      case (Cons x xs)
      with less.prems have w: "writes s = [x]" by (simp add: writing_def)
      then obtain s1 where r: "fin False s = Some s1" using fin_ok by blast
      then have v: "posted s1 = []" "queue s1 = xs"
        using Cons Nil by (auto elim: fin_cases)
      with Cons Nil less.hyps [of s1] writing_fin_ok [OF less.prems r] obtain es s' where
        "\<forall>e \<in> set es. internal e" "exec es s1 = Some (queue s1 @ posted s1, s')"
        "queue s' = []" "posted s' = []" by auto
      with r v Cons Nil w show ?thesis
        by (intro exI [of _ "ODone False # es"] exI [of _ s']) (auto simp: internal_def)
    qed
  qed
qed

text \<open>After a failed write the queue never drains: nothing is ever written again.\<close>

lemma stuck:
  assumes "exec es s = Some (wire, s')" and "queue s \<noteq> []" and "writes s = []"
  shows "wire = [] \<and> writes s' = [] \<and> queue s' \<noteq> []"
  using assms
proof (induction es arbitrary: s wire)
  case Nil
  then show ?case by simp
next
  case (Cons e es)
  show ?case
  proof (cases e)
    case (OSend p)
    with Cons show ?thesis by (simp add: send_view)
  next
    case ORun
    with Cons.prems obtain s1 where r: "run s = Some s1" and x: "exec es s1 = Some (wire, s')"
      by (auto split: option.splits)
    from r Cons.prems have "queue s1 \<noteq> []" "writes s1 = []" by (auto elim: run_cases)
    with Cons.IH [OF x] show ?thesis by blast
  next
    case (ODone ec)
    with Cons.prems fin_none show ?thesis by simp
  qed
qed

end

text \<open>
  Two serial writers with the same outbound state cannot be told apart: they can make the same
  events and write the same messages.
\<close>

locale serial_writer_pair =
  a: serial_writer send run fin posted queue writes + b: serial_writer send' run' fin' posted' queue' writes'
  for send :: "string \<Rightarrow> 's \<Rightarrow> 's" and run fin posted queue writes
    and send' :: "string \<Rightarrow> 't \<Rightarrow> 't" and run' fin' posted' queue' writes'
begin

definition same :: "'s \<Rightarrow> 't \<Rightarrow> bool" where
  "same s t \<longleftrightarrow> posted s = posted' t \<and> queue s = queue' t \<and> writes s = writes' t"

lemma same_send: "same s t \<Longrightarrow> same (send p s) (send' p t)"
  by (simp add: same_def a.send_view b.send_view)

lemma same_run: "same s t \<Longrightarrow> rel_option same (run s) (run' t)"
proof (cases "posted s")
  case Nil
  moreover assume "same s t"
  ultimately show ?thesis using a.run_none [of s] b.run_none [of t] by (simp add: same_def)
next
  case (Cons p ps)
  moreover assume "same s t"
  ultimately show ?thesis using a.run_view [of s p ps] b.run_view [of t p ps] by (auto simp: same_def)
qed

lemma same_fin: "same s t \<Longrightarrow> rel_option same (fin ec s) (fin' ec t)"
proof (cases "writes s")
  case Nil
  moreover assume "same s t"
  ultimately show ?thesis using a.fin_none [of s ec] b.fin_none [of t ec] by (simp add: same_def)
next
  case (Cons x ws)
  moreover assume "same s t"
  ultimately show ?thesis
    using a.fin_error [of s x ws] b.fin_error [of t x ws] a.fin_ok [of s x ws] b.fin_ok [of t x ws]
    by (cases ec) (auto simp: same_def)
qed

lemma same_exec:
  "same s t \<Longrightarrow> rel_option (\<lambda>(v, s') (v', t'). v = v' \<and> same s' t') (a.exec es s) (b.exec es t)"
proof (induction es arbitrary: s t)
  case Nil
  then show ?case by simp
next
  case (Cons e es)
  show ?case
  proof (cases e)
    case (OSend p)
    with Cons.IH [OF same_send [OF Cons.prems]] show ?thesis by simp
  next
    case ORun
    with same_run [OF Cons.prems] Cons.IH show ?thesis by (auto elim: option.rel_cases)
  next
    case (ODone ec)
    from same_fin [OF Cons.prems, of ec] show ?thesis
    proof (cases rule: option.rel_cases)
      case (Some s1 t1)
      from Cons.IH [OF Some(3)] Cons.prems Some ODone show ?thesis
        by (cases rule: option.rel_cases) (auto simp: same_def)
    qed (use ODone in simp)
  qed
qed

lemma same_wire: "same s t \<Longrightarrow> map_option fst (a.exec es s) = map_option fst (b.exec es t)"
  by (drule same_exec [of _ _ es]) (auto elim!: option.rel_cases)

end

end
