(* ===== verification/Ws_Session.thy ===== *)
theory Ws_Session
  imports Serial_Writer
begin

text \<open>
  \<open>infrastructure/network/websocket\<close>: one connection (\<open>WebSocketSession\<close>) and the acceptor that
  numbers connections (\<open>WebSocketListener\<close>). The socket, the strand and the completion of
  asynchronous operations belong to Boost; the model keeps the outstanding operations in the
  state and makes each completion handler one function. Handlers that call another component
  return the calls they make, in order, as \<open>ws_effect\<close> values.
\<close>

section \<open>WebSocketSession\<close>

record ws_session =
  ws_sessionId :: string
  ws_accepting :: bool              \<comment> \<open>\<open>async_accept\<close> outstanding\<close>
  ws_reading :: bool                \<comment> \<open>\<open>async_read\<close> outstanding\<close>
  ws_posted :: "string list"        \<comment> \<open>handlers posted to the strand by \<open>send\<close>, not run yet\<close>
  ws_writeQueue :: "string list"
  ws_writes :: "string list"        \<comment> \<open>buffers of the outstanding \<open>async_write\<close> calls\<close>

text \<open>Calls a handler makes on the session actor and the dispatcher.\<close>

datatype ws_effect =
    BindTransport string            \<comment> \<open>\<open>sessionActor_.bindTransport(sessionId_, weak_from_this())\<close>\<close>
  | UnbindTransport string          \<comment> \<open>\<open>sessionActor_.unbindTransport(sessionId_)\<close>\<close>
  | Dispatch string string          \<comment> \<open>\<open>dispatcher_.dispatch(sessionId_, raw)\<close>\<close>

definition WebSocketSession_new :: "string \<Rightarrow> ws_session" where
  "WebSocketSession_new sessionId =
     \<lparr>ws_sessionId = sessionId, ws_accepting = False, ws_reading = False, ws_posted = [],
      ws_writeQueue = [], ws_writes = []\<rparr>"

definition WebSocketSession_run :: "ws_session \<Rightarrow> ws_session" where
  "WebSocketSession_run s = s\<lparr>ws_accepting := True\<rparr>"

definition WebSocketSession_doRead :: "ws_session \<Rightarrow> ws_session" where
  "WebSocketSession_doRead s = s\<lparr>ws_reading := True\<rparr>"

definition WebSocketSession_onAccept :: "bool \<Rightarrow> ws_session \<Rightarrow> ws_session \<times> ws_effect list" where
  "WebSocketSession_onAccept ec s =
     (let s = s\<lparr>ws_accepting := False\<rparr> in
      if ec then (s, [])
      else (WebSocketSession_doRead s, [BindTransport (ws_sessionId s)]))"

text \<open>
  \<open>onRead\<close>: the frame \<open>raw\<close> has been copied out of the read buffer, which is then emptied.
\<close>

definition WebSocketSession_onRead ::
  "bool \<Rightarrow> string \<Rightarrow> ws_session \<Rightarrow> ws_session \<times> ws_effect list" where
  "WebSocketSession_onRead ec raw s =
     (let s = s\<lparr>ws_reading := False\<rparr> in
      if ec then (s, [UnbindTransport (ws_sessionId s)])
      else (WebSocketSession_doRead s, [Dispatch (ws_sessionId s) raw]))"

definition WebSocketSession_send :: "string \<Rightarrow> ws_session \<Rightarrow> ws_session" where
  "WebSocketSession_send payload s = s\<lparr>ws_posted := ws_posted s @ [payload]\<rparr>"

definition WebSocketSession_doWrite :: "ws_session \<Rightarrow> ws_session" where
  "WebSocketSession_doWrite s = s\<lparr>ws_writes := ws_writes s @ [hd (ws_writeQueue s)]\<rparr>"

text \<open>The body of the handler \<open>send\<close> posts, run by the strand in posting order.\<close>

definition WebSocketSession_posted :: "ws_session \<Rightarrow> ws_session option" where
  "WebSocketSession_posted s =
     (case ws_posted s of
        [] \<Rightarrow> None
      | payload # rest \<Rightarrow>
          (let writing = (ws_writeQueue s \<noteq> []);
               s' = s\<lparr>ws_posted := rest, ws_writeQueue := ws_writeQueue s @ [payload]\<rparr>
           in Some (if \<not> writing then WebSocketSession_doWrite s' else s')))"

definition WebSocketSession_onWrite ::
  "bool \<Rightarrow> ws_session \<Rightarrow> (ws_session \<times> ws_effect list) option" where
  "WebSocketSession_onWrite ec s =
     (case ws_writes s of
        [] \<Rightarrow> None
      | _ # rest \<Rightarrow>
          (let s = s\<lparr>ws_writes := rest\<rparr> in
           if ec then Some (s, [UnbindTransport (ws_sessionId s)])
           else (let s' = s\<lparr>ws_writeQueue := tl (ws_writeQueue s)\<rparr>
                 in Some (if ws_writeQueue s' \<noteq> [] then WebSocketSession_doWrite s' else s', []))))"

abbreviation ws_write_done :: "bool \<Rightarrow> ws_session \<Rightarrow> ws_session option" where
  "ws_write_done ec s \<equiv> map_option fst (WebSocketSession_onWrite ec s)"

section \<open>WebSocketListener\<close>

record ws_listener =
  wl_nextSessionId :: "64 word"

definition WebSocketListener_init :: ws_listener where
  "WebSocketListener_init = \<lparr>wl_nextSessionId = 0\<rparr>"

text \<open>
  The four calls on the acceptor, in order; each argument is the message of the error code
  the call reports, \<open>None\<close> when it succeeds.
\<close>

definition WebSocketListener_new ::
  "string option \<Rightarrow> string option \<Rightarrow> string option \<Rightarrow> string option \<Rightarrow> ws_listener result" where
  "WebSocketListener_new ec_open ec_option ec_bind ec_listen =
     (case ec_open of Some m \<Rightarrow> Inl (RuntimeError m) | None \<Rightarrow>
      case ec_option of Some m \<Rightarrow> Inl (RuntimeError m) | None \<Rightarrow>
      case ec_bind of Some m \<Rightarrow> Inl (RuntimeError m) | None \<Rightarrow>
      case ec_listen of Some m \<Rightarrow> Inl (RuntimeError m) | None \<Rightarrow>
        Inr WebSocketListener_init)"

text \<open>A new connection: the session that starts its handshake, and the listener afterwards.\<close>

definition WebSocketListener_onAccept ::
  "bool \<Rightarrow> ws_listener \<Rightarrow> ws_session option \<times> ws_listener" where
  "WebSocketListener_onAccept ec l =
     (if ec then (None, l)
      else let n = wl_nextSessionId l + 1
           in (Some (WebSocketSession_run (WebSocketSession_new (to_string (unat n)))),
               l\<lparr>wl_nextSessionId := n\<rparr>))"

fun ws_accepts :: "bool list \<Rightarrow> ws_listener \<Rightarrow> ws_session list \<times> ws_listener" where
  "ws_accepts [] l = ([], l)"
| "ws_accepts (ec # ecs) l =
     (case WebSocketListener_onAccept ec l of (r, l') \<Rightarrow>
      case ws_accepts ecs l' of (ss, l'') \<Rightarrow>
        ((case r of None \<Rightarrow> ss | Some s \<Rightarrow> s # ss), l''))"

section \<open>The write side is a serial writer\<close>

interpretation ws: serial_writer
  WebSocketSession_send WebSocketSession_posted ws_write_done ws_posted ws_writeQueue ws_writes
  by unfold_locales
    (auto simp: WebSocketSession_send_def WebSocketSession_posted_def
      WebSocketSession_onWrite_def WebSocketSession_doWrite_def Let_def)

lemma ws_new_writing: "ws.writing (WebSocketSession_new i)"
  by (simp add: ws.writing_def WebSocketSession_new_def)

section \<open>Session numbers\<close>

lemma ws_accepts_ids:
  assumes "ws_accepts ecs l = (ss, l')"
    and "unat (wl_nextSessionId l) + length ecs < 2 ^ 64"
  shows "map ws_sessionId ss =
     map to_string [Suc (unat (wl_nextSessionId l)) ..< Suc (unat (wl_nextSessionId l) + length ss)] \<and>
     length ss \<le> length ecs"
  using assms
proof (induction ecs arbitrary: l ss l')
  case Nil
  then show ?case by simp
next
  case (Cons ec ecs)
  obtain ss1 l1 where r: "ws_accepts ecs (snd (WebSocketListener_onAccept ec l)) = (ss1, l1)"
    by fastforce
  show ?case
  proof (cases ec)
    case True
    with Cons r show ?thesis by (fastforce simp: WebSocketListener_onAccept_def)
  next
    case False
    let ?l = "l\<lparr>wl_nextSessionId := wl_nextSessionId l + 1\<rparr>"
    have n: "unat (wl_nextSessionId l + 1) = Suc (unat (wl_nextSessionId l))"
      using Cons.prems(2) by (simp add: unat_word_ariths)
    have x: "ws_accepts ecs ?l = (ss1, l1)"
      using r False by (simp add: WebSocketListener_onAccept_def Let_def)
    have ss: "ss = WebSocketSession_run (WebSocketSession_new
                (to_string (unat (wl_nextSessionId l + 1)))) # ss1"
      using Cons.prems(1) False x by (simp add: WebSocketListener_onAccept_def Let_def)
    have "map ws_sessionId ss1 = map to_string
        [Suc (unat (wl_nextSessionId ?l)) ..< Suc (unat (wl_nextSessionId ?l) + length ss1)] \<and>
        length ss1 \<le> length ecs"
      using Cons.prems(2) n by (intro Cons.IH [OF x]) simp
    then show ?thesis
      by (simp add: ss n WebSocketSession_run_def WebSocketSession_new_def upt_conv_Cons del: upt_Suc)
  qed
qed

section \<open>Properties\<close>

text \<open>
  C7. Message order on a connection. Start from a fresh session and let \<open>send\<close> calls, posted
  handlers and write completions (with or without errors) interleave in any way: the messages
  whose write completed, followed by the write queue and by the posted messages, are exactly
  the messages sent, in order; and at most one \<open>async_write\<close> is outstanding, always for the
  front of the queue, as the WebSocket stream requires.
\<close>

theorem WebSocketSession_serial:
  assumes "out_run WebSocketSession_send WebSocketSession_posted ws_write_done ws_writes es
             (WebSocketSession_new i) = Some (wire, s)"
  shows "wire @ ws_writeQueue s @ ws_posted s = sends es \<and> length (ws_writes s) \<le> 1 \<and>
         (\<forall>x \<in> set (ws_writes s). ws_writeQueue s \<noteq> [] \<and> hd (ws_writeQueue s) = x)"
proof -
  have "ws.one_write s \<and> wire @ ws_writeQueue s @ ws_posted s = sends es"
    using ws.exec_order [OF assms ws.writing_one_write [OF ws_new_writing]]
    by (simp add: WebSocketSession_new_def)
  then show ?thesis by (auto simp: ws.one_write_def)
qed

theorem WebSocketSession_serial_witness:
  "\<exists>wire s. out_run WebSocketSession_send WebSocketSession_posted ws_write_done ws_writes
       [OSend ''a'', OSend ''b'', ORun, ORun, ODone False] (WebSocketSession_new ''1'') =
         Some (wire, s) \<and> wire = [''a''] \<and> wire @ ws_writeQueue s @ ws_posted s = [''a'', ''b'']"
proof -
  let ?es = "[OSend ''a'', OSend ''b'', ORun, ORun, ODone False]"
  let ?s = "(WebSocketSession_new ''1'')\<lparr>ws_writeQueue := [''b''], ws_writes := [''b'']\<rparr>"
  have r: "out_run WebSocketSession_send WebSocketSession_posted ws_write_done ws_writes ?es
       (WebSocketSession_new ''1'') = Some ([''a''], ?s)"
    by (simp add: WebSocketSession_new_def WebSocketSession_send_def WebSocketSession_posted_def
        WebSocketSession_onWrite_def WebSocketSession_doWrite_def)
  from WebSocketSession_serial [OF r] show ?thesis
    by (intro exI [of _ "[''a'']"] exI [of _ ?s]) (use r in simp)
qed

text \<open>
  No message is stuck. In every state of a connection whose writes all succeeded so far,
  running the posted handlers and completing writes successfully delivers everything that was
  sent and leaves the queues empty.
\<close>

theorem WebSocketSession_flushes:
  assumes "out_run WebSocketSession_send WebSocketSession_posted ws_write_done ws_writes es
             (WebSocketSession_new i) = Some (wire, s)"
    and "ODone True \<notin> set es"
  shows "\<exists>es' s'. (\<forall>e \<in> set es'. e = ORun \<or> e = ODone False) \<and>
    out_run WebSocketSession_send WebSocketSession_posted ws_write_done ws_writes (es @ es')
      (WebSocketSession_new i) = Some (sends es, s') \<and> ws_writeQueue s' = [] \<and> ws_posted s' = []"
proof -
  from ws.exec_writing [OF assms(1) ws_new_writing assms(2)] have "ws.writing s" .
  then obtain es' s' where e: "\<forall>e \<in> set es'. internal e"
    "out_run WebSocketSession_send WebSocketSession_posted ws_write_done ws_writes es' s =
       Some (ws_writeQueue s @ ws_posted s, s')" "ws_writeQueue s' = []" "ws_posted s' = []"
    using ws.flush by blast
  moreover have "wire @ ws_writeQueue s @ ws_posted s = sends es"
    using ws.exec_order [OF assms(1) ws.writing_one_write [OF ws_new_writing]]
    by (simp add: WebSocketSession_new_def)
  ultimately show ?thesis
    using assms(1) by (intro exI [of _ es'] exI [of _ s']) (auto simp: ws.exec_append internal_def)
qed

theorem WebSocketSession_flushes_witness:
  "\<exists>es' s'. out_run WebSocketSession_send WebSocketSession_posted ws_write_done ws_writes
      ([OSend ''a'', OSend ''b'', ORun] @ es') (WebSocketSession_new ''1'') =
        Some ([''a'', ''b''], s')"
proof -
  have r: "out_run WebSocketSession_send WebSocketSession_posted ws_write_done ws_writes
      [OSend ''a'', OSend ''b'', ORun] (WebSocketSession_new ''1'') =
    Some ([], (WebSocketSession_new ''1'')\<lparr>ws_posted := [''b''], ws_writeQueue := [''a''],
                 ws_writes := [''a'']\<rparr>)"
    by (simp add: WebSocketSession_new_def WebSocketSession_send_def WebSocketSession_posted_def
        WebSocketSession_doWrite_def)
  from WebSocketSession_flushes [OF r] show ?thesis by auto
qed

text \<open>
  A failed write silences a connection. Once a write completes with an error, no later
  event starts another write: whatever is sent afterwards stays in the queue, and nothing more
  reaches the peer.
\<close>

theorem WebSocketSession_write_error_final:
  assumes "WebSocketSession_onWrite True s = Some (s1, effs)" and "ws_writeQueue s \<noteq> []"
    and "length (ws_writes s) = 1"
    and "out_run WebSocketSession_send WebSocketSession_posted ws_write_done ws_writes es s1 =
           Some (wire, s')"
  shows "effs = [UnbindTransport (ws_sessionId s)] \<and> wire = [] \<and> ws_writes s' = []"
proof -
  have "ws_writes s1 = []" "ws_writeQueue s1 = ws_writeQueue s"
    "effs = [UnbindTransport (ws_sessionId s)]"
    using assms(1,3) by (auto simp: WebSocketSession_onWrite_def length_Suc_conv split: list.splits)
  with ws.stuck [OF assms(4)] assms(2) show ?thesis by simp
qed

theorem WebSocketSession_write_error_final_witness:
  "\<exists>s'. out_run WebSocketSession_send WebSocketSession_posted ws_write_done ws_writes
     [OSend ''b'', ORun] ((WebSocketSession_new ''1'')\<lparr>ws_writeQueue := [''a'']\<rparr>) = Some ([], s') \<and>
     ws_writes s' = []"
proof -
  let ?s = "(WebSocketSession_new ''1'')\<lparr>ws_writeQueue := [''a''], ws_writes := [''a'']\<rparr>"
  let ?s1 = "(WebSocketSession_new ''1'')\<lparr>ws_writeQueue := [''a'']\<rparr>"
  let ?s' = "(WebSocketSession_new ''1'')\<lparr>ws_writeQueue := [''a'', ''b'']\<rparr>"
  have w: "WebSocketSession_onWrite True ?s = Some (?s1, [UnbindTransport ''1''])"
    by (simp add: WebSocketSession_onWrite_def WebSocketSession_new_def)
  have r: "out_run WebSocketSession_send WebSocketSession_posted ws_write_done ws_writes
     [OSend ''b'', ORun] ?s1 = Some ([], ?s')"
    by (simp add: WebSocketSession_new_def WebSocketSession_send_def WebSocketSession_posted_def)
  from WebSocketSession_write_error_final [OF w _ _ r] r show ?thesis
    by (intro exI [of _ ?s']) simp
qed

text \<open>
  C24. Session numbers. For fewer than \<open>2^64\<close> accepted connections, in any mix with failed
  accepts, the session ids the listener hands out are the decimal numerals 1, 2, 3, ... and
  so pairwise distinct: no connection can take over the transport of another.
\<close>

theorem WebSocketListener_ids_distinct:
  assumes "ws_accepts ecs WebSocketListener_init = (ss, l)" and "length ecs < 2 ^ 64"
  shows "map ws_sessionId ss = map to_string [1 ..< Suc (length ss)] \<and>
         distinct (map ws_sessionId ss)"
proof -
  have "map ws_sessionId ss = map to_string [1 ..< Suc (length ss)]"
    using ws_accepts_ids [OF assms(1)] assms(2) by (simp add: WebSocketListener_init_def)
  moreover have "distinct (map to_string [1 ..< Suc (length ss)])"
    unfolding distinct_map by (simp add: inj_on_def)
  ultimately show ?thesis by metis
qed

theorem WebSocketListener_ids_distinct_witness:
  "map ws_sessionId (fst (ws_accepts [False, True, False] WebSocketListener_init)) =
     map to_string [1, 2]"
proof -
  obtain ss l where r: "ws_accepts [False, True, False] WebSocketListener_init = (ss, l)"
    by fastforce
  have "length ss = 2" using r by (auto simp: WebSocketListener_onAccept_def Let_def)
  with WebSocketListener_ids_distinct [OF r] r show ?thesis by (simp add: upt_conv_Cons)
qed

end
