(* ===== verification/Domain.thy ===== *)
theory Domain
  imports Json_Lib "HOL-Library.Multiset"
begin

text \<open>
  \<open>domain/\<close> and \<open>application/interfaces/\<close>: the entities and the repository ports. UUIDs are
  \<open>boost::uuids::uuid\<close>, sixteen bytes; their text conversions are library functions and so
  parameters (\<open>uuid_lib\<close>). A port is a record of operations on an abstract storage state, as
  the abstract classes of the sources are; calls to the random generator and the clock are
  arguments of the operations that make them.
\<close>

section \<open>UUIDs and time\<close>

type_synonym uuid = "128 word"
type_synonym time_point = int

record uuid_lib =
  uuid_to_string :: "uuid \<Rightarrow> string"
  string_generator :: "string \<Rightarrow> uuid result"

text \<open>
  Documented behaviour: the generator reads what \<open>to_string\<close> prints, and reports any other
  text it cannot read with a \<open>std::runtime_error\<close>.
\<close>

definition boost_uuid :: "uuid_lib \<Rightarrow> bool" where
  "boost_uuid U \<longleftrightarrow>
     (\<forall>u. string_generator U (uuid_to_string U u) = Inr u) \<and>
     (\<forall>s e. string_generator U s = Inl e \<longrightarrow> e = RuntimeError ''invalid uuid string'')"

text \<open>A concrete library: lower case hexadecimal numerals.\<close>

definition hex_uuid :: uuid_lib where
  "hex_uuid =
     \<lparr>uuid_to_string = (\<lambda>u. to_hex (unat u)),
      string_generator = (\<lambda>s. if to_hex (radix_value 16 s) = s
                              then Inr (of_nat (radix_value 16 s))
                              else Inl (RuntimeError ''invalid uuid string''))\<rparr>"

section \<open>Entities\<close>

record User =
  user_id :: uuid
  user_username :: string
  user_passwordHash :: string
  user_createdAt :: time_point

definition User_new :: "uuid \<Rightarrow> string \<Rightarrow> string \<Rightarrow> time_point \<Rightarrow> User" where
  "User_new i username passwordHash createdAt =
     \<lparr>user_id = i, user_username = username, user_passwordHash = passwordHash,
      user_createdAt = createdAt\<rparr>"

datatype ChatType = direct | group

text \<open>The enumerators' underlying \<open>std::uint8_t\<close> values.\<close>

primrec chat_type_code :: "ChatType \<Rightarrow> 8 word" where
  "chat_type_code direct = 0"
| "chat_type_code group = 1"

record Chat =
  chat_id :: uuid
  chat_type :: "8 word"              \<comment> \<open>the \<open>std::uint8_t\<close> stored in the enum\<close>
  chat_createdAt :: time_point

definition Chat_new :: "uuid \<Rightarrow> 8 word \<Rightarrow> time_point \<Rightarrow> Chat" where
  "Chat_new i type createdAt = \<lparr>chat_id = i, chat_type = type, chat_createdAt = createdAt\<rparr>"

record Message =
  msg_id :: uuid
  msg_chatId :: uuid
  msg_senderId :: uuid
  msg_content :: string
  msg_createdAt :: time_point

definition Message_new :: "uuid \<Rightarrow> uuid \<Rightarrow> uuid \<Rightarrow> string \<Rightarrow> time_point \<Rightarrow> Message" where
  "Message_new i chatId senderId content createdAt =
     \<lparr>msg_id = i, msg_chatId = chatId, msg_senderId = senderId, msg_content = content,
      msg_createdAt = createdAt\<rparr>"

section \<open>Repository ports\<close>

record 'd message_repository =
  mr_create :: "Message \<Rightarrow> 'd \<Rightarrow> bool result \<times> 'd"
  mr_getByChat :: "uuid \<Rightarrow> size_t \<Rightarrow> time_point \<Rightarrow> 'd \<Rightarrow> Message list result \<times> 'd"

record 'd user_repository =
  ur_findByUsername :: "string \<Rightarrow> time_point \<Rightarrow> 'd \<Rightarrow> User option result \<times> 'd"
  ur_create :: "User \<Rightarrow> 'd \<Rightarrow> bool result \<times> 'd"

record 'd chat_repository =
  cr_create :: "Chat \<Rightarrow> 'd \<Rightarrow> bool result \<times> 'd"
  cr_findById :: "uuid \<Rightarrow> time_point \<Rightarrow> 'd \<Rightarrow> Chat option result \<times> 'd"

text \<open>What is stored of a message: the creation time is the database's own.\<close>

type_synonym stored_message = "uuid \<times> uuid \<times> uuid \<times> string"

definition stored :: "Message \<Rightarrow> stored_message" where
  "stored m = (msg_id m, msg_chatId m, msg_senderId m, msg_content m)"

definition in_chat :: "uuid \<Rightarrow> stored_message \<Rightarrow> bool" where
  "in_chat c m \<longleftrightarrow> fst (snd m) = c"

lemma subseteq_same_size:
  assumes "A \<subseteq># B" and "size A = size B"
  shows "A = B"
proof -
  obtain C where C: "B = A + C" using assms(1) by (metis mset_subset_eq_exists_conv)
  with assms(2) have "C = {#}" by simp
  with C show ?thesis by simp
qed

text \<open>
  The contract of the message port. \<open>create\<close> adds the message when it returns true; when it
  throws, the message was added or not (a lost connection leaves a commit in doubt), but
  nothing else changed. A history holds stored messages of the chat asked for, each at most as
  often as it is stored: all of them, or \<open>limit\<close> of them if there are more.
\<close>

locale message_store =
  fixes create :: "Message \<Rightarrow> 'd \<Rightarrow> bool result \<times> 'd"
    and getByChat :: "uuid \<Rightarrow> size_t \<Rightarrow> time_point \<Rightarrow> 'd \<Rightarrow> Message list result \<times> 'd"
    and messages :: "'d \<Rightarrow> stored_message list"
    and invar :: "'d \<Rightarrow> bool"
  assumes create_adds: "invar d \<Longrightarrow> create m d = (r, d') \<Longrightarrow>
      invar d' \<and> messages d' \<in> {messages d, messages d @ [stored m]} \<and>
      (r = Inr True \<longrightarrow> messages d' = messages d @ [stored m])"
    and history: "invar d \<Longrightarrow> getByChat c n now d = (res, d') \<Longrightarrow>
      invar d' \<and> messages d' = messages d \<and>
      (\<forall>ms. res = Inr ms \<longrightarrow> length ms = min (unat n) (length (filter (in_chat c) (messages d))) \<and>
         mset (map stored ms) \<subseteq># mset (filter (in_chat c) (messages d)))"
begin

lemma history_member:
  assumes "invar d" and "getByChat c n now d = (Inr ms, d')" and "m \<in> set ms"
  shows "stored m \<in> set (filter (in_chat c) (messages d))"
proof -
  have "mset (map stored ms) \<subseteq># mset (filter (in_chat c) (messages d))"
    using history [OF assms(1,2)] by blast
  from mset_subset_eqD [OF this, of "stored m"] assms(3) show ?thesis by simp
qed

text \<open>A history that is shorter than the limit is complete.\<close>

lemma history_complete:
  assumes "invar d" and "getByChat c n now d = (Inr ms, d')"
    and "length (filter (in_chat c) (messages d)) \<le> unat n"
  shows "mset (map stored ms) = mset (filter (in_chat c) (messages d))"
proof -
  have "length ms = length (filter (in_chat c) (messages d))"
    and sub: "mset (map stored ms) \<subseteq># mset (filter (in_chat c) (messages d))"
    using history [OF assms(1,2)] assms(3) by auto
  then show ?thesis by (intro subseteq_same_size [OF sub]) (simp del: mset_filter mset_map)
qed

lemma create_only_adds:
  assumes "invar d" and "create m d = (r, d')"
  shows "\<exists>new. messages d' = messages d @ new \<and> length new \<le> 1 \<and> set new \<subseteq> {stored m}"
  using create_adds [OF assms] by auto

lemma history_after_create:
  assumes "invar d" and "create m d = (Inr True, d1)" and "getByChat (msg_chatId m) n now d1 = (Inr ms, d2)"
    and "n \<noteq> 0"
  shows "ms \<noteq> [] \<and> (\<forall>x \<in> set ms. stored x \<in> insert (stored m) (set (messages d)))"
proof -
  have m1: "messages d1 = messages d @ [stored m]" and i1: "invar d1"
    using create_adds [OF assms(1,2)] by auto
  have "in_chat (msg_chatId m) (stored m)" by (simp add: in_chat_def stored_def)
  with history [OF i1 assms(3)] m1 have "length ms = min (unat n) (Suc (length (filter (in_chat (msg_chatId m)) (messages d))))"
    by simp
  moreover have "0 < unat n" using assms(4) by (simp add: unat_gt_0)
  ultimately have "ms \<noteq> []" by (auto simp: min_def split: if_splits)
  moreover have "\<forall>x \<in> set ms. stored x \<in> set (messages d1)"
    using history_member [OF i1 assms(3)] by auto
  ultimately show ?thesis by (auto simp: m1)
qed

end

text \<open>A store whose \<open>create\<close> reports success whenever it returns.\<close>

locale reliable_message_store = message_store +
  assumes create_reports: "create m d = (Inr b, d') \<Longrightarrow> b"
begin

lemma create_returns:
  assumes "invar d" and "create m d = (Inr b, d')"
  shows "messages d' = messages d @ [stored m]"
  using create_adds [OF assms] create_reports [OF assms(2)] by simp

end

text \<open>A store whose histories are the newest messages of the chat, the newest first.\<close>

locale ordered_message_store = reliable_message_store +
  assumes newest: "invar d \<Longrightarrow> getByChat c n now d = (Inr ms, d') \<Longrightarrow>
      map stored ms = take (unat n) (rev (filter (in_chat c) (messages d)))"
begin

lemma history_begins:
  assumes "invar d" and "create m d = (Inr b, d1)" and "getByChat (msg_chatId m) n now d1 = (Inr ms, d2)"
    and "n \<noteq> 0"
  shows "\<exists>x xs. ms = x # xs \<and> stored x = stored m \<and>
    map stored xs = take (unat n - 1) (rev (filter (in_chat (msg_chatId m)) (messages d)))"
proof -
  have "messages d1 = messages d @ [stored m]" "invar d1"
    using create_returns [OF assms(1,2)] create_adds [OF assms(1,2)] by auto
  moreover have "in_chat (msg_chatId m) (stored m)" by (simp add: in_chat_def stored_def)
  moreover obtain k where "unat n = Suc k" using assms(4) by (metis not0_implies_Suc unat_eq_zero)
  ultimately show ?thesis using newest [OF _ assms(3)] by (simp add: Cons_eq_map_conv map_eq_Cons_conv)
qed

end

text \<open>
  The contract of the user port, with what is stored of a user. \<open>findByUsername\<close> answers from
  the stored users and changes nothing.
\<close>

type_synonym stored_user = "uuid \<times> string \<times> string"

definition stored_u :: "User \<Rightarrow> stored_user" where
  "stored_u u = (user_id u, user_username u, user_passwordHash u)"

abbreviation name_of :: "stored_user \<Rightarrow> string" where
  "name_of u \<equiv> fst (snd u)"

locale user_store =
  fixes findByUsername :: "string \<Rightarrow> time_point \<Rightarrow> 'd \<Rightarrow> User option result \<times> 'd"
    and create :: "User \<Rightarrow> 'd \<Rightarrow> bool result \<times> 'd"
    and users :: "'d \<Rightarrow> stored_user list"
    and invar :: "'d \<Rightarrow> bool"
  assumes create_adds: "invar d \<Longrightarrow> create u d = (r, d') \<Longrightarrow>
      invar d' \<and> users d' \<in> {users d, users d @ [stored_u u]} \<and>
      (r = Inr True \<longrightarrow> users d' = users d @ [stored_u u])"
    and find_user: "invar d \<Longrightarrow> findByUsername name now d = (res, d') \<Longrightarrow>
      invar d' \<and> users d' = users d \<and>
      (res = Inr None \<longrightarrow> name \<notin> set (map name_of (users d))) \<and>
      (\<forall>u. res = Inr (Some u) \<longrightarrow> user_username u = name \<and> stored_u u \<in> set (users d))"

text \<open>The contract of the chat port.\<close>

locale chat_store =
  fixes create :: "Chat \<Rightarrow> 'd \<Rightarrow> bool result \<times> 'd"
    and findById :: "uuid \<Rightarrow> time_point \<Rightarrow> 'd \<Rightarrow> Chat option result \<times> 'd"
    and chats :: "'d \<Rightarrow> (uuid \<times> 8 word) list"
    and invar :: "'d \<Rightarrow> bool"
  assumes create_adds: "invar d \<Longrightarrow> create c d = (r, d') \<Longrightarrow>
      invar d' \<and> chats d' \<in> {chats d, chats d @ [(chat_id c, chat_type c)]} \<and>
      (r = Inr True \<longrightarrow> chats d' = chats d @ [(chat_id c, chat_type c)])"
    and find_chat: "invar d \<Longrightarrow> findById i now d = (res, d') \<Longrightarrow>
      invar d' \<and> chats d' = chats d \<and>
      (res = Inr None \<longrightarrow> i \<notin> set (map fst (chats d))) \<and>
      (\<forall>c. res = Inr (Some c) \<longrightarrow> chat_id c = i \<and> (i, chat_type c) \<in> set (chats d))"
begin

lemma find_created:
  assumes "invar d" and "create c d = (Inr True, d1)" and "chat_id c \<notin> set (map fst (chats d))"
    and "findById (chat_id c) now d1 = (Inr r, d2)"
  shows "\<exists>c'. r = Some c' \<and> chat_id c' = chat_id c \<and> chat_type c' = chat_type c"
proof -
  have c1: "chats d1 = chats d @ [(chat_id c, chat_type c)]" and i1: "invar d1"
    using create_adds [OF assms(1,2)] by auto
  show ?thesis
  proof (cases r)
    case None
    with find_chat [OF i1 assms(4)] c1 show ?thesis by simp
  next
    case (Some c')
    with find_chat [OF i1 assms(4)] c1 have "chat_id c' = chat_id c"
      "(chat_id c, chat_type c') \<in> set (chats d) \<or> chat_type c' = chat_type c" by auto
    moreover have "(chat_id c, chat_type c') \<notin> set (chats d)" using assms(3) by force
    ultimately show ?thesis using Some by blast
  qed
qed

end

text \<open>A message store kept in memory, to evaluate the components on concrete inputs.\<close>

definition memory_repo :: "stored_message list message_repository" where
  "memory_repo =
     \<lparr>mr_create = (\<lambda>m d. (Inr True, d @ [stored m])),
      mr_getByChat = (\<lambda>c n now d.
        (Inr (map (\<lambda>(i, c, s, t). Message_new i c s t now)
                (take (unat n) (filter (\<lambda>(i, c', s, t). c' = c) d))), d))\<rparr>"

section \<open>Facts\<close>

lemma hex_uuid_ok: "boost_uuid hex_uuid"
  by (simp add: boost_uuid_def hex_uuid_def to_hex_value)

lemma hex_uuid_reject:
  "\<not> set s \<subseteq> set ''0123456789abcdef'' \<Longrightarrow>
     string_generator hex_uuid s = Inl (RuntimeError ''invalid uuid string'')"
  using radix_digits_set [of 16 "radix_value 16 s"] by (auto simp: hex_uuid_def to_hex_def)

lemma boost_uuid_roundtrip: "boost_uuid U \<Longrightarrow> string_generator U (uuid_to_string U u) = Inr u"
  by (simp add: boost_uuid_def)

end
