(* ===== verification/Actors.thy ===== *)
theory Actors
  imports Actor_System Ws_Session Domain
begin

text \<open>
  \<open>infrastructure/actors\<close> and the worker loop of \<open>core/actor/actor_system.cpp\<close>. Each handler is
  one function on the state it changes. For the interleaving semantics in \<open>Actor_Run\<close> a handler
  is also given as the list of atomic actions it performs; \<open>Actor_handle_actions\<close> shows that
  running this list is the handler.
\<close>

section \<open>The world the actors act on\<close>

text \<open>
  \<open>w_transports\<close> is \<open>SessionActor::transports_\<close>, a map to weak pointers; \<open>w_sessions\<close> holds the
  session objects that are still alive. \<open>'d\<close> is the state behind the message repository.
\<close>

record ('q, 'd) world =
  w_sys :: "'q actor_system"
  w_transports :: "string \<rightharpoonup> nat"
  w_sessions :: "nat \<rightharpoonup> ws_session"
  w_db :: 'd

record ('q, 'd) libs =
  lib_queue :: "'q queue_lib"
  lib_json :: json_lib
  lib_uuid :: uuid_lib
  lib_repo :: "'d message_repository"

section \<open>SessionActor\<close>

definition SessionActor_bindTransport :: "string \<Rightarrow> nat \<Rightarrow> (string \<rightharpoonup> nat) \<Rightarrow> (string \<rightharpoonup> nat)" where
  "SessionActor_bindTransport sessionId transport m = m(sessionId \<mapsto> transport)"

definition SessionActor_unbindTransport :: "string \<Rightarrow> (string \<rightharpoonup> nat) \<Rightarrow> (string \<rightharpoonup> nat)" where
  "SessionActor_unbindTransport sessionId m = m(sessionId := None)"

text \<open>\<open>transports_.find\<close> followed by \<open>lock()\<close> on the weak pointer.\<close>

definition SessionActor_find :: "(nat \<Rightarrow> bool) \<Rightarrow> (string \<rightharpoonup> nat) \<Rightarrow> string \<Rightarrow> nat option" where
  "SessionActor_find alive m sessionId =
     (case m sessionId of
        None \<Rightarrow> None
      | Some transport \<Rightarrow> if alive transport then Some transport else None)"

definition SessionActor_deliver ::
  "json_lib \<Rightarrow> SessionOutgoingEvent \<Rightarrow> ('q, 'd) world \<Rightarrow> unit result \<times> ('q, 'd) world" where
  "SessionActor_deliver J outgoing w =
     (case SessionActor_find (\<lambda>i. w_sessions w i \<noteq> None) (w_transports w) (so_sessionId outgoing) of
        None \<Rightarrow> (Inr (), w)
      | Some i \<Rightarrow>
          (case dump J (so_payload outgoing) of
             Inl e \<Rightarrow> (Inl e, w)
           | Inr text \<Rightarrow>
               (Inr (), w\<lparr>w_sessions := (w_sessions w)
                            (i := map_option (WebSocketSession_send text) (w_sessions w i))\<rparr>)))"

definition SessionActor_handle ::
  "json_lib \<Rightarrow> ActorEnvelope \<Rightarrow> ('q, 'd) world \<Rightarrow> unit result \<times> ('q, 'd) world" where
  "SessionActor_handle J envelope w =
     (case payload envelope of
        POutgoing outgoing \<Rightarrow> SessionActor_deliver J outgoing w
      | PAuth auth \<Rightarrow> (Inr (), w)   \<comment> \<open>logs only\<close>
      | _ \<Rightarrow> (Inr (), w))"

section \<open>ChatActor\<close>

definition chat_persist :: "SendMessageEvent \<Rightarrow> ActorEnvelope" where
  "chat_persist event =
     \<lparr>destination = storage,
      payload = PPersist \<lparr>pm_chatId = sm_chatId event, pm_senderId = sm_senderId event,
                          pm_content = sm_text event\<rparr>\<rparr>"

definition chat_echo :: "json_lib \<Rightarrow> SendMessageEvent \<Rightarrow> ActorEnvelope" where
  "chat_echo J event =
     \<lparr>destination = session,
      payload = POutgoing
        \<lparr>so_sessionId = sm_sessionId event,
         so_payload = init_list J
           [jpair J ''type'' (JString ''message_delivered''),
            jpair J ''chat_id'' (JString (sm_chatId event)),
            jpair J ''payload'' (init_list J [jpair J ''text'' (JString (sm_text event))])]\<rparr>\<rparr>"

definition chat_incoming :: "json_lib \<Rightarrow> SendMessageEvent \<Rightarrow> ActorEnvelope" where
  "chat_incoming J event =
     \<lparr>destination = session,
      payload = POutgoing
        \<lparr>so_sessionId = sm_recipientId event,
         so_payload = init_list J
           [jpair J ''type'' (JString ''incoming_message''),
            jpair J ''chat_id'' (JString (sm_chatId event)),
            jpair J ''payload'' (init_list J
              [jpair J ''text'' (JString (sm_text event)),
               jpair J ''from'' (JString (sm_senderId event))])]\<rparr>\<rparr>"

definition ChatActor_handle ::
  "'q queue_lib \<Rightarrow> json_lib \<Rightarrow> ActorEnvelope \<Rightarrow> 'q actor_system \<Rightarrow> 'q actor_system" where
  "ChatActor_handle Q J envelope sys =
     (case payload envelope of
        PSend event \<Rightarrow>
          (let sys1 = snd (post Q (chat_persist event) sys);
               sys2 = snd (post Q (chat_echo J event) sys1)
           in if sm_recipientId event \<noteq> [] then snd (post Q (chat_incoming J event) sys2) else sys2)
      | _ \<Rightarrow> sys)"

section \<open>MessageActor\<close>

definition message_forward :: "SendMessageEvent \<Rightarrow> ActorEnvelope" where
  "message_forward event = \<lparr>destination = chat, payload = PSend event\<rparr>"

definition MessageActor_handle ::
  "'q queue_lib \<Rightarrow> ActorEnvelope \<Rightarrow> 'q actor_system \<Rightarrow> 'q actor_system" where
  "MessageActor_handle Q envelope sys =
     (case payload envelope of
        PSend event \<Rightarrow> snd (post Q (message_forward event) sys)
      | PTyping typing \<Rightarrow> sys   \<comment> \<open>logs only\<close>
      | _ \<Rightarrow> sys)"

section \<open>StorageActor\<close>

text \<open>\<open>rid\<close> is the result of \<open>random_generator{}()\<close>, \<open>now\<close> of the clock.\<close>

definition StorageActor_store ::
  "uuid_lib \<Rightarrow> 'd message_repository \<Rightarrow> uuid \<Rightarrow> time_point \<Rightarrow> StoragePersistMessage \<Rightarrow> 'd
     \<Rightarrow> unit result \<times> 'd" where
  "StorageActor_store U R rid now persist d =
     (case string_generator U (pm_chatId persist) of
        Inl e \<Rightarrow> (Inl e, d)
      | Inr chatId \<Rightarrow>
          (case string_generator U (pm_senderId persist) of
             Inl e \<Rightarrow> (Inl e, d)
           | Inr senderId \<Rightarrow>
               (case mr_create R (Message_new rid chatId senderId (pm_content persist) now) d of
                  (Inl e, d') \<Rightarrow> (Inl e, d')
                | (Inr is_stored, d') \<Rightarrow> (Inr (), d'))))"

definition StorageActor_handle ::
  "uuid_lib \<Rightarrow> 'd message_repository \<Rightarrow> uuid \<Rightarrow> time_point \<Rightarrow> ActorEnvelope \<Rightarrow> 'd
     \<Rightarrow> unit result \<times> 'd" where
  "StorageActor_handle U R rid now envelope d =
     (case payload envelope of
        PPersist persist \<Rightarrow> StorageActor_store U R rid now persist d
      | _ \<Rightarrow> (Inr (), d))"

section \<open>Virtual dispatch and the worker loop\<close>

definition Actor_handle ::
  "('q, 'd) libs \<Rightarrow> uuid \<Rightarrow> time_point \<Rightarrow> actor_class \<Rightarrow> ActorEnvelope \<Rightarrow> ('q, 'd) world
     \<Rightarrow> unit result \<times> ('q, 'd) world" where
  "Actor_handle L rid now k envelope w =
     (case k of
        SessionActor \<Rightarrow> SessionActor_handle (lib_json L) envelope w
      | ChatActor \<Rightarrow>
          (Inr (), w\<lparr>w_sys := ChatActor_handle (lib_queue L) (lib_json L) envelope (w_sys w)\<rparr>)
      | MessageActor \<Rightarrow>
          (Inr (), w\<lparr>w_sys := MessageActor_handle (lib_queue L) envelope (w_sys w)\<rparr>)
      | StorageActor \<Rightarrow>
          (case StorageActor_handle (lib_uuid L) (lib_repo L) rid now envelope (w_db w) of
             (r, d') \<Rightarrow> (r, w\<lparr>w_db := d'\<rparr>)))"

text \<open>
  One turn of the inner loop: pop, handle, destroy the envelope. The boolean is \<open>processed\<close>.
  An exception leaves the thread function, which ends the program.
\<close>

definition worker_visit ::
  "('q, 'd) libs \<Rightarrow> uuid \<Rightarrow> time_point \<Rightarrow> ActorType \<Rightarrow> ('q, 'd) world
     \<Rightarrow> bool result \<times> ('q, 'd) world" where
  "worker_visit L rid now t w =
     (case take_envelope (lib_queue L) t (w_sys w) of
        (None, sys') \<Rightarrow> (Inr False, w\<lparr>w_sys := sys'\<rparr>)
      | (Some a, sys') \<Rightarrow>
          (case (store (as_heap sys') a, as_actors sys' t) of
             (Some envelope, Some ac) \<Rightarrow>
               (case Actor_handle L rid now (actor_kind ac) envelope (w\<lparr>w_sys := sys'\<rparr>) of
                  (Inl e, w') \<Rightarrow> (Inl e, w')
                | (Inr _, w') \<Rightarrow> (Inr True, w'\<lparr>w_sys := drop_envelope a (w_sys w')\<rparr>))
           | _ \<Rightarrow> (Inr False, w\<lparr>w_sys := sys'\<rparr>)))"

text \<open>
  The \<open>for\<close> loop over the actors, in the iteration order \<open>ts\<close> of the hash map; each visit has
  its own random id and time.
\<close>

fun worker_pass ::
  "('q, 'd) libs \<Rightarrow> (ActorType \<times> uuid \<times> time_point) list \<Rightarrow> ('q, 'd) world
     \<Rightarrow> bool result \<times> ('q, 'd) world" where
  "worker_pass L [] w = (Inr False, w)"
| "worker_pass L ((t, rid, now) # ts) w =
     (case worker_visit L rid now t w of
        (Inl e, w') \<Rightarrow> (Inl e, w')
      | (Inr p, w') \<Rightarrow>
          (case worker_pass L ts w' of
             (Inl e, w'') \<Rightarrow> (Inl e, w'')
           | (Inr p', w'') \<Rightarrow> (Inr (p \<or> p'), w'')))"

text \<open>
  The \<open>while\<close> loop: one list of visits per iteration. \<open>Inr\<close> is the loop leaving because
  \<open>running_\<close> is false or the given iterations are used up.
\<close>

fun workerLoop ::
  "('q, 'd) libs \<Rightarrow> (ActorType \<times> uuid \<times> time_point) list list \<Rightarrow> ('q, 'd) world
     \<Rightarrow> unit result \<times> ('q, 'd) world" where
  "workerLoop L [] w = (Inr (), w)"
| "workerLoop L (p # ps) w =
     (if \<not> as_running (w_sys w) then (Inr (), w)
      else case worker_pass L p w of
             (Inl e, w') \<Rightarrow> (Inl e, w')
           | (Inr _, w') \<Rightarrow> workerLoop L ps w')"

section \<open>Handlers as atomic actions\<close>

datatype act =
    APost ActorEnvelope
  | ADeliver SessionOutgoingEvent
  | APersist StoragePersistMessage

definition chat_acts :: "json_lib \<Rightarrow> SendMessageEvent \<Rightarrow> act list" where
  "chat_acts J event =
     [APost (chat_persist event), APost (chat_echo J event)] @
     (if sm_recipientId event \<noteq> [] then [APost (chat_incoming J event)] else [])"

fun handler_acts :: "json_lib \<Rightarrow> actor_class \<Rightarrow> ActorPayload \<Rightarrow> act list" where
  "handler_acts J SessionActor (POutgoing out) = [ADeliver out]"
| "handler_acts J ChatActor (PSend event) = chat_acts J event"
| "handler_acts J MessageActor (PSend event) = [APost (message_forward event)]"
| "handler_acts J StorageActor (PPersist persist) = [APersist persist]"
| "handler_acts J _ _ = []"

fun exec_act ::
  "('q, 'd) libs \<Rightarrow> uuid \<Rightarrow> time_point \<Rightarrow> act \<Rightarrow> ('q, 'd) world \<Rightarrow> unit result \<times> ('q, 'd) world" where
  "exec_act L rid now (APost e) w = (Inr (), w\<lparr>w_sys := snd (post (lib_queue L) e (w_sys w))\<rparr>)"
| "exec_act L rid now (ADeliver out) w = SessionActor_deliver (lib_json L) out w"
| "exec_act L rid now (APersist p) w =
     (case StorageActor_store (lib_uuid L) (lib_repo L) rid now p (w_db w) of
        (r, d') \<Rightarrow> (r, w\<lparr>w_db := d'\<rparr>))"

fun run_acts ::
  "('q, 'd) libs \<Rightarrow> uuid \<Rightarrow> time_point \<Rightarrow> act list \<Rightarrow> ('q, 'd) world
     \<Rightarrow> unit result \<times> ('q, 'd) world" where
  "run_acts L rid now [] w = (Inr (), w)"
| "run_acts L rid now (x # xs) w =
     (case exec_act L rid now x w of
        (Inl e, w') \<Rightarrow> (Inl e, w')
      | (Inr _, w') \<Rightarrow> run_acts L rid now xs w')"

lemma Actor_handle_actions:
  "Actor_handle L rid now k envelope w =
     run_acts L rid now (handler_acts (lib_json L) k (payload envelope)) w"
  by (cases k; cases "payload envelope")
    (auto simp: Actor_handle_def SessionActor_handle_def ChatActor_handle_def
      MessageActor_handle_def StorageActor_handle_def chat_acts_def Let_def
      split: sum.splits prod.splits)

section \<open>The transport table is a weak registry\<close>

interpretation transports: weak_registry
  SessionActor_bindTransport SessionActor_unbindTransport SessionActor_find
  by unfold_locales
    (auto simp: SessionActor_bindTransport_def SessionActor_unbindTransport_def SessionActor_find_def)

end
