(* ===== verification/Dispatcher.thy ===== *)
theory Dispatcher
  imports Actors
begin

text \<open>
  \<open>infrastructure/dispatcher/message_dispatcher.{hpp,cpp}\<close>: from the text of a WebSocket frame to
  an envelope for the session or the message actor. The JSON library's exceptions are not
  caught here, so they are results of the function.
\<close>

section \<open>MessageDispatcher\<close>

text \<open>The envelope a frame is turned into; \<open>Inr None\<close> is a frame that is dropped.\<close>

definition dispatch_event :: "json_lib \<Rightarrow> string \<Rightarrow> string \<Rightarrow> ActorEnvelope option result" where
  "dispatch_event J sessionId rawMessage =
     (let json = parse_noexcept J rawMessage in
      if \<not> is_object J json then Inr None
      else rbind (value_str J json ''type'' '''') (\<lambda>type.
        if type = ''auth'' then
          rbind (value_str J json ''user_id'' '''') (\<lambda>userId.
            Inr (Some \<lparr>destination = session,
                       payload = PAuth \<lparr>auth_sessionId = sessionId, auth_userId = userId\<rparr>\<rparr>))
        else if type = ''send_message'' then
          rbind (value_json J json ''payload'' (JObject [])) (\<lambda>pl.
          rbind (value_str J json ''chat_id'' '''') (\<lambda>chatId.
          rbind (value_str J json ''sender_id'' '''') (\<lambda>senderId.
          rbind (value_str J json ''recipient_session_id'' '''') (\<lambda>recipientId.
          rbind (value_str J pl ''text'' '''') (\<lambda>text.
            Inr (Some \<lparr>destination = message,
                       payload = PSend \<lparr>sm_sessionId = sessionId, sm_chatId = chatId,
                                        sm_senderId = senderId, sm_recipientId = recipientId,
                                        sm_text = text\<rparr>\<rparr>))))))
        else if type = ''typing'' then
          rbind (value_str J json ''chat_id'' '''') (\<lambda>chatId.
          rbind (value_str J json ''user_id'' '''') (\<lambda>userId.
            Inr (Some \<lparr>destination = message,
                       payload = PTyping \<lparr>ty_chatId = chatId, ty_userId = userId\<rparr>\<rparr>)))
        else if type = ''message_read'' then
          rbind (value_str J json ''chat_id'' '''') (\<lambda>chatId.
          rbind (value_str J json ''user_id'' '''') (\<lambda>userId.
          rbind (value_str J json ''message_id'' '''') (\<lambda>messageId.
            Inr (Some \<lparr>destination = message,
                       payload = PRead \<lparr>rd_chatId = chatId, rd_userId = userId,
                                        rd_messageId = messageId\<rparr>\<rparr>))))
        else Inr None))"

definition MessageDispatcher_dispatch ::
  "'q queue_lib \<Rightarrow> json_lib \<Rightarrow> string \<Rightarrow> string \<Rightarrow> 'q actor_system \<Rightarrow> unit result \<times> 'q actor_system" where
  "MessageDispatcher_dispatch Q J sessionId rawMessage sys =
     (case dispatch_event J sessionId rawMessage of
        Inl e \<Rightarrow> (Inl e, sys)
      | Inr None \<Rightarrow> (Inr (), sys)
      | Inr (Some envelope) \<Rightarrow> (Inr (), snd (post Q envelope sys)))"

section \<open>Lemmas\<close>

text \<open>What an envelope of the dispatcher can look like.\<close>

definition client_envelope :: "string \<Rightarrow> ActorEnvelope \<Rightarrow> bool" where
  "client_envelope sessionId e \<longleftrightarrow>
     (case payload e of
        PAuth a \<Rightarrow> destination e = session \<and> auth_sessionId a = sessionId
      | PSend m \<Rightarrow> destination e = message \<and> sm_sessionId m = sessionId
      | PTyping _ \<Rightarrow> destination e = message
      | PRead _ \<Rightarrow> destination e = message
      | _ \<Rightarrow> False)"

lemma dispatch_client_envelope:
  "dispatch_event J sessionId raw = Inr (Some e) \<Longrightarrow> client_envelope sessionId e"
  by (auto simp: dispatch_event_def client_envelope_def Let_def rbind_eq_Inr split: if_splits)

lemma value_str_obj:
  "nlohmann_json J \<Longrightarrow> value_str J (JObject kvs) k d =
     (case map_of kvs k of
        None \<Rightarrow> Inr d | Some (JString s) \<Rightarrow> Inr s | Some _ \<Rightarrow> Inl (JsonTypeError 302))"
  by (simp add: nlohmann_json_def value_str_spec_def)

lemma value_str_error:
  "nlohmann_json J \<Longrightarrow> value_str J j k d = Inl e \<Longrightarrow> e = JsonTypeError 302 \<or> e = JsonTypeError 306"
  by (auto simp: nlohmann_json_def value_str_spec_def split: json.splits option.splits)

lemma value_json_obj:
  "nlohmann_json J \<Longrightarrow> value_json J (JObject kvs) k d =
     (case map_of kvs k of None \<Rightarrow> Inr d | Some v \<Rightarrow> Inr v)"
  by (simp add: nlohmann_json_def value_json_spec_def)

lemma is_object_obj: "nlohmann_json J \<Longrightarrow> is_object J j \<longleftrightarrow> (\<exists>kvs. j = JObject kvs)"
  by (simp add: nlohmann_json_def)

lemmas json_access = value_str_obj value_json_obj is_object_obj

section \<open>Properties\<close>

text \<open>
  A well-formed \<open>send_message\<close> frame becomes exactly one \<open>SendMessageEvent\<close> for the message
  actor, with the connection's own session id and every field copied from the JSON text
  (absent members read as the empty string).
\<close>

theorem dispatch_send_message:
  assumes "nlohmann_json J" and "parse_noexcept J raw = JObject kvs"
    and "map_of kvs ''type'' = Some (JString ''send_message'')"
    and "map_of kvs ''chat_id'' = Some (JString c)"
    and "map_of kvs ''sender_id'' = Some (JString u)"
    and "map_of kvs ''recipient_session_id'' \<in> {None, Some (JString r)}"
    and "map_of kvs ''payload'' = Some (JObject pl)" and "map_of pl ''text'' = Some (JString t)"
  shows "dispatch_event J sid raw = Inr (Some \<lparr>destination = message,
           payload = PSend \<lparr>sm_sessionId = sid, sm_chatId = c, sm_senderId = u,
             sm_recipientId = (if map_of kvs ''recipient_session_id'' = None then [] else r),
             sm_text = t\<rparr>\<rparr>)"
  using assms(2-) by (auto simp: dispatch_event_def json_access [OF assms(1)])

theorem dispatch_send_message_witness:
  "let kvs = [(''chat_id'', JString ''1''), (''payload'', JObject [(''text'', JString ''hi'')]),
              (''sender_id'', JString ''2''), (''type'', JString ''send_message'')]
   in dispatch_event (table_json [(''frame'', JObject kvs)]) ''7'' ''frame'' =
      Inr (Some \<lparr>destination = message,
           payload = PSend \<lparr>sm_sessionId = ''7'', sm_chatId = ''1'', sm_senderId = ''2'',
                            sm_recipientId = [], sm_text = ''hi''\<rparr>\<rparr>)"
proof -
  let ?kvs = "[(''chat_id'', JString ''1''), (''payload'', JObject [(''text'', JString ''hi'')]),
              (''sender_id'', JString ''2''), (''type'', JString ''send_message'')]"
  have "parse_noexcept (table_json [(''frame'', JObject ?kvs)]) ''frame'' = JObject ?kvs"
    by (simp add: table_json_def)
  from dispatch_send_message [OF table_json_ok this, of "''1''" "''2''" "[]"
      "[(''text'', JString ''hi'')]" "''hi''" "''7''"]
  show ?thesis by simp
qed

text \<open>
  Everything the dispatcher emits is addressed consistently: authentication goes to the
  session actor, the other three events to the message actor, and the session id in an event is
  the one of the connection the frame came from, whatever the client wrote into the frame.
\<close>

lemma dispatch_addresses:
  assumes "dispatch_event J sid raw = Inr (Some e)"
  shows "(destination e = session \<and> (\<exists>a. payload e = PAuth a \<and> auth_sessionId a = sid)) \<or>
         (destination e = message \<and>
          ((\<exists>m. payload e = PSend m \<and> sm_sessionId m = sid) \<or>
           (\<exists>t. payload e = PTyping t) \<or> (\<exists>r. payload e = PRead r)))"
  using dispatch_client_envelope [OF assms]
  by (cases "payload e") (auto simp: client_envelope_def)

text \<open>
  C25. The dispatcher throws on some frames and nobody catches it. For a frame that parses to
  an object: if its \<open>type\<close> member is not a string the JSON library's \<open>type_error.302\<close> leaves
  \<open>dispatch\<close>; a frame that is no object, or whose type is none of the four known ones (\<open>ping\<close>
  among them), is dropped without an answer.
\<close>

theorem dispatch_bad_frames:
  assumes "nlohmann_json J"
  shows "((\<nexists>kvs. parse_noexcept J raw = JObject kvs) \<longrightarrow>
       MessageDispatcher_dispatch Q J sid raw sys = (Inr (), sys)) \<and>
    (parse_noexcept J raw = JObject kvs \<longrightarrow>
       map_of kvs ''type'' = Some v \<longrightarrow> (\<nexists>s. v = JString s) \<longrightarrow>
       MessageDispatcher_dispatch Q J sid raw sys = (Inl (JsonTypeError 302), sys)) \<and>
    (parse_noexcept J raw = JObject kvs \<longrightarrow>
       map_of kvs ''type'' = Some (JString t) \<longrightarrow>
       t \<notin> {''auth'', ''send_message'', ''typing'', ''message_read''} \<longrightarrow>
       MessageDispatcher_dispatch Q J sid raw sys = (Inr (), sys))"
  by (auto simp: dispatch_event_def MessageDispatcher_dispatch_def json_access [OF assms] Let_def
      split: json.splits)

theorem dispatch_bad_frames_witness:
  "let J = table_json [(''bad'', JObject [(''type'', JInt 1)]), (''ping'', JObject [(''type'', JString ''ping'')])]
   in MessageDispatcher_dispatch list_queue J ''1'' ''garbage'' ActorSystem_new = (Inr (), ActorSystem_new) \<and>
      MessageDispatcher_dispatch list_queue J ''1'' ''bad'' ActorSystem_new =
        (Inl (JsonTypeError 302), ActorSystem_new) \<and>
      MessageDispatcher_dispatch list_queue J ''1'' ''ping'' ActorSystem_new = (Inr (), ActorSystem_new)"
proof -
  let ?J = "table_json [(''bad'', JObject [(''type'', JInt 1)]), (''ping'', JObject [(''type'', JString ''ping'')])]"
  have p: "parse_noexcept ?J ''garbage'' = JDiscarded"
    "parse_noexcept ?J ''bad'' = JObject [(''type'', JInt 1)]"
    "parse_noexcept ?J ''ping'' = JObject [(''type'', JString ''ping'')]"
    by (simp_all add: table_json_def)
  note d = dispatch_bad_frames [OF table_json_ok, of _ _ list_queue "''1''" ActorSystem_new]
  show ?thesis
    using d [of _ "''garbage''"] d [of _ "''bad''" "[(''type'', JInt 1)]" "JInt 1"]
      d [of _ "''ping''" "[(''type'', JString ''ping'')]" _ "''ping''"]
    by (simp add: p Let_def)
qed

end
