(* ===== verification/Actor_Run.thy ===== *)
theory Actor_Run
  imports Dispatcher "HOL-Library.Multiset"
begin

text \<open>
  The actor runtime as a whole: several worker threads run \<open>ActorSystem::workerLoop\<close> while network
  threads dispatch frames and WebSocket sessions come and go. A step is one atomic action: a
  mailbox pop, one action of a handler (a \<open>send\<close>, a delivery, a database call), the end of a
  handler, one dispatched frame, a change on the transport side, or a history read by an HTTP
  request on a network thread. Steps of different threads interleave freely. Lists of accepted, lost and completed work are kept to state what the
  runtime guarantees.
\<close>

section \<open>Configurations\<close>

text \<open>Externally visible results of the pipeline.\<close>

datatype effect = Persisted StoragePersistMessage | Handed SessionOutgoingEvent

record ('q, 'd) config =
  c_world :: "('q, 'd) world"
  c_busy :: "(addr \<times> act list) option list"  \<comment> \<open>per worker: the envelope it holds, actions left\<close>
  c_crashed :: "exn option"                    \<comment> \<open>exception that left a thread function\<close>
  c_accepted :: "ActorEnvelope list"           \<comment> \<open>envelopes of the dispatcher a mailbox took\<close>
  c_refused :: "ActorEnvelope list"            \<comment> \<open>envelopes of the dispatcher no mailbox took\<close>
  c_lost :: "ActorEnvelope list"               \<comment> \<open>envelopes of handlers no mailbox took\<close>
  c_done :: "effect list"

abbreviation c_sys :: "('q, 'd) config \<Rightarrow> 'q actor_system" where
  "c_sys c \<equiv> w_sys (c_world c)"

fun act_effect :: "act \<Rightarrow> effect list" where
  "act_effect (APost _) = []"
| "act_effect (ADeliver out) = [Handed out]"
| "act_effect (APersist p) = [Persisted p]"

fun act_lost :: "'q queue_lib \<Rightarrow> act \<Rightarrow> 'q actor_system \<Rightarrow> ActorEnvelope list" where
  "act_lost Q (APost e) sys = (if fst (post Q e sys) then [] else [e])"
| "act_lost Q _ sys = []"

section \<open>Steps\<close>

inductive wstep :: "('q, 'd) libs \<Rightarrow> ('q, 'd) config \<Rightarrow> ('q, 'd) config \<Rightarrow> bool" for L where
  wtake: "wstep L c (c\<lparr>c_world := (c_world c)\<lparr>w_sys := sys'\<rparr>,
      c_busy := (c_busy c)[i := Some (a, handler_acts (lib_json L) (actor_kind ac) (payload e))]\<rparr>)"
  if "c_crashed c = None" "i < length (c_busy c)" "c_busy c ! i = None"
    "take_envelope (lib_queue L) t (c_sys c) = (Some a, sys')"
    "store (as_heap sys') a = Some e" "as_actors sys' t = Some ac"
| wact: "wstep L c (c\<lparr>c_world := w', c_busy := (c_busy c)[i := Some (a, xs)],
      c_lost := c_lost c @ act_lost (lib_queue L) x (c_sys c),
      c_done := c_done c @ act_effect x\<rparr>)"
  if "c_crashed c = None" "i < length (c_busy c)" "c_busy c ! i = Some (a, x # xs)"
    "exec_act L rid now x (c_world c) = (Inr (), w')"
| wfinish: "wstep L c (c\<lparr>c_world := (c_world c)\<lparr>w_sys := drop_envelope a (c_sys c)\<rparr>,
      c_busy := (c_busy c)[i := None]\<rparr>)"
  if "c_crashed c = None" "i < length (c_busy c)" "c_busy c ! i = Some (a, [])"

inductive step :: "('q, 'd) libs \<Rightarrow> ('q, 'd) config \<Rightarrow> ('q, 'd) config \<Rightarrow> bool" for L where
  worker: "wstep L c c' \<Longrightarrow> step L c c'"
| worker_throws: "step L c (c\<lparr>c_world := w', c_crashed := Some e\<rparr>)"
  if "c_crashed c = None" "i < length (c_busy c)" "c_busy c ! i = Some (a, x # xs)"
    "exec_act L rid now x (c_world c) = (Inl e, w')"
| frame: "step L c (c\<lparr>c_world := (c_world c)\<lparr>w_sys := sys'\<rparr>,
      c_accepted := c_accepted c @ (if ok then [e] else []),
      c_refused := c_refused c @ (if ok then [] else [e])\<rparr>)"
  if "c_crashed c = None" "dispatch_event (lib_json L) sid raw = Inr (Some e)"
    "post (lib_queue L) e (c_sys c) = (ok, sys')"
| frame_throws: "step L c (c\<lparr>c_crashed := Some e\<rparr>)"
  if "c_crashed c = None" "dispatch_event (lib_json L) sid raw = Inl e"
| transport: "step L c (c\<lparr>c_world := (c_world c)\<lparr>w_transports := tr, w_sessions := ss\<rparr>\<rparr>)"
  if "c_crashed c = None"
| query: "step L c (c\<lparr>c_world := (c_world c)\<lparr>w_db := d'\<rparr>\<rparr>)"
  if "c_crashed c = None" "mr_getByChat (lib_repo L) chatId limit now (w_db (c_world c)) = (r, d')"

abbreviation steps :: "('q, 'd) libs \<Rightarrow> ('q, 'd) config \<Rightarrow> ('q, 'd) config \<Rightarrow> bool" where
  "steps L \<equiv> (step L)\<^sup>*\<^sup>*"

inductive_cases wstepE [elim]: "wstep L c c'"

section \<open>The initial configuration\<close>

text \<open>The actors as the constructor of \<open>Server\<close> creates and registers them.\<close>

primrec server_kind :: "ActorType \<Rightarrow> actor_class" where
  "server_kind session = SessionActor"
| "server_kind chat = ChatActor"
| "server_kind message = MessageActor"
| "server_kind storage = StorageActor"

definition server_actors :: "'q queue_lib \<Rightarrow> size_t \<Rightarrow> 'q actor_system" where
  "server_actors Q mailboxSize =
     (let sessionActor = SessionActor_new (Mailbox_new Q mailboxSize);
          chatActor = ChatActor_new (Mailbox_new Q mailboxSize);
          messageActor = MessageActor_new (Mailbox_new Q mailboxSize);
          storageActor = StorageActor_new (Mailbox_new Q mailboxSize)
      in ActorSystem_registerActor storage storageActor
           (ActorSystem_registerActor message messageActor
             (ActorSystem_registerActor chat chatActor
               (ActorSystem_registerActor session sessionActor ActorSystem_new))))"

definition init_config :: "('q, 'd) libs \<Rightarrow> size_t \<Rightarrow> nat \<Rightarrow> 'd \<Rightarrow> ('q, 'd) config" where
  "init_config L mailboxSize threads d =
     \<lparr>c_world = \<lparr>w_sys = ActorSystem_start threads (server_actors (lib_queue L) mailboxSize),
                 w_transports = Map.empty, w_sessions = Map.empty, w_db = d\<rparr>,
      c_busy = replicate threads None, c_crashed = None, c_accepted = [], c_refused = [], c_lost = [],
      c_done = []\<rparr>"

section \<open>What an envelope promises\<close>

definition send_effects :: "json_lib \<Rightarrow> SendMessageEvent \<Rightarrow> effect multiset" where
  "send_effects J ev =
     {#Persisted \<lparr>pm_chatId = sm_chatId ev, pm_senderId = sm_senderId ev, pm_content = sm_text ev\<rparr>#} +
     (case payload (chat_echo J ev) of POutgoing out \<Rightarrow> {#Handed out#} | _ \<Rightarrow> {#}) +
     (if sm_recipientId ev \<noteq> []
      then (case payload (chat_incoming J ev) of POutgoing out \<Rightarrow> {#Handed out#} | _ \<Rightarrow> {#})
      else {#})"

fun promised :: "json_lib \<Rightarrow> ActorType \<Rightarrow> ActorPayload \<Rightarrow> effect multiset" where
  "promised J message (PSend ev) = send_effects J ev"
| "promised J chat (PSend ev) = send_effects J ev"
| "promised J storage (PPersist p) = {#Persisted p#}"
| "promised J session (POutgoing out) = {#Handed out#}"
| "promised J _ _ = {#}"

abbreviation promised_env :: "json_lib \<Rightarrow> ActorEnvelope \<Rightarrow> effect multiset" where
  "promised_env J e \<equiv> promised J (destination e) (payload e)"

fun promised_act :: "json_lib \<Rightarrow> act \<Rightarrow> effect multiset" where
  "promised_act J (APost e) = promised_env J e"
| "promised_act J (ADeliver out) = {#Handed out#}"
| "promised_act J (APersist p) = {#Persisted p#}"

definition promised_acts :: "json_lib \<Rightarrow> act list \<Rightarrow> effect multiset" where
  "promised_acts J xs = sum_list (map (promised_act J) xs)"

definition promised_list :: "json_lib \<Rightarrow> ActorEnvelope list \<Rightarrow> effect multiset" where
  "promised_list J es = sum_list (map (promised_env J) es)"

definition promised_busy :: "json_lib \<Rightarrow> (addr \<times> act list) option list \<Rightarrow> effect multiset" where
  "promised_busy J bs = sum_list (map (\<lambda>b. case b of None \<Rightarrow> {#} | Some (a, xs) \<Rightarrow> promised_acts J xs) bs)"

definition all_inboxes :: "('q \<Rightarrow> addr list) \<Rightarrow> 'q actor_system \<Rightarrow> ActorEnvelope list" where
  "all_inboxes cont sys =
     inbox cont sys session @ inbox cont sys chat @ inbox cont sys message @ inbox cont sys storage"

definition pending :: "json_lib \<Rightarrow> ('q \<Rightarrow> addr list) \<Rightarrow> ('q, 'd) config \<Rightarrow> effect multiset" where
  "pending J cont c = promised_list J (all_inboxes cont (c_sys c)) + promised_busy J (c_busy c)"

section \<open>The runtime invariant\<close>

definition registered :: "'q actor_system \<Rightarrow> bool" where
  "registered sys \<longleftrightarrow> (\<forall>t. map_option actor_kind (as_actors sys t) = Some (server_kind t))"

text \<open>Every worker owns the envelope it is handling: live, queued nowhere, held by it alone.\<close>

definition held_ok ::
  "('q \<Rightarrow> addr list) \<Rightarrow> 'q actor_system \<Rightarrow> (addr \<times> act list) option list \<Rightarrow> bool" where
  "held_ok cont sys bs \<longleftrightarrow>
     (\<forall>i a xs. i < length bs \<longrightarrow> bs ! i = Some (a, xs) \<longrightarrow>
        a \<in> live (as_heap sys) \<and> (\<forall>t. a \<notin> set (queued cont sys t)) \<and>
        (\<forall>j ys. j < length bs \<longrightarrow> bs ! j = Some (a, ys) \<longrightarrow> j = i))"

text \<open>Conservation: what was promised is done, pending or lost, each exactly once.\<close>

definition conserved :: "json_lib \<Rightarrow> ('q \<Rightarrow> addr list) \<Rightarrow> ('q, 'd) config \<Rightarrow> bool" where
  "conserved J cont c \<longleftrightarrow>
     mset (c_done c) + pending J cont c + promised_list J (c_lost c) = promised_list J (c_accepted c)"

definition run_inv :: "('q, 'd) libs \<Rightarrow> ('q \<Rightarrow> addr list) \<Rightarrow> ('q, 'd) config \<Rightarrow> bool" where
  "run_inv L cont c \<longleftrightarrow>
     sys_wf cont (c_sys c) \<and> registered (c_sys c) \<and> held_ok cont (c_sys c) (c_busy c) \<and>
     conserved (lib_json L) cont c"

section \<open>Lemmas on promises\<close>

lemma promised_list_simps [simp]:
  "promised_list J [] = {#}"
  "promised_list J (e # es) = promised_env J e + promised_list J es"
  "promised_list J (es @ es') = promised_list J es + promised_list J es'"
  by (simp_all add: promised_list_def)

lemma promised_acts_simps [simp]:
  "promised_acts J [] = {#}"
  "promised_acts J (x # xs) = promised_act J x + promised_acts J xs"
  by (simp_all add: promised_acts_def)

lemma promised_handler:
  "promised_acts J (handler_acts J (server_kind t) p) = promised J t p"
  by (cases t; cases p)
    (auto simp: chat_acts_def chat_persist_def chat_echo_def chat_incoming_def message_forward_def
      send_effects_def)

lemma sum_list_update_add:
  fixes f :: "'a \<Rightarrow> 'b :: comm_monoid_add"
  shows "i < length xs \<Longrightarrow> sum_list (map f (xs[i := y])) + f (xs ! i) = sum_list (map f xs) + f y"
proof (induction xs arbitrary: i)
  case Nil
  then show ?case by simp
next
  case (Cons x xs)
  then show ?case
    by (cases i) (auto simp: ac_simps dest: Cons.IH)
qed

lemma promised_busy_update:
  assumes "i < length bs"
  shows "promised_busy J (bs[i := b]) + (case bs ! i of None \<Rightarrow> {#} | Some (a, xs) \<Rightarrow> promised_acts J xs) =
         promised_busy J bs + (case b of None \<Rightarrow> {#} | Some (a, xs) \<Rightarrow> promised_acts J xs)"
  unfolding promised_busy_def
  by (rule sum_list_update_add [OF assms, where f = "\<lambda>b. case b of None \<Rightarrow> {#} | Some (a, xs) \<Rightarrow> promised_acts J xs"])

lemma mset_inboxes_upd:
  assumes "\<And>t'. t' \<noteq> t \<Longrightarrow> inbox cont sys' t' = inbox cont sys t'"
  shows "mset (all_inboxes cont sys') + mset (inbox cont sys t) =
         mset (all_inboxes cont sys) + mset (inbox cont sys' t)"
  using assms [of session] assms [of chat] assms [of message] assms [of storage]
  by (cases t) (simp_all add: all_inboxes_def ac_simps)

lemma all_inboxes_cong:
  "(\<And>t. inbox cont sys' t = inbox cont sys t) \<Longrightarrow> all_inboxes cont sys' = all_inboxes cont sys"
  by (simp add: all_inboxes_def)

lemma mset_inboxes_post:
  assumes "lockfree_queue Q cont nodes" and "sys_wf cont sys" and "post Q e sys = (ok, sys')"
  shows "mset (all_inboxes cont sys') = mset (all_inboxes cont sys) + (if ok then {#e#} else {#})"
proof (cases ok)
  case True
  have "mset (all_inboxes cont sys') + mset (inbox cont sys (destination e)) =
        mset (all_inboxes cont sys) + mset (inbox cont sys' (destination e))"
    by (rule mset_inboxes_upd) (simp add: inbox_post [OF assms])
  with True show ?thesis by (simp add: inbox_post [OF assms] ac_simps)
next
  case False
  then have "all_inboxes cont sys' = all_inboxes cont sys"
    by (intro all_inboxes_cong) (simp add: inbox_post [OF assms])
  with False show ?thesis by simp
qed

lemma mset_inboxes_take:
  assumes "lockfree_queue Q cont nodes" and "sys_wf cont sys"
    and "take_envelope Q t sys = (Some a, sys')" and "store (as_heap sys') a = Some e"
  shows "mset (all_inboxes cont sys) = mset (all_inboxes cont sys') + {#e#}" and "destination e = t"
proof -
  from take_Some(1) [OF assms(1-3)] assms(4) have i: "inbox cont sys t = e # inbox cont sys' t"
    and "destination e = t" by auto
  then show "destination e = t" by simp
  have "mset (all_inboxes cont sys') + mset (inbox cont sys t) =
        mset (all_inboxes cont sys) + mset (inbox cont sys' t)"
    by (rule mset_inboxes_upd) (simp add: take_Some(2) [OF assms(1-3)])
  with i show "mset (all_inboxes cont sys) = mset (all_inboxes cont sys') + {#e#}"
    by (simp add: ac_simps)
qed

lemma sum_list_mset: "sum_list (map f es) = sum_mset (image_mset f (mset es))"
  by (metis mset_map sum_mset_sum_list)

lemma promised_post:
  assumes "lockfree_queue Q cont nodes" and "sys_wf cont sys" and "post Q e sys = (ok, sys')"
  shows "promised_list J (all_inboxes cont sys') =
         promised_list J (all_inboxes cont sys) + (if ok then promised_env J e else {#})"
  by (simp add: promised_list_def sum_list_mset mset_inboxes_post [OF assms])

lemma promised_take:
  assumes "lockfree_queue Q cont nodes" and "sys_wf cont sys"
    and "take_envelope Q t sys = (Some a, sys')" and "store (as_heap sys') a = Some e"
  shows "promised_list J (all_inboxes cont sys) =
         promised_list J (all_inboxes cont sys') + promised_env J e" and "destination e = t"
  using mset_inboxes_take [OF assms]
  by (simp_all add: promised_list_def sum_list_mset add.commute)

lemma registered_frame:
  "(\<And>t. map_option actor_kind (as_actors sys' t) = map_option actor_kind (as_actors sys t)) \<Longrightarrow>
     registered sys' = registered sys"
  by (simp add: registered_def)

lemma registered_kind: "registered sys \<Longrightarrow> as_actors sys t = Some ac \<Longrightarrow> actor_kind ac = server_kind t"
  by (metis registered_def option.simps(9) option.inject)

section \<open>Ownership of held envelopes\<close>

lemma held_okD:
  assumes "held_ok cont sys bs" and "i < length bs" and "bs ! i = Some (a, xs)"
  shows "a \<in> live (as_heap sys)" and "a \<notin> set (queued cont sys t)"
    and "j < length bs \<Longrightarrow> bs ! j = Some (a, ys) \<Longrightarrow> j = i"
  using assms unfolding held_ok_def by blast+

lemma held_ok_sys:
  assumes "held_ok cont sys bs"
    and "\<And>a. a \<in> live (as_heap sys) \<Longrightarrow> (\<forall>t. a \<notin> set (queued cont sys t)) \<Longrightarrow>
           a \<in> live (as_heap sys') \<and> (\<forall>t. a \<notin> set (queued cont sys' t))"
  shows "held_ok cont sys' bs"
  using assms unfolding held_ok_def by (metis (no_types, lifting))

lemma held_ok_post:
  assumes "lockfree_queue Q cont nodes" and "sys_wf cont sys" and "post Q e sys = (ok, sys')"
    and "held_ok cont sys bs"
  shows "held_ok cont sys' bs"
proof (rule held_ok_sys [OF assms(4)])
  fix a assume a: "a \<in> live (as_heap sys)" and q: "\<forall>t. a \<notin> set (queued cont sys t)"
  then have "a \<noteq> new_addr sys" using new_addr_none [OF assms(2)] by (auto simp: live_def)
  with a q store_post(1) [OF assms(2,3)]
  show "a \<in> live (as_heap sys') \<and> (\<forall>t. a \<notin> set (queued cont sys' t))"
    by (simp add: live_def dom_def queued_post [OF assms(1,3)])
qed

lemma held_ok_take:
  assumes "lockfree_queue Q cont nodes" and "sys_wf cont sys"
    and "take_envelope Q t sys = (Some a, sys')" and "held_ok cont sys bs"
    and "i < length bs" and "bs ! i = None"
  shows "held_ok cont sys' (bs[i := Some (a, xs)])"
proof -
  have q: "a \<in> set (queued cont sys t)" using queued_take [OF assms(1,3)] by simp
  have h: "as_heap sys' = as_heap sys" by (rule frame_take(1) [OF assms(3)])
  have sub: "set (queued cont sys' t') \<subseteq> set (queued cont sys t')" for t'
    using take_queued_subset [OF assms(1,3), of t'] by (metis set_subset_Cons subset_refl)
  have new: "b \<noteq> a" if "j < length bs" "bs ! j = Some (b, ys)" for j b ys
    using held_okD(2) [OF assms(4) that, of t] q by blast
  show ?thesis
    unfolding held_ok_def length_list_update
  proof (intro allI impI)
    fix j b ys assume j: "j < length bs" and b: "bs[i := Some (a, xs)] ! j = Some (b, ys)"
    show "b \<in> live (as_heap sys') \<and> (\<forall>t. b \<notin> set (queued cont sys' t)) \<and>
      (\<forall>k zs. k < length bs \<longrightarrow> bs[i := Some (a, xs)] ! k = Some (b, zs) \<longrightarrow> k = j)"
    proof (cases "j = i")
      case True
      with b assms(5) have "b = a" by simp
      moreover have "k = i" if "k < length bs" "bs[i := Some (a, xs)] ! k = Some (a, zs)" for k zs
        using that new by (cases "k = i") auto
      ultimately show ?thesis
        using queued_live [OF assms(2) q] take_Some(3) [OF assms(1-3)] h True by auto
    next
      case False
      with b have bj: "bs ! j = Some (b, ys)" by simp
      note hd = held_okD [OF assms(4) j bj]
      have "k = j" if k: "k < length bs" "bs[i := Some (a, xs)] ! k = Some (b, zs)" for k zs
        using k hd(3) new [OF j bj] by (cases "k = i") auto
      with hd(1,2) sub h show ?thesis by auto
    qed
  qed
qed

lemma held_ok_update:
  assumes "held_ok cont sys bs" and "i < length bs" and "bs ! i = Some (a, xs)"
  shows "held_ok cont sys (bs[i := Some (a, ys)])"
  unfolding held_ok_def length_list_update
proof (intro allI impI)
  fix j b zs assume j: "j < length bs" and b: "bs[i := Some (a, ys)] ! j = Some (b, zs)"
  obtain us where u: "bs ! j = Some (b, us)" using b assms by (cases "j = i") auto
  have "k = j" if "k < length bs" "bs[i := Some (a, ys)] ! k = Some (b, vs)" for k vs
    using that assms held_okD(3) [OF assms(1) j u] by (cases "k = i") auto
  with held_okD(1,2) [OF assms(1) j u]
  show "b \<in> live (as_heap sys) \<and> (\<forall>t. b \<notin> set (queued cont sys t)) \<and>
    (\<forall>k ws. k < length bs \<longrightarrow> bs[i := Some (a, ys)] ! k = Some (b, ws) \<longrightarrow> k = j)"
    by blast
qed

lemma held_ok_drop:
  assumes "held_ok cont sys bs" and "i < length bs" and "bs ! i = Some (a, xs)"
  shows "held_ok cont (drop_envelope a sys) (bs[i := None])"
  unfolding held_ok_def length_list_update queued_drop
proof (intro allI impI)
  fix j b zs assume j: "j < length bs" and b: "bs[i := None] ! j = Some (b, zs)"
  then have ji: "j \<noteq> i" and bj: "bs ! j = Some (b, zs)" by (cases "j = i"; simp)+
  with held_okD(3) [OF assms] j have "b \<noteq> a" by blast
  moreover have "k = j" if "k < length bs" "bs[i := None] ! k = Some (b, vs)" for k vs
    using that held_okD(3) [OF assms(1) j bj] by (cases "k = i") auto
  ultimately show "b \<in> live (as_heap (drop_envelope a sys)) \<and>
    (\<forall>t. b \<notin> set (queued cont sys t)) \<and>
    (\<forall>k ws. k < length bs \<longrightarrow> bs[i := None] ! k = Some (b, ws) \<longrightarrow> k = j)"
    using held_okD(1,2) [OF assms(1) j bj] by (auto simp: drop_envelope_def live_free)
qed

section \<open>Every step keeps the invariant\<close>

lemma exec_act_sys:
  "exec_act L rid now x w = (r, w') \<Longrightarrow>
     w_sys w' = (case x of APost e \<Rightarrow> snd (post (lib_queue L) e (w_sys w)) | _ \<Rightarrow> w_sys w)"
  by (cases x)
    (auto simp: SessionActor_deliver_def split: option.splits sum.splits prod.splits)

lemma run_inv_take:
  assumes Q: "lockfree_queue (lib_queue L) cont nodes" and inv: "run_inv L cont c"
    and i: "i < length (c_busy c)" "c_busy c ! i = None"
    and t: "take_envelope (lib_queue L) t (c_sys c) = (Some a, sys')"
    and e: "store (as_heap sys') a = Some e" "as_actors sys' t = Some ac"
  shows "run_inv L cont (c\<lparr>c_world := (c_world c)\<lparr>w_sys := sys'\<rparr>,
      c_busy := (c_busy c)[i := Some (a, handler_acts (lib_json L) (actor_kind ac) (payload e))]\<rparr>)"
proof -
  let ?J = "lib_json L"
  from inv have wf: "sys_wf cont (c_sys c)" and reg: "registered (c_sys c)"
    and held: "held_ok cont (c_sys c) (c_busy c)" and con: "conserved ?J cont c"
    by (auto simp: run_inv_def)
  have reg': "registered sys'" using registered_frame [OF frame_take(4) [OF t]] reg by simp
  note p = promised_take [OF Q wf t e(1)]
  have h: "promised_acts ?J (handler_acts ?J (actor_kind ac) (payload e)) = promised_env ?J e"
    using promised_handler [of ?J t] registered_kind [OF reg' e(2)] p(2) by simp
  have "promised_busy ?J ((c_busy c)[i := Some (a, handler_acts ?J (actor_kind ac) (payload e))]) =
        promised_busy ?J (c_busy c) + promised_env ?J e"
    using promised_busy_update [OF i(1), of ?J] i(2) h by simp
  then show ?thesis
    using sys_wf_take [OF Q wf t] reg' held_ok_take [OF Q wf t held i] con p(1) [of ?J]
    by (simp add: run_inv_def conserved_def pending_def ac_simps)
qed

lemma run_inv_act:
  assumes Q: "lockfree_queue (lib_queue L) cont nodes" and inv: "run_inv L cont c"
    and i: "i < length (c_busy c)" "c_busy c ! i = Some (a, x # xs)"
    and x: "exec_act L rid now x (c_world c) = (Inr (), w')"
  shows "run_inv L cont (c\<lparr>c_world := w', c_busy := (c_busy c)[i := Some (a, xs)],
      c_lost := c_lost c @ act_lost (lib_queue L) x (c_sys c),
      c_done := c_done c @ act_effect x\<rparr>)"
proof -
  let ?J = "lib_json L" and ?Q = "lib_queue L"
  from inv have wf: "sys_wf cont (c_sys c)" and reg: "registered (c_sys c)"
    and held: "held_ok cont (c_sys c) (c_busy c)" and con: "conserved ?J cont c"
    by (auto simp: run_inv_def)
  have b: "promised_busy ?J ((c_busy c)[i := Some (a, xs)]) + promised_act ?J x =
           promised_busy ?J (c_busy c)"
    using promised_busy_update [OF i(1), of ?J "Some (a, xs)"] i(2) by (simp add: ac_simps)
  show ?thesis
  proof (cases "\<exists>e. x = APost e")
    case True
    then obtain e where xe: "x = APost e" ..
    obtain ok sys' where p: "post ?Q e (c_sys c) = (ok, sys')" by fastforce
    then have w': "w_sys w' = sys'" using exec_act_sys [OF x] xe by simp
    have "registered sys'" using registered_frame [OF frame_post(3) [OF p]] reg by simp
    then show ?thesis
      using sys_wf_post [OF Q wf p] held_ok_post [OF Q wf p held_ok_update [OF held i]]
        con b [symmetric] promised_post [OF Q wf p, of ?J]
      by (cases ok) (simp_all add: run_inv_def conserved_def pending_def w' xe p ac_simps)
  next
    case False
    then have w': "w_sys w' = c_sys c" using exec_act_sys [OF x] by (cases x) simp_all
    have e: "mset (act_effect x) = promised_act ?J x" and l: "act_lost ?Q x (c_sys c) = []"
      using False by (cases x; simp)+
    show ?thesis
      using wf reg held_ok_update [OF held i] con b [symmetric]
      by (simp add: run_inv_def conserved_def pending_def w' e l ac_simps)
  qed
qed

lemma run_inv_finish:
  assumes inv: "run_inv L cont c" and i: "i < length (c_busy c)" "c_busy c ! i = Some (a, [])"
  shows "run_inv L cont (c\<lparr>c_world := (c_world c)\<lparr>w_sys := drop_envelope a (c_sys c)\<rparr>,
      c_busy := (c_busy c)[i := None]\<rparr>)"
proof -
  let ?J = "lib_json L"
  from inv have wf: "sys_wf cont (c_sys c)" and reg: "registered (c_sys c)"
    and held: "held_ok cont (c_sys c) (c_busy c)" and con: "conserved ?J cont c"
    by (auto simp: run_inv_def)
  have q: "\<forall>t. a \<notin> set (queued cont (c_sys c) t)" using held_okD(2) [OF held i] by blast
  have "promised_busy ?J ((c_busy c)[i := None]) = promised_busy ?J (c_busy c)"
    using promised_busy_update [OF i(1), of ?J None] i(2) by simp
  moreover have "all_inboxes cont (drop_envelope a (c_sys c)) = all_inboxes cont (c_sys c)"
    by (rule all_inboxes_cong) (rule inbox_drop [OF q])
  moreover have "registered (drop_envelope a (c_sys c))"
    using registered_frame [of "drop_envelope a (c_sys c)" "c_sys c"] reg by simp
  ultimately show ?thesis
    using sys_wf_drop [OF wf q] held_ok_drop [OF held i] con
    by (simp add: run_inv_def conserved_def pending_def)
qed

lemma run_inv_wstep:
  assumes "lockfree_queue (lib_queue L) cont nodes" and "wstep L c c'" and "run_inv L cont c"
  shows "run_inv L cont c'"
  using assms(2)
proof (cases rule: wstep.cases)
  case (wtake i t a sys' e ac)
  then show ?thesis using run_inv_take [OF assms(1,3)] by blast
next
  case (wact i a x xs rid now w')
  then show ?thesis using run_inv_act [OF assms(1,3)] by blast
next
  case (wfinish i a)
  then show ?thesis using run_inv_finish [OF assms(3)] by blast
qed

lemma run_inv_frame:
  assumes Q: "lockfree_queue (lib_queue L) cont nodes" and inv: "run_inv L cont c"
    and p: "post (lib_queue L) e (c_sys c) = (ok, sys')"
  shows "run_inv L cont (c\<lparr>c_world := (c_world c)\<lparr>w_sys := sys'\<rparr>,
      c_accepted := c_accepted c @ (if ok then [e] else []),
      c_refused := c_refused c @ (if ok then [] else [e])\<rparr>)"
proof -
  from inv have wf: "sys_wf cont (c_sys c)" and reg: "registered (c_sys c)"
    and held: "held_ok cont (c_sys c) (c_busy c)" and con: "conserved (lib_json L) cont c"
    by (auto simp: run_inv_def)
  have "registered sys'" using registered_frame [OF frame_post(3) [OF p]] reg by simp
  then show ?thesis
    using sys_wf_post [OF Q wf p] held_ok_post [OF Q wf p held] con
      promised_post [OF Q wf p, of "lib_json L"]
    by (simp add: run_inv_def conserved_def pending_def) (simp add: ac_simps)
qed

lemma run_inv_crash:
  assumes "lockfree_queue (lib_queue L) cont nodes" and inv: "run_inv L cont c"
    and i: "i < length (c_busy c)" "c_busy c ! i = Some (a, x # xs)"
    and x: "exec_act L rid now x (c_world c) = (Inl e, w')"
  shows "run_inv L cont (c\<lparr>c_world := w', c_crashed := Some e\<rparr>)"
proof -
  have "w_sys w' = c_sys c"
    using exec_act_sys [OF x] x by (cases x) simp_all
  with inv show ?thesis by (simp add: run_inv_def conserved_def pending_def)
qed

lemma run_inv_step:
  assumes "lockfree_queue (lib_queue L) cont nodes" and "step L c c'" and "run_inv L cont c"
  shows "run_inv L cont c'"
  using assms(2)
proof (cases rule: step.cases)
  case worker
  then show ?thesis using run_inv_wstep assms by blast
next
  case (worker_throws i a x xs rid now e w')
  then show ?thesis using run_inv_crash [OF assms(1,3)] by blast
next
  case (frame sid raw e ok sys')
  then show ?thesis using run_inv_frame [OF assms(1,3)] by blast
qed (use assms(3) in \<open>simp_all add: run_inv_def conserved_def pending_def\<close>)

lemma run_inv_steps:
  assumes "lockfree_queue (lib_queue L) cont nodes" and "steps L c c'" and "run_inv L cont c"
  shows "run_inv L cont c'"
  using assms(2,3) by (induction rule: rtranclp_induct) (auto intro: run_inv_step [OF assms(1)])

section \<open>The initial configuration satisfies it\<close>

lemma server_actors_lookup:
  "as_actors (server_actors Q n) t =
     Some \<lparr>actor_kind = server_kind t, actor_mailbox = Mailbox_new Q n\<rparr>"
  by (cases t) (simp_all add: server_actors_def actor_new_defs ActorSystem_registerActor_def)

lemma sys_wf_server:
  assumes "lockfree_queue Q cont nodes"
  shows "sys_wf cont (server_actors Q n)"
  unfolding server_actors_def actor_new_defs Let_def
  by (intro sys_wf_register [OF assms] sys_wf_new)

lemma start_frame:
  "as_actors (ActorSystem_start n sys) = as_actors sys"
  "as_heap (ActorSystem_start n sys) = as_heap sys"
  by (simp_all add: ActorSystem_start_def)

lemma queued_start: "queued cont (ActorSystem_start n sys) t = queued cont sys t"
  by (simp add: queued_def start_frame)

lemma queued_server:
  "lockfree_queue Q cont nodes \<Longrightarrow> queued cont (server_actors Q n) t = []"
  by (simp add: queued_def server_actors_lookup Mailbox_new_def lockfree_new)

lemma promised_busy_idle: "promised_busy J (replicate n None) = {#}"
  by (induction n) (simp_all add: promised_busy_def)

lemma run_inv_init:
  assumes "lockfree_queue (lib_queue L) cont nodes"
  shows "run_inv L cont (init_config L cap n d)"
proof -
  have "sys_wf cont (c_sys (init_config L cap n d))"
    using sys_wf_server [OF assms, of cap]
    by (simp add: init_config_def sys_wf_def queued_start start_frame)
  moreover have "registered (c_sys (init_config L cap n d))"
    by (simp add: init_config_def registered_def start_frame server_actors_lookup)
  moreover have "held_ok cont (c_sys (init_config L cap n d)) (c_busy (init_config L cap n d))"
    by (simp add: init_config_def held_ok_def)
  moreover have "inbox cont (c_sys (init_config L cap n d)) t = []" for t
    by (simp add: init_config_def inbox_def queued_start queued_server [OF assms])
  then have "all_inboxes cont (c_sys (init_config L cap n d)) = []"
    by (simp add: all_inboxes_def)
  then have "conserved (lib_json L) cont (init_config L cap n d)"
    by (simp add: conserved_def pending_def)
      (simp add: init_config_def promised_busy_idle)
  ultimately show ?thesis by (simp add: run_inv_def)
qed

lemmas run_inv_reachable = run_inv_steps [OF _ _ run_inv_init]

section \<open>Termination and progress\<close>

text \<open>How many worker steps an envelope, an action and a whole configuration can still cause.\<close>

fun payload_weight :: "ActorType \<Rightarrow> ActorPayload \<Rightarrow> nat" where
  "payload_weight message (PSend _) = 20"
| "payload_weight chat (PSend _) = 15"
| "payload_weight _ _ = 3"

abbreviation env_weight :: "ActorEnvelope \<Rightarrow> nat" where
  "env_weight e \<equiv> payload_weight (destination e) (payload e)"

fun act_weight :: "act \<Rightarrow> nat" where
  "act_weight (APost e) = Suc (env_weight e)"
| "act_weight _ = 1"

definition acts_weight :: "act list \<Rightarrow> nat" where
  "acts_weight xs = sum_list (map act_weight xs)"

definition busy_weight :: "(addr \<times> act list) option \<Rightarrow> nat" where
  "busy_weight b = (case b of None \<Rightarrow> 0 | Some (a, xs) \<Rightarrow> Suc (acts_weight xs))"

definition work :: "('q \<Rightarrow> addr list) \<Rightarrow> ('q, 'd) config \<Rightarrow> nat" where
  "work cont c =
     sum_list (map env_weight (all_inboxes cont (c_sys c))) + sum_list (map busy_weight (c_busy c))"

definition quiescent :: "('q \<Rightarrow> addr list) \<Rightarrow> ('q, 'd) config \<Rightarrow> bool" where
  "quiescent cont c \<longleftrightarrow> (\<forall>t. inbox cont (c_sys c) t = []) \<and> (\<forall>b \<in> set (c_busy c). b = None)"

lemma handler_weight:
  "Suc (acts_weight (handler_acts J (server_kind t) p)) < payload_weight t p"
  by (cases t; cases p)
    (auto simp: acts_weight_def chat_acts_def chat_persist_def chat_echo_def chat_incoming_def
      message_forward_def)

lemma work_wstep:
  assumes Q: "lockfree_queue (lib_queue L) cont nodes" and "wstep L c c'" and inv: "run_inv L cont c"
  shows "work cont c' < work cont c"
  using assms(2)
proof (cases rule: wstep.cases)
  case (wtake i t a sys' e ac)
  from inv have wf: "sys_wf cont (c_sys c)" and reg: "registered (c_sys c)"
    by (auto simp: run_inv_def)
  note m = mset_inboxes_take [OF Q wf wtake(5,6)]
  have "registered sys'" using registered_frame [OF frame_take(4) [OF wtake(5)]] reg by simp
  then have k: "actor_kind ac = server_kind t" using wtake(7) by (rule registered_kind)
  show ?thesis
    using sum_list_update_add [OF wtake(3), of busy_weight
        "Some (a, handler_acts (lib_json L) (actor_kind ac) (payload e))"]
      handler_weight [of "lib_json L" t "payload e"] m
    by (simp add: work_def wtake(1,4) sum_list_mset k busy_weight_def)
next
  case (wact i a x xs rid now w')
  from inv have wf: "sys_wf cont (c_sys c)" by (auto simp: run_inv_def)
  have b: "sum_list (map busy_weight ((c_busy c)[i := Some (a, xs)])) + act_weight x =
           sum_list (map busy_weight (c_busy c))"
    using sum_list_update_add [OF wact(3), of busy_weight "Some (a, xs)"] wact(4)
    by (simp add: busy_weight_def acts_weight_def)
  have "sum_list (map env_weight (all_inboxes cont (w_sys w'))) <
        sum_list (map env_weight (all_inboxes cont (c_sys c))) + act_weight x"
  proof (cases x)
    case (APost e)
    obtain ok sys' where p: "post (lib_queue L) e (c_sys c) = (ok, sys')" by fastforce
    with APost mset_inboxes_post [OF Q wf p] exec_act_sys [OF wact(5)] show ?thesis
      by (simp add: sum_list_mset)
  qed (use exec_act_sys [OF wact(5)] in simp_all)
  with b show ?thesis by (simp add: work_def wact(1))
next
  case (wfinish i a)
  from inv have held: "held_ok cont (c_sys c) (c_busy c)" by (auto simp: run_inv_def)
  have "\<forall>t. a \<notin> set (queued cont (c_sys c) t)" using held_okD(2) [OF held wfinish(3,4)] by blast
  then have "all_inboxes cont (drop_envelope a (c_sys c)) = all_inboxes cont (c_sys c)"
    by (intro all_inboxes_cong inbox_drop)
  then show ?thesis
    using sum_list_update_add [OF wfinish(3), of busy_weight None] wfinish(4)
    by (simp add: work_def wfinish(1) busy_weight_def acts_weight_def)
qed

lemma work_wsteps:
  assumes "lockfree_queue (lib_queue L) cont nodes" and "(wstep L ^^ n) c c'"
    and "run_inv L cont c"
  shows "n + work cont c' \<le> work cont c \<and> run_inv L cont c'"
  using assms(2)
proof (induction n arbitrary: c')
  case 0
  with assms(3) show ?case by simp
next
  case (Suc n)
  then obtain c1 where "(wstep L ^^ n) c c1" and s: "wstep L c1 c'" by auto
  with Suc.IH have "n + work cont c1 \<le> work cont c" and i: "run_inv L cont c1" by auto
  with work_wstep [OF assms(1) s i] run_inv_wstep [OF assms(1) s i] show ?case by simp
qed

text \<open>
  A worker stands before an action of its handler that throws whatever identifier and time it is
  given: a storage call or a delivery that cannot be carried out.
\<close>

definition worker_stuck :: "('q, 'd) libs \<Rightarrow> ('q, 'd) config \<Rightarrow> bool" where
  "worker_stuck L c \<longleftrightarrow> (\<exists>i a x xs. i < length (c_busy c) \<and> c_busy c ! i = Some (a, x # xs) \<and>
     (\<forall>rid now. \<exists>e w'. exec_act L rid now x (c_world c) = (Inl e, w')))"

text \<open>A worker that is not stuck in an exception can always go on.\<close>

lemma progress_busy:
  assumes "c_crashed c = None" and "i < length (c_busy c)" and "c_busy c ! i = Some (a, xs)"
  shows "(\<exists>c'. wstep L c c') \<or> worker_stuck L c"
proof (cases xs)
  case Nil
  with assms wstep.wfinish show ?thesis by blast
next
  case (Cons x ys)
  show ?thesis
  proof (cases "\<exists>rid now w'. exec_act L rid now x (c_world c) = (Inr (), w')")
    case True
    with wstep.wact [OF assms(1,2)] assms(3) Cons show ?thesis by blast
  next
    case False
    have "\<exists>e w'. exec_act L rid now x (c_world c) = (Inl e, w')" for rid now
    proof (cases "exec_act L rid now x (c_world c)")
      case (Pair r w')
      with False show ?thesis by (cases r) auto
    qed
    with assms(2,3) Cons show ?thesis unfolding worker_stuck_def by blast
  qed
qed

lemma progress:
  assumes Q: "lockfree_queue (lib_queue L) cont nodes" and inv: "run_inv L cont c"
    and "c_crashed c = None" and "c_busy c \<noteq> []" and "\<not> quiescent cont c"
  shows "(\<exists>c'. wstep L c c') \<or> worker_stuck L c"
proof (cases "\<forall>b \<in> set (c_busy c). b = None")
  case False
  then obtain i a xs where "i < length (c_busy c)" "c_busy c ! i = Some (a, xs)"
    by (metis in_set_conv_nth not_None_eq surj_pair)
  with progress_busy [OF assms(3)] show ?thesis by blast
next
  case True
  with assms(5) obtain t where t: "inbox cont (c_sys c) t \<noteq> []" by (auto simp: quiescent_def)
  from inv have wf: "sys_wf cont (c_sys c)" and reg: "registered (c_sys c)"
    by (auto simp: run_inv_def)
  obtain r sys' where k: "take_envelope (lib_queue L) t (c_sys c) = (r, sys')" by fastforce
  with t take_None(1) [OF Q] obtain a where r: "r = Some a" by (cases r) auto
  note k = k [unfolded r]
  from take_Some(1) [OF Q wf k] obtain e where e: "store (as_heap sys') a = Some e" by blast
  from reg frame_take(4) [OF k, of t] obtain ac where ac: "as_actors sys' t = Some ac"
    unfolding registered_def by (metis map_option_eq_Some)
  have "c_busy c ! 0 = None" "0 < length (c_busy c)"
    using True assms(4) by (auto simp: nth_mem)
  with wstep.wtake [OF assms(3) _ _ k e ac] show ?thesis by blast
qed

lemma busy_length_wstep: "wstep L c c' \<Longrightarrow> length (c_busy c') = length (c_busy c)"
  by (erule wstepE) auto

lemma crashed_wstep: "wstep L c c' \<Longrightarrow> c_crashed c' = c_crashed c"
  by (erule wstepE) auto

lemma settles:
  assumes Q: "lockfree_queue (lib_queue L) cont nodes" and "run_inv L cont c"
    and "c_crashed c = None" and "c_busy c \<noteq> []"
  shows "\<exists>c'. (wstep L)\<^sup>*\<^sup>* c c' \<and>
    (quiescent cont c' \<or> worker_stuck L c')"
  using assms(2-)
proof (induction "work cont c" arbitrary: c rule: less_induct)
  case less
  show ?case
  proof (cases "quiescent cont c")
    case True
    then show ?thesis by blast
  next
    case False
    from progress [OF Q less.prems False] show ?thesis
    proof
      assume "\<exists>c1. wstep L c c1"
      then obtain c1 where s: "wstep L c c1" ..
      have "c_busy c1 \<noteq> []" using busy_length_wstep [OF s] less.prems(3) by auto
      with less.hyps [OF work_wstep [OF Q s less.prems(1)] run_inv_wstep [OF Q s less.prems(1)]]
        crashed_wstep [OF s] less.prems(2) s show ?thesis
        by (metis converse_rtranclp_into_rtranclp)
    qed blast
  qed
qed

end
