(* ===== verification/Pipeline.thy ===== *)
theory Pipeline
  imports Actor_Run "HOL-Library.Sublist"
begin

text \<open>
  What the actor runtime guarantees: properties of every interleaving of \<open>Actor_Run\<close>, the link
  from the code's sequential worker loop to the atomic steps, and an executable form of the
  steps with which concrete runs are evaluated.
\<close>

section \<open>Executable steps\<close>

datatype label =
    LTake nat ActorType
  | LAct nat uuid time_point
  | LFinish nat
  | LFrame string string

definition worker_state :: "('q, 'd) config \<Rightarrow> nat \<Rightarrow> (addr \<times> act list) option option" where
  "worker_state c i =
     (if c_crashed c = None \<and> i < length (c_busy c) then Some (c_busy c ! i) else None)"

fun exec_label :: "('q, 'd) libs \<Rightarrow> label \<Rightarrow> ('q, 'd) config \<Rightarrow> ('q, 'd) config option" where
  "exec_label L (LTake i t) c =
     (case worker_state c i of
        Some None \<Rightarrow>
          (case take_envelope (lib_queue L) t (c_sys c) of
             (Some a, sys') \<Rightarrow>
               (case (store (as_heap sys') a, as_actors sys' t) of
                  (Some e, Some ac) \<Rightarrow> Some (c\<lparr>c_world := (c_world c)\<lparr>w_sys := sys'\<rparr>,
                    c_busy := (c_busy c)[i := Some (a, handler_acts (lib_json L) (actor_kind ac) (payload e))]\<rparr>)
                | _ \<Rightarrow> None)
           | _ \<Rightarrow> None)
      | _ \<Rightarrow> None)"
| "exec_label L (LAct i rid now) c =
     (case worker_state c i of
        Some (Some (a, x # xs)) \<Rightarrow>
          (case exec_act L rid now x (c_world c) of
             (Inr _, w') \<Rightarrow> Some (c\<lparr>c_world := w', c_busy := (c_busy c)[i := Some (a, xs)],
                c_lost := c_lost c @ act_lost (lib_queue L) x (c_sys c),
                c_done := c_done c @ act_effect x\<rparr>)
           | (Inl e, w') \<Rightarrow> Some (c\<lparr>c_world := w', c_crashed := Some e\<rparr>))
      | _ \<Rightarrow> None)"
| "exec_label L (LFinish i) c =
     (case worker_state c i of
        Some (Some (a, [])) \<Rightarrow> Some (c\<lparr>c_world := (c_world c)\<lparr>w_sys := drop_envelope a (c_sys c)\<rparr>,
                                        c_busy := (c_busy c)[i := None]\<rparr>)
      | _ \<Rightarrow> None)"
| "exec_label L (LFrame sid raw) c =
     (if c_crashed c \<noteq> None then None
      else case dispatch_event (lib_json L) sid raw of
             Inl e \<Rightarrow> Some (c\<lparr>c_crashed := Some e\<rparr>)
           | Inr None \<Rightarrow> Some c
           | Inr (Some e) \<Rightarrow>
               (case post (lib_queue L) e (c_sys c) of
                  (ok, sys') \<Rightarrow> Some (c\<lparr>c_world := (c_world c)\<lparr>w_sys := sys'\<rparr>,
                    c_accepted := c_accepted c @ (if ok then [e] else []),
                    c_refused := c_refused c @ (if ok then [] else [e])\<rparr>)))"

fun exec_labels :: "('q, 'd) libs \<Rightarrow> label list \<Rightarrow> ('q, 'd) config \<Rightarrow> ('q, 'd) config option" where
  "exec_labels L [] c = Some c"
| "exec_labels L (l # ls) c =
     (case exec_label L l c of None \<Rightarrow> None | Some c' \<Rightarrow> exec_labels L ls c')"

lemma exec_take_wstep: "exec_label L (LTake i t) c = Some c' \<Longrightarrow> wstep L c c'"
  by (auto simp: worker_state_def split: option.splits prod.splits if_splits intro: wstep.wtake)

lemma exec_label_sound: "exec_label L l c = Some c' \<Longrightarrow> steps L c c'"
proof (cases l)
  case (LTake i t)
  assume "exec_label L l c = Some c'"
  with LTake show ?thesis by (blast intro: step.worker exec_take_wstep)
next
  case (LAct i rid now)
  assume "exec_label L l c = Some c'"
  with LAct have "wstep L c c' \<or> step L c c'"
    by (auto simp: worker_state_def split: option.splits prod.splits if_splits list.splits sum.splits
        intro: wstep.wact step.worker_throws)
  then show ?thesis by (blast intro: step.worker)
next
  case (LFinish i)
  assume "exec_label L l c = Some c'"
  with LFinish have "wstep L c c'"
    by (auto simp: worker_state_def split: option.splits prod.splits if_splits list.splits
        intro: wstep.wfinish)
  then show ?thesis by (blast intro: step.worker)
next
  case (LFrame sid raw)
  assume "exec_label L l c = Some c'"
  with LFrame have "c' = c \<or> step L c c'"
  proof (cases "dispatch_event (lib_json L) sid raw")
    case (Inl e)
    with LFrame \<open>exec_label L l c = Some c'\<close> show ?thesis
      by (auto split: if_splits intro: step.frame_throws)
  next
    case (Inr r)
    obtain ok sys' where p: "post (lib_queue L) (the r) (c_sys c) = (ok, sys')" by fastforce
    from Inr LFrame \<open>exec_label L l c = Some c'\<close> p step.frame [of c L sid raw "the r" ok sys']
    show ?thesis by (cases r) (auto split: if_split_asm)
  qed
  then show ?thesis by blast
qed

lemma exec_labels_sound: "exec_labels L ls c = Some c' \<Longrightarrow> steps L c c'"
  by (induction ls arbitrary: c)
    (auto split: option.splits dest: exec_label_sound intro: rtranclp_trans)

section \<open>The worker loop in terms of steps\<close>

lemma run_acts_wsteps:
  assumes "run_acts L rid now xs (c_world c) = (Inr (), w')" and "c_crashed c = None"
    and "i < length (c_busy c)" and "c_busy c ! i = Some (a, xs)"
  shows "\<exists>c'. (wstep L)\<^sup>*\<^sup>* c c' \<and> c_world c' = w' \<and> c_busy c' = (c_busy c)[i := Some (a, [])] \<and>
     c_crashed c' = None \<and> c_done c' = c_done c @ concat (map act_effect xs)"
  using assms
proof (induction xs arbitrary: c)
  case Nil
  from Nil.prems(4) have "(c_busy c)[i := Some (a, [])] = c_busy c" by (metis list_update_id)
  with Nil.prems show ?case by (intro exI [of _ c]) simp
next
  case (Cons x xs)
  then obtain w1 where x: "exec_act L rid now x (c_world c) = (Inr (), w1)"
    and r: "run_acts L rid now xs w1 = (Inr (), w')"
    by (auto split: prod.splits sum.splits)
  let ?c = "c\<lparr>c_world := w1, c_busy := (c_busy c)[i := Some (a, xs)],
      c_lost := c_lost c @ act_lost (lib_queue L) x (c_sys c),
      c_done := c_done c @ act_effect x\<rparr>"
  have s: "wstep L c ?c" using Cons.prems x by (intro wstep.wact) simp_all
  obtain c' where "(wstep L)\<^sup>*\<^sup>* ?c c'" "c_world c' = w'"
    "c_busy c' = (c_busy ?c)[i := Some (a, [])]" "c_crashed c' = None"
    "c_done c' = c_done ?c @ concat (map act_effect xs)"
    using Cons.IH [of ?c] r Cons.prems by auto
  with s show ?case by (intro exI [of _ c']) (auto intro: converse_rtranclp_into_rtranclp)
qed

lemma worker_visit_wsteps:
  assumes v: "worker_visit L rid now t (c_world c) = (Inr True, w')" and "c_crashed c = None"
    and i: "i < length (c_busy c)" "c_busy c ! i = None"
  shows "\<exists>c'. (wstep L)\<^sup>*\<^sup>* c c' \<and> c_world c' = w' \<and> c_busy c' = c_busy c \<and> c_crashed c' = None"
proof -
  obtain a sys' e ac w1 where t: "take_envelope (lib_queue L) t (c_sys c) = (Some a, sys')"
    and e: "store (as_heap sys') a = Some e" "as_actors sys' t = Some ac"
    and h: "Actor_handle L rid now (actor_kind ac) e ((c_world c)\<lparr>w_sys := sys'\<rparr>) = (Inr (), w1)"
    and w': "w' = w1\<lparr>w_sys := drop_envelope a (w_sys w1)\<rparr>"
    using v by (auto simp: worker_visit_def split: prod.splits option.splits sum.splits)
  let ?xs = "handler_acts (lib_json L) (actor_kind ac) (payload e)"
  let ?c = "c\<lparr>c_world := (c_world c)\<lparr>w_sys := sys'\<rparr>, c_busy := (c_busy c)[i := Some (a, ?xs)]\<rparr>"
  have s: "wstep L c ?c" using assms(2) i t e by (intro wstep.wtake)
  obtain c1 where r: "(wstep L)\<^sup>*\<^sup>* ?c c1" "c_world c1 = w1"
    "c_busy c1 = (c_busy ?c)[i := Some (a, [])]" "c_crashed c1 = None"
    using run_acts_wsteps [of L rid now ?xs ?c w1 i a] h assms(2) i
    by (auto simp: Actor_handle_actions)
  let ?c' = "c1\<lparr>c_world := (c_world c1)\<lparr>w_sys := drop_envelope a (c_sys c1)\<rparr>, c_busy := (c_busy c1)[i := None]\<rparr>"
  have "wstep L c1 ?c'" using r i by (intro wstep.wfinish) simp_all
  with s r(1) have "(wstep L)\<^sup>*\<^sup>* c ?c'"
    by (meson converse_rtranclp_into_rtranclp rtranclp.rtrancl_into_rtrancl)
  moreover have "c_busy ?c' = c_busy c" using r(3) i by (simp add: list_update_same_conv)
  ultimately show ?thesis using r w' by (intro exI [of _ ?c']) simp
qed

text \<open>When the handler throws, the same actions up to the throwing one are steps.\<close>

lemma wsteps_steps: "(wstep L)\<^sup>*\<^sup>* c c' \<Longrightarrow> steps L c c'"
  by (erule mono_rtranclp [rule_format, rotated]) (rule step.worker)

lemma steps_front: "step L c c1 \<Longrightarrow> \<exists>c'. steps L c1 c' \<and> P c' \<Longrightarrow> \<exists>c'. steps L c c' \<and> P c'"
  by (blast intro: converse_rtranclp_into_rtranclp)

lemma run_acts_throws:
  assumes "run_acts L rid now xs (c_world c) = (Inl e, w')" and "c_crashed c = None"
    and "i < length (c_busy c)" and "c_busy c ! i = Some (a, xs)"
  shows "\<exists>c'. steps L c c' \<and> c_world c' = w' \<and> c_crashed c' = Some e"
  using assms
proof (induction xs arbitrary: c)
  case Nil
  then show ?case by simp
next
  case (Cons x xs)
  obtain r w1 where x: "exec_act L rid now x (c_world c) = (r, w1)" by fastforce
  show ?case
  proof (cases r)
    case (Inl e')
    with x Cons.prems have "e' = e" "w1 = w'" by auto
    with x Inl Cons.prems have "step L c (c\<lparr>c_world := w', c_crashed := Some e\<rparr>)"
      by (intro step.worker_throws) simp_all
    then show ?thesis by (intro exI [of _ "c\<lparr>c_world := w', c_crashed := Some e\<rparr>"]) simp
  next
    case (Inr u)
    let ?c = "c\<lparr>c_world := w1, c_busy := (c_busy c)[i := Some (a, xs)],
        c_lost := c_lost c @ act_lost (lib_queue L) x (c_sys c),
        c_done := c_done c @ act_effect x\<rparr>"
    have "step L c ?c" using Cons.prems x Inr by (intro step.worker wstep.wact) simp_all
    moreover have "\<exists>c'. steps L ?c c' \<and> c_world c' = w' \<and> c_crashed c' = Some e"
      using Cons.IH [of ?c] Cons.prems x Inr by simp
    ultimately show ?thesis by (rule steps_front)
  qed
qed

lemma worker_visit_throws:
  assumes v: "worker_visit L rid now t (c_world c) = (Inl x, w')" and "c_crashed c = None"
    and i: "i < length (c_busy c)" "c_busy c ! i = None"
  shows "\<exists>c'. steps L c c' \<and> c_world c' = w' \<and> c_crashed c' = Some x"
proof -
  obtain a sys' e ac where t: "take_envelope (lib_queue L) t (c_sys c) = (Some a, sys')"
    and e: "store (as_heap sys') a = Some e" "as_actors sys' t = Some ac"
    and h: "Actor_handle L rid now (actor_kind ac) e ((c_world c)\<lparr>w_sys := sys'\<rparr>) = (Inl x, w')"
    using v by (auto simp: worker_visit_def split: prod.splits option.splits sum.splits)
  let ?xs = "handler_acts (lib_json L) (actor_kind ac) (payload e)"
  let ?c = "c\<lparr>c_world := (c_world c)\<lparr>w_sys := sys'\<rparr>, c_busy := (c_busy c)[i := Some (a, ?xs)]\<rparr>"
  have "step L c ?c" using assms(2) i t e by (intro step.worker wstep.wtake)
  moreover have "\<exists>c'. steps L ?c c' \<and> c_world c' = w' \<and> c_crashed c' = Some x"
    using run_acts_throws [of L rid now ?xs ?c x w' i a] h assms(2) i
    by (simp add: Actor_handle_actions)
  ultimately show ?thesis by (rule steps_front)
qed

section \<open>Accepted envelopes come from the dispatcher\<close>

definition from_clients :: "('q, 'd) config \<Rightarrow> bool" where
  "from_clients c \<longleftrightarrow> (\<forall>e \<in> set (c_accepted c). \<exists>sid. client_envelope sid e)"

lemma accepted_wstep: "wstep L c c' \<Longrightarrow> c_accepted c' = c_accepted c"
  by (erule wstepE) auto

lemma from_clients_steps:
  assumes "steps L c c'" and "from_clients c"
  shows "from_clients c'"
  using assms
proof (induction rule: rtranclp_induct)
  case (step c1 c2)
  from step(2) show ?case
  proof (cases rule: step.cases)
    case worker
    with step accepted_wstep show ?thesis by (fastforce simp: from_clients_def)
  next
    case (frame sid raw e ok sys')
    with step dispatch_client_envelope show ?thesis by (fastforce simp: from_clients_def)
  qed (use step in \<open>auto simp: from_clients_def\<close>)
qed

text \<open>The message a client event asks to store.\<close>

definition persist_of :: "SendMessageEvent \<Rightarrow> StoragePersistMessage" where
  "persist_of ev = \<lparr>pm_chatId = sm_chatId ev, pm_senderId = sm_senderId ev, pm_content = sm_text ev\<rparr>"

definition asks_for :: "StoragePersistMessage \<Rightarrow> ActorEnvelope \<Rightarrow> bool" where
  "asks_for p e \<longleftrightarrow> (case payload e of PSend ev \<Rightarrow> persist_of ev = p | _ \<Rightarrow> False)"

lemma count_send_effects:
  "count (send_effects J ev) (Persisted p) = (if persist_of ev = p then 1 else 0)"
  by (simp add: send_effects_def persist_of_def chat_echo_def chat_incoming_def)

lemma count_promised_client:
  assumes "client_envelope sid e"
  shows "count (promised_env J e) (Persisted p) = (if asks_for p e then 1 else 0)"
  using assms by (cases "payload e")
    (auto simp: client_envelope_def asks_for_def count_send_effects)

lemma count_promised_list:
  assumes "\<forall>e \<in> set es. \<exists>sid. client_envelope sid e"
  shows "count (promised_list J es) (Persisted p) = length (filter (asks_for p) es)"
  using assms by (induction es) (auto simp: count_promised_client)

section \<open>Work is bounded by what was accepted\<close>

lemma weight_le: "payload_weight t p \<le> 20"
  by (cases t; cases p) simp_all

lemma work_step:
  assumes Q: "lockfree_queue (lib_queue L) cont nodes" and "step L c c'" and inv: "run_inv L cont c"
    and le: "work cont c \<le> 20 * length (c_accepted c)"
  shows "work cont c' \<le> 20 * length (c_accepted c')"
  using assms(2)
proof (cases rule: step.cases)
  case worker
  with work_wstep [OF Q _ inv] accepted_wstep le show ?thesis by fastforce
next
  case (worker_throws i a x xs rid now e w')
  have "w_sys w' = c_sys c"
    using exec_act_sys [OF worker_throws(5)] worker_throws(5) by (cases x) simp_all
  with le worker_throws(1) show ?thesis by (simp add: work_def)
next
  case (frame sid raw e ok sys')
  from inv have wf: "sys_wf cont (c_sys c)" by (simp add: run_inv_def)
  from le weight_le [of "destination e" "payload e"] mset_inboxes_post [OF Q wf frame(4)] frame(1)
  show ?thesis by (cases ok) (simp_all add: work_def sum_list_mset)
qed (use le in \<open>simp_all add: work_def\<close>)

lemma work_reachable:
  assumes Q: "lockfree_queue (lib_queue L) cont nodes" and "steps L (init_config L cap n d) c"
  shows "work cont c \<le> 20 * length (c_accepted c)"
  using assms(2)
proof (induction rule: rtranclp_induct)
  case base
  have "all_inboxes cont (c_sys (init_config L cap n d)) = []"
    by (simp add: all_inboxes_def inbox_def init_config_def queued_start queued_server [OF Q])
  moreover have "sum_list (map busy_weight (replicate n None)) = 0"
    by (induction n) (simp_all add: busy_weight_def)
  ultimately show ?case by (simp add: work_def) (simp add: init_config_def)
next
  case (step c1 c2)
  then show ?case using work_step [OF Q step(2) run_inv_reachable [OF Q step(1) Q]] by blast
qed

lemma busy_length_steps: "steps L c c' \<Longrightarrow> length (c_busy c') = length (c_busy c)"
proof (induction rule: rtranclp_induct)
  case (step c1 c2)
  from step(2) have "length (c_busy c2) = length (c_busy c1)"
    by (cases rule: step.cases) (auto dest: busy_length_wstep)
  with step show ?case by simp
qed simp

lemma pending_quiescent:
  assumes "quiescent cont c"
  shows "pending J cont c = {#}"
proof -
  from assms have "c_busy c = replicate (length (c_busy c)) None"
    by (auto simp: quiescent_def intro: replicate_eqI)
  then have "promised_busy J (c_busy c) = {#}" by (metis promised_busy_idle)
  with assms show ?thesis by (simp add: pending_def quiescent_def all_inboxes_def)
qed

lemma quiescentI:
  assumes "c_busy c = replicate n None" and "map (inbox cont (c_sys c)) [session, chat, message, storage] = [[], [], [], []]"
  shows "quiescent cont c"
proof -
  have "inbox cont (c_sys c) t = []" for t using assms(2) by (cases t) simp_all
  with assms(1) show ?thesis by (simp add: quiescent_def)
qed

section \<open>Routing\<close>

text \<open>
  The payloads for which each actor's handler has a case. \<open>MessageActor::handle\<close> has none for the
  read receipts that the dispatcher sends to it.
\<close>

fun addressed :: "ActorType \<Rightarrow> ActorPayload \<Rightarrow> bool" where
  "addressed session (PAuth _) = True"
| "addressed session (POutgoing _) = True"
| "addressed chat (PSend _) = True"
| "addressed message (PSend _) = True"
| "addressed message (PTyping _) = True"
| "addressed storage (PPersist _) = True"
| "addressed _ _ = False"

abbreviation addressed_env :: "ActorEnvelope \<Rightarrow> bool" where
  "addressed_env e \<equiv> addressed (destination e) (payload e)"

definition read_receipt :: "ActorEnvelope \<Rightarrow> bool" where
  "read_receipt e \<longleftrightarrow> destination e = message \<and> (\<exists>r. payload e = PRead r)"

abbreviation expected_env :: "ActorEnvelope \<Rightarrow> bool" where
  "expected_env e \<equiv> addressed_env e \<or> read_receipt e"

fun act_addressed :: "act \<Rightarrow> bool" where
  "act_addressed (APost e) = expected_env e"
| "act_addressed _ = True"

definition all_addressed :: "('q \<Rightarrow> addr list) \<Rightarrow> ('q, 'd) config \<Rightarrow> bool" where
  "all_addressed cont c \<longleftrightarrow>
     (\<forall>e \<in># mset (all_inboxes cont (c_sys c)). expected_env e) \<and>
     (\<forall>a xs. Some (a, xs) \<in> set (c_busy c) \<longrightarrow> (\<forall>x \<in> set xs. act_addressed x))"

lemma handler_addressed: "x \<in> set (handler_acts J k p) \<Longrightarrow> act_addressed x"
  by (cases k; cases p)
    (auto simp: chat_acts_def chat_persist_def chat_echo_def chat_incoming_def message_forward_def
      split: if_splits)

lemma set_update_Some: "Some y \<in> set (bs[i := b]) \<Longrightarrow> b = Some y \<or> Some y \<in> set bs"
  using set_update_subset_insert [of bs i b] by auto

lemma all_addressed_wstep:
  assumes Q: "lockfree_queue (lib_queue L) cont nodes" and "wstep L c c'"
    and inv: "run_inv L cont c" and ok: "all_addressed cont c"
  shows "all_addressed cont c'"
  using assms(2)
proof (cases rule: wstep.cases)
  case (wtake i t a sys' e ac)
  from inv have wf: "sys_wf cont (c_sys c)" by (simp add: run_inv_def)
  from mset_inboxes_take(1) [OF Q wf wtake(5,6)] ok wtake(1) show ?thesis
    by (fastforce simp: all_addressed_def dest!: set_update_Some dest: handler_addressed)
next
  case (wact i a x xs rid now w')
  from inv have wf: "sys_wf cont (c_sys c)" by (simp add: run_inv_def)
  have "Some (a, x # xs) \<in> set (c_busy c)" using wact(3,4) by (metis nth_mem)
  with ok have x: "act_addressed x" and xs: "\<forall>y \<in> set xs. act_addressed y"
    by (auto simp: all_addressed_def)
  have "\<forall>e \<in># mset (all_inboxes cont (w_sys w')). expected_env e"
  proof (cases x)
    case (APost e)
    obtain b sys' where p: "post (lib_queue L) e (c_sys c) = (b, sys')" by fastforce
    with APost mset_inboxes_post [OF Q wf p] exec_act_sys [OF wact(5)] ok x show ?thesis
      by (auto simp: all_addressed_def)
  qed (use exec_act_sys [OF wact(5)] ok in \<open>auto simp: all_addressed_def\<close>)
  with ok xs wact(1) show ?thesis
    by (fastforce simp: all_addressed_def dest!: set_update_Some)
next
  case (wfinish i a)
  from inv have held: "held_ok cont (c_sys c) (c_busy c)" by (simp add: run_inv_def)
  have "all_inboxes cont (drop_envelope a (c_sys c)) = all_inboxes cont (c_sys c)"
    using held_okD(2) [OF held wfinish(3,4)] by (intro all_inboxes_cong inbox_drop) blast
  with ok wfinish(1) show ?thesis by (fastforce simp: all_addressed_def dest!: set_update_Some)
qed

lemma client_addressed: "client_envelope sid e \<Longrightarrow> expected_env e"
  by (cases "payload e") (auto simp: client_envelope_def read_receipt_def)

lemma all_addressed_step:
  assumes Q: "lockfree_queue (lib_queue L) cont nodes" and "step L c c'"
    and inv: "run_inv L cont c" and ok: "all_addressed cont c"
  shows "all_addressed cont c'"
  using assms(2)
proof (cases rule: step.cases)
  case worker
  then show ?thesis using all_addressed_wstep [OF Q _ inv ok] by blast
next
  case (worker_throws i a x xs rid now e w')
  have "w_sys w' = c_sys c"
    using exec_act_sys [OF worker_throws(5)] worker_throws(5) by (cases x) simp_all
  with ok worker_throws(1) show ?thesis by (simp add: all_addressed_def)
next
  case (frame sid raw e b sys')
  from inv have wf: "sys_wf cont (c_sys c)" by (simp add: run_inv_def)
  from mset_inboxes_post [OF Q wf frame(4)] ok client_addressed [OF dispatch_client_envelope [OF frame(3)]]
    frame(1) show ?thesis
    by (auto simp: all_addressed_def split: if_splits)
qed (use ok in \<open>simp_all add: all_addressed_def\<close>)

lemma all_addressed_steps:
  assumes "lockfree_queue (lib_queue L) cont nodes" and "steps L (init_config L cap n d) c"
  shows "all_addressed cont c"
  using assms(2)
proof (induction rule: rtranclp_induct)
  case base
  have "all_inboxes cont (c_sys (init_config L cap n d)) = []"
    by (simp add: all_inboxes_def inbox_def init_config_def queued_start queued_server [OF assms(1)])
  then show ?case by (simp add: all_addressed_def) (simp add: init_config_def)
next
  case (step c1 c2)
  then show ?case
    using all_addressed_step [OF assms(1) step(2) run_inv_reachable [OF assms(1) step(1) assms(1)]]
    by blast
qed

section \<open>One worker keeps the order\<close>

text \<open>The messages to store that are still travelling, by the station they have reached.\<close>

fun travelling :: "ActorType \<Rightarrow> ActorPayload \<Rightarrow> StoragePersistMessage list" where
  "travelling storage (PPersist p) = [p]"
| "travelling chat (PSend ev) = [persist_of ev]"
| "travelling message (PSend ev) = [persist_of ev]"
| "travelling _ _ = []"

definition in_box :: "('q \<Rightarrow> addr list) \<Rightarrow> 'q actor_system \<Rightarrow> ActorType \<Rightarrow> StoragePersistMessage list" where
  "in_box cont sys t = concat (map (\<lambda>e. travelling t (payload e)) (inbox cont sys t))"

fun act_to :: "ActorType \<Rightarrow> act \<Rightarrow> StoragePersistMessage list" where
  "act_to t (APost e) = (if destination e = t then travelling t (payload e) else [])"
| "act_to t _ = []"

fun act_now :: "act \<Rightarrow> StoragePersistMessage list" where
  "act_now (APersist p) = [p]"
| "act_now _ = []"

definition acts_to :: "ActorType \<Rightarrow> act list \<Rightarrow> StoragePersistMessage list" where
  "acts_to t xs = concat (map (act_to t) xs)"

definition acts_now :: "act list \<Rightarrow> StoragePersistMessage list" where
  "acts_now xs = concat (map act_now xs)"

definition persisted :: "effect list \<Rightarrow> StoragePersistMessage list" where
  "persisted es = concat (map (\<lambda>x. case x of Persisted p \<Rightarrow> [p] | Handed _ \<Rightarrow> []) es)"

definition asked :: "ActorEnvelope list \<Rightarrow> StoragePersistMessage list" where
  "asked es = concat (map (\<lambda>e. act_to message (APost e)) es)"

definition left_acts :: "(addr \<times> act list) option \<Rightarrow> act list" where
  "left_acts b = (case b of None \<Rightarrow> [] | Some (a, xs) \<Rightarrow> xs)"

definition route_seq :: "('q \<Rightarrow> addr list) \<Rightarrow> ('q, 'd) config \<Rightarrow> act list \<Rightarrow> StoragePersistMessage list" where
  "route_seq cont c xs =
     persisted (c_done c) @ acts_now xs @ in_box cont (c_sys c) storage @ acts_to storage xs @
     in_box cont (c_sys c) chat @ acts_to chat xs @ in_box cont (c_sys c) message"

definition in_order :: "('q \<Rightarrow> addr list) \<Rightarrow> ('q, 'd) config \<Rightarrow> bool" where
  "in_order cont c \<longleftrightarrow>
     (\<exists>b. c_busy c = [b] \<and> subseq (route_seq cont c (left_acts b)) (asked (c_accepted c)) \<and>
       acts_to message (left_acts b) = [])"

lemma order_simps [simp]:
  "acts_to t [] = []" "acts_to t (x # xs) = act_to t x @ acts_to t xs"
  "acts_now [] = []" "acts_now (x # xs) = act_now x @ acts_now xs"
  "persisted [] = []" "persisted (es @ es') = persisted es @ persisted es'"
  "asked [] = []" "asked (fs @ fs') = asked fs @ asked fs'"
  "left_acts None = []" "left_acts (Some (a, xs)) = xs"
  by (simp_all add: acts_to_def acts_now_def persisted_def asked_def left_acts_def)

lemma persisted_act: "persisted (act_effect x) = act_now x"
  by (cases x) (simp_all add: persisted_def)

text \<open>Taking an envelope turns what it carries into the handler's remaining actions.\<close>

lemma handler_travelling:
  "acts_now (handler_acts J (server_kind t) p) = (if t = storage then travelling t p else [])"
  "acts_to storage (handler_acts J (server_kind t) p) = (if t = chat then travelling t p else [])"
  "acts_to chat (handler_acts J (server_kind t) p) = (if t = message then travelling t p else [])"
  by (cases t; cases p;
      simp add: chat_acts_def chat_persist_def chat_echo_def chat_incoming_def message_forward_def
        persist_of_def)+

lemma in_box_post:
  assumes "lockfree_queue Q cont nodes" and "sys_wf cont sys" and "post Q e sys = (ok, sys')"
  shows "in_box cont sys' t = in_box cont sys t @ (if ok then act_to t (APost e) else [])"
  by (simp add: in_box_def inbox_post [OF assms])

lemma in_box_take:
  assumes "lockfree_queue Q cont nodes" and "sys_wf cont sys"
    and "take_envelope Q t sys = (Some a, sys')" and "store (as_heap sys') a = Some e"
  shows "in_box cont sys t' = (if t' = t then travelling t (payload e) else []) @ in_box cont sys' t'"
  using take_Some(1) [OF assms(1-3)] take_Some(2) [OF assms(1-3), of t'] assms(4)
  by (auto simp: in_box_def)

lemma route_seq_post:
  assumes "lockfree_queue Q cont nodes" and "sys_wf cont (c_sys c)"
    and "post Q e (c_sys c) = (ok, sys')" and "act_to message (APost e) = []"
  shows "subseq (route_seq cont (c\<lparr>c_world := (c_world c)\<lparr>w_sys := sys'\<rparr>\<rparr>) xs)
                (route_seq cont c (APost e # xs))"
  using assms(4)
  by (cases ok; cases "destination e")
    (auto simp: route_seq_def in_box_post [OF assms(1-3)] subseq_append' intro: list_emb_append2)

lemma in_orderI:
  assumes "c_busy c' = [b']" and "subseq (route_seq cont c' (left_acts b')) (route_seq cont c xs)"
    and "subseq (route_seq cont c xs) (asked (c_accepted c))" and "c_accepted c' = c_accepted c"
    and "acts_to message (left_acts b') = []"
  shows "in_order cont c'"
  using assms subseq_order.trans unfolding in_order_def by metis

text \<open>Taking an envelope changes nothing in the sequence: its message moves into the actions.\<close>

lemma route_seq_take:
  assumes Q: "lockfree_queue (lib_queue L) cont nodes" and wf: "sys_wf cont (c_sys c)"
    and t: "take_envelope (lib_queue L) t (c_sys c) = (Some a, sys')" "store (as_heap sys') a = Some e"
    and c': "c_sys c' = sys'" "c_done c' = c_done c"
  shows "route_seq cont c' (handler_acts (lib_json L) (server_kind t) (payload e)) = route_seq cont c []"
  using in_box_take [OF Q wf t] by (simp add: route_seq_def c' handler_travelling)

lemma handler_not_to_message: "acts_to message (handler_acts J (server_kind t) p) = []"
  by (cases t; cases p) (auto simp: chat_acts_def chat_persist_def chat_echo_def
      chat_incoming_def message_forward_def)

lemma in_order_wstep:
  assumes Q: "lockfree_queue (lib_queue L) cont nodes" and "wstep L c c'"
    and inv: "run_inv L cont c" and ok: "in_order cont c"
  shows "in_order cont c'"
proof -
  from inv have wf: "sys_wf cont (c_sys c)" and reg: "registered (c_sys c)"
    and held: "held_ok cont (c_sys c) (c_busy c)" by (auto simp: run_inv_def)
  from ok obtain b where b: "c_busy c = [b]" and sub: "subseq (route_seq cont c (left_acts b)) (asked (c_accepted c))"
    and nm: "acts_to message (left_acts b) = []" by (auto simp: in_order_def)
  from assms(2) show ?thesis
  proof (cases rule: wstep.cases)
    case (wtake i t a sys' e ac)
    let ?xs = "handler_acts (lib_json L) (server_kind t) (payload e)"
    have "registered sys'" using registered_frame [OF frame_take(4) [OF wtake(5)]] reg by simp
    then have k: "actor_kind ac = server_kind t" using wtake(7) by (rule registered_kind)
    have "b = None" using wtake(3,4) b by simp
    moreover have "route_seq cont c' ?xs = route_seq cont c []"
      using wtake(1) by (intro route_seq_take [OF Q wf wtake(5,6)]) simp_all
    ultimately show ?thesis
      using wtake(1,3) k b sub handler_not_to_message
      by (intro in_orderI [of c' "Some (a, ?xs)" cont c "[]"]) simp_all
  next
    case (wact i a x xs rid now w')
    have i: "b = Some (a, x # xs)" using wact(3,4) b by simp
    have "subseq (route_seq cont c' xs) (route_seq cont c (x # xs))"
    proof (cases x)
      case (APost e)
      obtain acc sys' where p: "post (lib_queue L) e (c_sys c) = (acc, sys')" by fastforce
      have "route_seq cont c' xs = route_seq cont (c\<lparr>c_world := (c_world c)\<lparr>w_sys := sys'\<rparr>\<rparr>) xs"
        using exec_act_sys [OF wact(5)] APost p by (simp add: route_seq_def wact(1))
      then show ?thesis using route_seq_post [OF Q wf p, of xs] nm i APost by simp
    qed (use exec_act_sys [OF wact(5)] in \<open>simp_all add: route_seq_def wact(1) persisted_def\<close>)
    then show ?thesis
      using wact(1,3) b i sub nm by (intro in_orderI [of c' "Some (a, xs)" cont c "x # xs"]) simp_all
  next
    case (wfinish i a)
    have "in_box cont (drop_envelope a (c_sys c)) t = in_box cont (c_sys c) t" for t
      using held_okD(2) [OF held wfinish(3,4)] inbox_drop [of a cont "c_sys c" t]
      by (simp add: in_box_def)
    then show ?thesis
      using wfinish(1,3,4) b sub
      by (intro in_orderI [of c' None cont c "[]"]) (simp_all add: route_seq_def)
  qed
qed

lemma in_order_step:
  assumes Q: "lockfree_queue (lib_queue L) cont nodes" and "step L c c'"
    and inv: "run_inv L cont c" and ok: "in_order cont c"
  shows "in_order cont c'"
  using assms(2)
proof (cases rule: step.cases)
  case worker
  then show ?thesis using in_order_wstep [OF Q _ inv ok] by blast
next
  case (worker_throws i a x xs rid now e w')
  have "w_sys w' = c_sys c"
    using exec_act_sys [OF worker_throws(5)] worker_throws(5) by (cases x) simp_all
  with ok worker_throws(1) show ?thesis by (auto simp: in_order_def route_seq_def)
next
  case (frame sid raw e acc sys')
  from inv have wf: "sys_wf cont (c_sys c)" by (simp add: run_inv_def)
  have "act_to storage (APost e) = []" "act_to chat (APost e) = []"
    using dispatch_client_envelope [OF frame(3)]
    by (cases "payload e"; auto simp: client_envelope_def)+
  then have "route_seq cont c' xs = route_seq cont c xs @ (if acc then act_to message (APost e) else [])" for xs
    by (simp add: route_seq_def frame(1) in_box_post [OF Q wf frame(4)])
  with ok frame(1) show ?thesis
    by (auto simp: in_order_def asked_def intro: list_emb_append_mono)
qed (use ok in \<open>auto simp: in_order_def route_seq_def\<close>)

lemma in_order_steps:
  assumes "lockfree_queue (lib_queue L) cont nodes" and "steps L (init_config L cap 1 d) c"
  shows "in_order cont c"
  using assms(2)
proof (induction rule: rtranclp_induct)
  case base
  have "inbox cont (c_sys (init_config L cap 1 d)) t = []" for t
    by (simp add: inbox_def init_config_def queued_start queued_server [OF assms(1)])
  then show ?case
    by (simp add: in_order_def route_seq_def in_box_def) (simp add: init_config_def)
next
  case (step c1 c2)
  then show ?case
    using in_order_step [OF assms(1) step(2) run_inv_reachable [OF assms(1) step(1) assms(1)]]
    by blast
qed

lemma persisted_in_order:
  assumes "lockfree_queue (lib_queue L) cont nodes" and "steps L (init_config L cap 1 d) c"
  shows "subseq (persisted (c_done c)) (asked (c_accepted c))"
proof -
  from in_order_steps [OF assms] obtain xs where "subseq (route_seq cont c xs) (asked (c_accepted c))"
    by (auto simp: in_order_def)
  moreover have "subseq (persisted (c_done c)) (route_seq cont c xs)"
    by (rule prefix_imp_subseq) (simp add: route_seq_def)
  ultimately show ?thesis using subseq_order.trans by blast
qed

end
