(* ===== verification/Guarantees.thy ===== *)
theory Guarantees
  imports Pipeline
begin

text \<open>
  The guarantees of the actor runtime as properties of all reachable configurations of
  \<open>Actor_Run\<close>, each with a run of a concrete server as its witness. The concrete server uses
  a list as the lock-free queue, a table of texts as the JSON parser, hexadecimal numerals as
  UUIDs and a list as the database.
\<close>

section \<open>A concrete server\<close>

definition demo_frame :: "string \<Rightarrow> string \<Rightarrow> json" where
  "demo_frame chatId text =
     JObject [(''chat_id'', JString chatId), (''payload'', JObject [(''text'', JString text)]),
              (''sender_id'', JString ''2''), (''type'', JString ''send_message'')]"

definition demo_libs :: "(addr list \<times> nat, stored_message list) libs" where
  "demo_libs =
     \<lparr>lib_queue = list_queue,
      lib_json = table_json [(''m1'', demo_frame ''1'' ''a''), (''m2'', demo_frame ''1'' ''b''),
                             (''bad'', demo_frame ''?'' ''c'')],
      lib_uuid = hex_uuid, lib_repo = memory_repo\<rparr>"

definition demo_init :: "nat \<Rightarrow> (addr list \<times> nat, stored_message list) config" where
  "demo_init n = init_config demo_libs 4 n []"

text \<open>Worker \<open>i\<close> takes an envelope from \<open>t\<close> and runs its handler of \<open>k\<close> actions to the end.\<close>

definition visit :: "nat \<Rightarrow> ActorType \<Rightarrow> nat \<Rightarrow> label list" where
  "visit i t k = LTake i t # replicate k (LAct i 9 100) @ [LFinish i]"

definition demo_persist :: "string \<Rightarrow> StoragePersistMessage" where
  "demo_persist text = \<lparr>pm_chatId = ''1'', pm_senderId = ''2'', pm_content = text\<rparr>"

lemma demo_queue: "lockfree_queue (lib_queue demo_libs) fst snd"
  by (simp add: demo_libs_def list_queue_ok)

text \<open>Concrete runs are evaluated on the executable steps and lifted to the step relation.\<close>

lemma run_obtain:
  assumes "map_option f (exec_labels L ls c0) = Some v"
  obtains c where "steps L c0 c" and "f c = v"
proof (cases "exec_labels L ls c0")
  case None
  with assms show thesis by simp
next
  case (Some c)
  with assms that [OF exec_labels_sound [OF Some]] show thesis by simp
qed

definition run_message :: "label list" where
  "run_message = LFrame ''7'' ''m1'' # visit 0 message 1 @ visit 0 chat 2 @ visit 0 session 1 @ visit 0 storage 1"

section \<open>Properties\<close>

text \<open>
  C3. Conservation. In every reachable configuration, whatever the interleaving of workers and
  network threads, the effects (rows to store, texts to hand to a session) promised by the
  envelopes the dispatcher got accepted are exactly the effects done, plus those still pending in
  a mailbox or in a running handler, plus those of the envelopes a full mailbox refused: nothing
  is duplicated and nothing disappears in any other way.
\<close>

theorem pipeline_conservation:
  assumes "lockfree_queue (lib_queue L) cont nodes" and "steps L (init_config L cap n d) c"
  shows "mset (c_done c) + pending (lib_json L) cont c + promised_list (lib_json L) (c_lost c) =
         promised_list (lib_json L) (c_accepted c)"
  using run_inv_reachable [OF assms(1,2,1)] by (simp add: run_inv_def conserved_def)

theorem pipeline_conservation_witness:
  "\<exists>c. steps demo_libs (demo_init 1) c \<and> persisted (c_done c) = [] \<and> asked (c_accepted c) = [demo_persist ''a''] \<and>
     pending (lib_json demo_libs) fst c = promised_list (lib_json demo_libs) (c_accepted c)"
proof -
  have "map_option (\<lambda>c. (c_done c, asked (c_accepted c), c_lost c))
      (exec_labels demo_libs (LFrame ''7'' ''m1'' # visit 0 message 1) (demo_init 1)) =
      Some ([], [demo_persist ''a''], [])" by code_simp
  then obtain c where c: "steps demo_libs (demo_init 1) c"
    "(c_done c, asked (c_accepted c), c_lost c) = ([], [demo_persist ''a''], [])"
    by (rule run_obtain)
  from pipeline_conservation [OF demo_queue, of 4 1 "[]" c] c show ?thesis
    by (intro exI [of _ c]) (simp add: demo_init_def)
qed

text \<open>
  C4. A message is stored at most once for every accepted \<open>send_message\<close> frame that asks for it,
  and exactly once when the system has come to rest and no mailbox was full on the way.
\<close>

theorem persisted_exactly_once:
  assumes "lockfree_queue (lib_queue L) cont nodes" and "steps L (init_config L cap n d) c"
  shows "count (mset (c_done c)) (Persisted p) \<le> length (filter (asks_for p) (c_accepted c)) \<and>
    (quiescent cont c \<longrightarrow> c_lost c = [] \<longrightarrow>
       count (mset (c_done c)) (Persisted p) = length (filter (asks_for p) (c_accepted c)))"
proof -
  have "from_clients c"
    by (rule from_clients_steps [OF assms(2)]) (simp add: from_clients_def init_config_def)
  then have "count (promised_list (lib_json L) (c_accepted c)) (Persisted p) =
      length (filter (asks_for p) (c_accepted c))"
    by (intro count_promised_list) (simp add: from_clients_def)
  moreover have "conserved (lib_json L) cont c"
    using run_inv_reachable [OF assms(1,2,1)] by (simp add: run_inv_def)
  ultimately show ?thesis
    using pending_quiescent [of cont c] by (auto simp: conserved_def dest!: sym [of "_ + _"])
qed

theorem persisted_exactly_once_witness:
  "\<exists>c. steps demo_libs (demo_init 1) c \<and> quiescent fst c \<and> c_lost c = [] \<and>
     length (filter (asks_for (demo_persist ''a'')) (c_accepted c)) = 1 \<and>
     count (mset (c_done c)) (Persisted (demo_persist ''a'')) = 1"
proof -
  have "map_option (\<lambda>c. (c_busy c, map (inbox fst (c_sys c)) [session, chat, message, storage],
          c_lost c, length (filter (asks_for (demo_persist ''a'')) (c_accepted c))))
      (exec_labels demo_libs run_message (demo_init 1)) =
      Some (replicate 1 None, [[], [], [], []], [], 1)" by code_simp
  then obtain c where s: "steps demo_libs (demo_init 1) c"
    and c: "(c_busy c, map (inbox fst (c_sys c)) [session, chat, message, storage], c_lost c,
      length (filter (asks_for (demo_persist ''a'')) (c_accepted c))) =
      (replicate 1 None, [[], [], [], []], [], 1)"
    by (rule run_obtain)
  then have q: "quiescent fst c" by (intro quiescentI [of c 1]) simp_all
  from persisted_exactly_once [OF demo_queue, of 4 1 "[]" c "demo_persist ''a''"] s q c
  show ?thesis by (intro exI [of _ c]) (simp add: demo_init_def)
qed

text \<open>
  C9. The worker threads cannot run forever on what they were given: from any reachable
  configuration every sequence of worker steps, in every interleaving, is at most twenty times as
  long as the list of accepted envelopes.
\<close>

theorem worker_steps_bounded:
  assumes "lockfree_queue (lib_queue L) cont nodes" and "steps L (init_config L cap n d) c"
    and "(wstep L ^^ k) c c'"
  shows "k \<le> 20 * length (c_accepted c)"
  using work_wsteps [OF assms(1,3) run_inv_reachable [OF assms(1,2,1)]] work_reachable [OF assms(1,2)]
  by simp

theorem worker_steps_bounded_witness:
  "\<exists>c c'. steps demo_libs (demo_init 1) c \<and> (wstep demo_libs ^^ 1) c c' \<and>
     1 \<le> 20 * length (c_accepted c)"
proof -
  have "map_option (\<lambda>c. exec_label demo_libs (LTake 0 message) c = None)
      (exec_labels demo_libs [LFrame ''7'' ''m1''] (demo_init 1)) = Some False"
    by code_simp
  then obtain c where c: "steps demo_libs (demo_init 1) c"
    and "(exec_label demo_libs (LTake 0 message) c = None) = False"
    by (rule run_obtain)
  then obtain c' where "exec_label demo_libs (LTake 0 message) c = Some c'" by auto
  then have "wstep demo_libs c c'" by (rule exec_take_wstep)
  then have w: "(wstep demo_libs ^^ 1) c c'" by (simp only: relpowp_1)
  from worker_steps_bounded [OF demo_queue, of 4 1 "[]" c 1 c'] c w show ?thesis
    by (intro exI [of _ c] exI [of _ c']) (simp add: demo_init_def)
qed

text \<open>
  C8. Liveness: as long as no thread has died, the workers by themselves can bring every reachable
  configuration to rest, and wherever they come to a stop, however they were scheduled, they have:
  all mailboxes are empty, no worker is busy, and every promised effect of the accepted frames is
  done or lost to a full mailbox. The only other end is a worker whose handler stands before a
  storage call or a delivery that throws.
\<close>

theorem pipeline_settles:
  assumes "lockfree_queue (lib_queue L) cont nodes" and "steps L (init_config L cap n d) c"
    and "c_crashed c = None" and "0 < n"
  shows "(\<exists>c'. (wstep L)\<^sup>*\<^sup>* c c' \<and> (quiescent cont c' \<or> worker_stuck L c')) \<and>
    (\<forall>c'. (wstep L)\<^sup>*\<^sup>* c c' \<longrightarrow> (\<forall>c''. \<not> wstep L c' c'') \<longrightarrow> quiescent cont c' \<or> worker_stuck L c') \<and>
    (\<forall>c'. (wstep L)\<^sup>*\<^sup>* c c' \<longrightarrow> quiescent cont c' \<longrightarrow> c_accepted c' = c_accepted c \<and>
      mset (c_done c') + promised_list (lib_json L) (c_lost c') = promised_list (lib_json L) (c_accepted c))"
proof (intro conjI allI impI)
  have n: "c_busy c \<noteq> []" using busy_length_steps [OF assms(2)] assms(4) by (auto simp: init_config_def)
  from settles [OF assms(1) run_inv_reachable [OF assms(1,2,1)] assms(3) n]
  show "\<exists>c'. (wstep L)\<^sup>*\<^sup>* c c' \<and> (quiescent cont c' \<or> worker_stuck L c')" .
  fix c'
  assume w: "(wstep L)\<^sup>*\<^sup>* c c'"
  note inv = run_inv_reachable [OF assms(1) rtranclp_trans [OF assms(2) wsteps_steps [OF w]] assms(1)]
  have same: "c_accepted c' = c_accepted c" "c_crashed c' = c_crashed c" "length (c_busy c') = length (c_busy c)"
    using w by (induction) (simp_all add: accepted_wstep crashed_wstep busy_length_wstep)
  show "quiescent cont c' \<or> worker_stuck L c'" if "\<forall>c''. \<not> wstep L c' c''"
    using progress [OF assms(1) inv] that same(2,3) assms(3) n by (metis length_0_conv)
  assume q: "quiescent cont c'"
  show "c_accepted c' = c_accepted c" by (rule same)
  from inv have "conserved (lib_json L) cont c'" by (simp add: run_inv_def)
  with same(1) pending_quiescent [OF q]
  show "mset (c_done c') + promised_list (lib_json L) (c_lost c') = promised_list (lib_json L) (c_accepted c)"
    by (simp add: conserved_def)
qed

theorem pipeline_settles_witness:
  "\<exists>c c'. steps demo_libs (demo_init 1) c \<and> asked (c_accepted c) = [demo_persist ''a''] \<and>
    (wstep demo_libs)\<^sup>*\<^sup>* c c' \<and> (quiescent fst c' \<or> worker_stuck demo_libs c')"
proof -
  have "map_option (\<lambda>c. (asked (c_accepted c), c_crashed c))
      (exec_labels demo_libs [LFrame ''7'' ''m1''] (demo_init 1)) = Some ([demo_persist ''a''], None)"
    by code_simp
  then obtain c where c: "steps demo_libs (demo_init 1) c"
    "(asked (c_accepted c), c_crashed c) = ([demo_persist ''a''], None)"
    by (rule run_obtain)
  from pipeline_settles [OF demo_queue, of 4 1 "[]" c] c show ?thesis
    by (auto simp: demo_init_def)
qed

text \<open>
  C5. Ownership. While a worker handles an envelope the envelope is allocated, is in no mailbox and
  is held by no other worker; what is in a mailbox is allocated and queued once. So no envelope is
  handled twice, freed twice or used after it was freed.
\<close>

theorem envelope_ownership:
  assumes "lockfree_queue (lib_queue L) cont nodes" and "steps L (init_config L cap n d) c"
  shows "(\<forall>t. distinct (queued cont (c_sys c) t) \<and> set (queued cont (c_sys c) t) \<subseteq> live (as_heap (c_sys c))) \<and>
    (\<forall>i a xs. i < length (c_busy c) \<longrightarrow> c_busy c ! i = Some (a, xs) \<longrightarrow>
       a \<in> live (as_heap (c_sys c)) \<and> (\<forall>t. a \<notin> set (queued cont (c_sys c) t)) \<and>
       (\<forall>j ys. j < length (c_busy c) \<longrightarrow> c_busy c ! j = Some (a, ys) \<longrightarrow> j = i))"
proof -
  from run_inv_reachable [OF assms(1,2,1)] have wf: "sys_wf cont (c_sys c)"
    and held: "held_ok cont (c_sys c) (c_busy c)" by (auto simp: run_inv_def)
  from wf queued_live have "\<forall>t. distinct (queued cont (c_sys c) t) \<and> set (queued cont (c_sys c) t) \<subseteq> live (as_heap (c_sys c))"
    by (auto simp: sys_wf_def)
  with held show ?thesis unfolding held_ok_def by blast
qed

theorem envelope_ownership_witness:
  "\<exists>c. steps demo_libs (demo_init 2) c \<and> map (map_option fst) (c_busy c) = [Some 0, Some 1] \<and>
     0 \<in> live (as_heap (c_sys c)) \<and> 1 \<in> live (as_heap (c_sys c))"
proof -
  have "map_option (\<lambda>c. c_busy c)
      (exec_labels demo_libs [LFrame ''7'' ''m1'', LFrame ''8'' ''m2'', LTake 0 message, LTake 1 message] (demo_init 2)) =
      Some [Some (0, [APost (message_forward \<lparr>sm_sessionId = ''7'', sm_chatId = ''1'', sm_senderId = ''2'', sm_recipientId = [], sm_text = ''a''\<rparr>)]),
            Some (1, [APost (message_forward \<lparr>sm_sessionId = ''8'', sm_chatId = ''1'', sm_senderId = ''2'', sm_recipientId = [], sm_text = ''b''\<rparr>)])]"
    by code_simp
  then obtain c where c: "steps demo_libs (demo_init 2) c" and b: "c_busy c =
      [Some (0, [APost (message_forward \<lparr>sm_sessionId = ''7'', sm_chatId = ''1'', sm_senderId = ''2'', sm_recipientId = [], sm_text = ''a''\<rparr>)]),
       Some (1, [APost (message_forward \<lparr>sm_sessionId = ''8'', sm_chatId = ''1'', sm_senderId = ''2'', sm_recipientId = [], sm_text = ''b''\<rparr>)])]"
    by (rule run_obtain)
  have "\<forall>i a xs. i < length (c_busy c) \<longrightarrow> c_busy c ! i = Some (a, xs) \<longrightarrow> a \<in> live (as_heap (c_sys c))"
    using envelope_ownership [OF demo_queue, of 4 2 "[]" c] c by (auto simp: demo_init_def)
  from this [rule_format, of 0] this [rule_format, of 1] b c show ?thesis
    by (intro exI [of _ c]) simp
qed

text \<open>
  C11. Routing. Every envelope that is ever in a mailbox is addressed to that mailbox's actor, and
  it carries a payload that this actor's handler has a case for, with one exception: a read receipt,
  which the dispatcher sends to the message actor and on which that actor's handler does nothing.
\<close>

theorem routing:
  assumes "lockfree_queue (lib_queue L) cont nodes" and "steps L (init_config L cap n d) c"
    and "e \<in> set (inbox cont (c_sys c) t)"
  shows "destination e = t \<and>
    (addressed t (payload e) \<or>
     t = message \<and> (\<exists>r. payload e = PRead r) \<and> (\<forall>sys. MessageActor_handle (lib_queue L) e sys = sys))"
proof -
  have "sys_wf cont (c_sys c)" using run_inv_reachable [OF assms(1,2,1)] by (simp add: run_inv_def)
  with assms(3) have t: "destination e = t" unfolding sys_wf_def inbox_def by fastforce
  have "e \<in># mset (all_inboxes cont (c_sys c))"
    using assms(3) by (cases t) (simp_all add: all_inboxes_def)
  with all_addressed_steps [OF assms(1,2)] have "expected_env e" by (simp add: all_addressed_def)
  with t show ?thesis by (auto simp: read_receipt_def MessageActor_handle_def)
qed

theorem routing_witness:
  "\<exists>c e. steps demo_libs (demo_init 1) c \<and> e \<in> set (inbox fst (c_sys c) storage) \<and>
     destination e = storage \<and> addressed storage (payload e)"
proof -
  have "map_option (\<lambda>c. inbox fst (c_sys c) storage)
      (exec_labels demo_libs (LFrame ''7'' ''m1'' # visit 0 message 1 @ visit 0 chat 2) (demo_init 1)) =
      Some [\<lparr>destination = storage, payload = PPersist (demo_persist ''a'')\<rparr>]"
    by code_simp
  then obtain c where c: "steps demo_libs (demo_init 1) c"
    "inbox fst (c_sys c) storage = [\<lparr>destination = storage, payload = PPersist (demo_persist ''a'')\<rparr>]"
    by (rule run_obtain)
  from routing [OF demo_queue, of 4 1 "[]" c "\<lparr>destination = storage, payload = PPersist (demo_persist ''a'')\<rparr>" storage] c
  show ?thesis by (auto simp: demo_init_def)
qed

text \<open>
  C6. With one actor thread messages are stored in the order in which the dispatcher's frames were
  accepted (those a full mailbox refused are missing, none overtakes another).
\<close>

theorem single_worker_order:
  assumes "lockfree_queue (lib_queue L) cont nodes" and "steps L (init_config L cap 1 d) c"
  shows "subseq (persisted (c_done c)) (asked (c_accepted c))"
  by (rule persisted_in_order [OF assms])

theorem single_worker_order_witness:
  "\<exists>c. steps demo_libs (demo_init 1) c \<and> persisted (c_done c) = [demo_persist ''a''] \<and>
     asked (c_accepted c) = [demo_persist ''a'', demo_persist ''b''] \<and>
     subseq [demo_persist ''a''] [demo_persist ''a'', demo_persist ''b'']"
proof -
  have "map_option (\<lambda>c. (persisted (c_done c), asked (c_accepted c)))
      (exec_labels demo_libs (run_message @ [LFrame ''7'' ''m2'']) (demo_init 1)) =
      Some ([demo_persist ''a''], [demo_persist ''a'', demo_persist ''b''])"
    by code_simp
  then obtain c where c: "steps demo_libs (demo_init 1) c"
    "(persisted (c_done c), asked (c_accepted c)) = ([demo_persist ''a''], [demo_persist ''a'', demo_persist ''b''])"
    by (rule run_obtain)
  from single_worker_order [OF demo_queue, of 4 "[]" c] c show ?thesis
    by (intro exI [of _ c]) (simp add: demo_init_def)
qed

text \<open>
  With two actor threads this order is not kept, for example in a run in which two messages of the same
  session, accepted in the order a, b, are stored in the order b, a.
\<close>

theorem two_workers_reorder:
  "\<exists>c. steps demo_libs (demo_init 2) c \<and> asked (c_accepted c) = [demo_persist ''a'', demo_persist ''b''] \<and>
     persisted (c_done c) = [demo_persist ''b'', demo_persist ''a'']"
proof -
  have "map_option (\<lambda>c. (persisted (c_done c), asked (c_accepted c)))
      (exec_labels demo_libs
        ([LFrame ''7'' ''m1'', LFrame ''7'' ''m2'', LTake 0 message] @
         visit 1 message 1 @ visit 1 chat 2 @ visit 1 storage 1 @
         [LAct 0 9 100, LFinish 0] @ visit 0 chat 2 @ visit 0 storage 1) (demo_init 2)) =
      Some ([demo_persist ''b'', demo_persist ''a''], [demo_persist ''a'', demo_persist ''b''])"
    by code_simp
  then obtain c where "steps demo_libs (demo_init 2) c"
    "(persisted (c_done c), asked (c_accepted c)) =
       ([demo_persist ''b'', demo_persist ''a''], [demo_persist ''a'', demo_persist ''b''])"
    by (rule run_obtain)
  then show ?thesis by auto
qed

text \<open>
  C10. A worker of \<open>workerLoop\<close> that visits a mailbox and finishes is a sequence of atomic worker
  steps with the same result, so every guarantee of the step semantics covers the loop as written;
  if the handler throws, the steps reach the dead configuration with that exception.
\<close>

theorem worker_visit_refines:
  assumes "worker_visit L rid now t (c_world c) = (r, w')" and "c_crashed c = None"
    and "i < length (c_busy c)" and "c_busy c ! i = None"
  shows "(r = Inr True \<longrightarrow> (\<exists>c'. (wstep L)\<^sup>*\<^sup>* c c' \<and> c_world c' = w' \<and> c_busy c' = c_busy c \<and> c_crashed c' = None)) \<and>
    (\<forall>x. r = Inl x \<longrightarrow> (\<exists>c'. steps L c c' \<and> c_world c' = w' \<and> c_crashed c' = Some x))"
  using worker_visit_wsteps [of L rid now t c w' i] worker_visit_throws [of L rid now t c _ w' i] assms
  by blast

theorem worker_visit_refines_witness:
  "\<exists>c c'. steps demo_libs (demo_init 1) c \<and> (wstep demo_libs)\<^sup>*\<^sup>* c c' \<and> c_crashed c' = None \<and>
     c_world c' = snd (worker_visit demo_libs 9 100 message (c_world c))"
proof -
  have "map_option (\<lambda>c. (fst (worker_visit demo_libs 9 100 message (c_world c)), c_crashed c, c_busy c))
      (exec_labels demo_libs [LFrame ''7'' ''m1''] (demo_init 1)) = Some (Inr True, None, [None])"
    by code_simp
  then obtain c where c: "steps demo_libs (demo_init 1) c"
    "(fst (worker_visit demo_libs 9 100 message (c_world c)), c_crashed c, c_busy c) = (Inr True, None, [None])"
    by (rule run_obtain)
  then have "worker_visit demo_libs 9 100 message (c_world c) =
      (Inr True, snd (worker_visit demo_libs 9 100 message (c_world c)))" by (simp add: prod_eq_iff)
  from worker_visit_refines [OF this, of 0] c show ?thesis by auto
qed

text \<open>
  C12. A malformed id kills the server. If the next row to store has a chat id that is not a
  UUID, the worker that visits the storage mailbox leaves its thread function with the exception of
  the generator, before anything is written; nothing on the way from the client's frame checks the
  id.
\<close>

theorem malformed_chat_id_throws:
  assumes "lockfree_queue (lib_queue L) cont nodes" and "steps L (init_config L cap n d) c"
    and "inbox cont (c_sys c) storage = \<lparr>destination = storage, payload = PPersist p\<rparr> # es"
    and "string_generator (lib_uuid L) (pm_chatId p) = Inl x"
  shows "\<exists>w'. worker_visit L rid now storage (c_world c) = (Inl x, w') \<and> w_db w' = w_db (c_world c)"
proof -
  from run_inv_reachable [OF assms(1,2,1)] have wf: "sys_wf cont (c_sys c)" and reg: "registered (c_sys c)"
    by (auto simp: run_inv_def)
  obtain r sys' where k: "take_envelope (lib_queue L) storage (c_sys c) = (r, sys')" by fastforce
  with assms(3) take_None(1) [OF assms(1)] obtain a where r: "r = Some a" by (cases r) auto
  note k = k [unfolded r]
  from take_Some(1) [OF assms(1) wf k] assms(3)
  have e: "store (as_heap sys') a = Some \<lparr>destination = storage, payload = PPersist p\<rparr>" by auto
  have "registered sys'" using registered_frame [OF frame_take(4) [OF k]] reg by simp
  then obtain ac where ac: "as_actors sys' storage = Some ac" "actor_kind ac = StorageActor"
    unfolding registered_def by (metis map_option_eq_Some server_kind.simps(4))
  show ?thesis
    using k e ac assms(4)
    by (simp add: worker_visit_def Actor_handle_def StorageActor_handle_def StorageActor_store_def)
qed

theorem malformed_chat_id_throws_witness:
  "\<exists>c w'. steps demo_libs (demo_init 1) c \<and>
     worker_visit demo_libs 9 100 storage (c_world c) = (Inl (RuntimeError ''invalid uuid string''), w')"
proof -
  let ?p = "\<lparr>pm_chatId = ''?'', pm_senderId = ''2'', pm_content = ''c''\<rparr>"
  have "map_option (\<lambda>c. inbox fst (c_sys c) storage)
      (exec_labels demo_libs (LFrame ''7'' ''bad'' # visit 0 message 1 @ visit 0 chat 2) (demo_init 1)) =
      Some [\<lparr>destination = storage, payload = PPersist ?p\<rparr>]"
    by code_simp
  then obtain c where c: "steps demo_libs (demo_init 1) c"
    "inbox fst (c_sys c) storage = [\<lparr>destination = storage, payload = PPersist ?p\<rparr>]"
    by (rule run_obtain)
  have "string_generator (lib_uuid demo_libs) (pm_chatId ?p) = Inl (RuntimeError ''invalid uuid string'')"
    by code_simp
  from malformed_chat_id_throws [OF demo_queue, of 4 1 "[]" c ?p "[]", OF _ _ this, of 9 100] c
  show ?thesis by (auto simp: demo_init_def)
qed

end
