(* ===== verification/Shutdown.thy ===== *)
theory Shutdown
  imports Guarantees
begin

text \<open>
  Envelopes at the end of the program. Every envelope is a heap cell; the runtime's invariant says
  who owns it. Here the cells that nobody owns are counted, and what is left of the heap when
  \<open>ActorSystem::~ActorSystem\<close> has run.
\<close>

section \<open>Cells without an owner\<close>

definition held_addrs :: "(addr \<times> act list) option list \<Rightarrow> addr set" where
  "held_addrs bs = {a. \<exists>xs. Some (a, xs) \<in> set bs}"

definition queued_addrs :: "('q \<Rightarrow> addr list) \<Rightarrow> 'q actor_system \<Rightarrow> addr set" where
  "queued_addrs cont sys = (\<Union>t. set (queued cont sys t))"

definition garbage :: "('q \<Rightarrow> addr list) \<Rightarrow> ('q, 'd) config \<Rightarrow> addr set" where
  "garbage cont c = live (as_heap (c_sys c)) - queued_addrs cont (c_sys c) - held_addrs (c_busy c)"

text \<open>The garbage are the envelopes that a mailbox refused, one cell for each.\<close>

definition accounted :: "('q \<Rightarrow> addr list) \<Rightarrow> ('q, 'd) config \<Rightarrow> bool" where
  "accounted cont c \<longleftrightarrow> all_active (c_sys c) \<and> finite (garbage cont c) \<and>
     card (garbage cont c) = length (c_lost c) + length (c_refused c)"

section \<open>Every step keeps the account\<close>

lemma queued_addrs_post:
  assumes "lockfree_queue Q cont nodes" and "post Q e sys = (ok, sys')"
  shows "queued_addrs cont sys' = (if ok then insert (new_addr sys) (queued_addrs cont sys) else queued_addrs cont sys)"
  by (auto simp: queued_addrs_def queued_post [OF assms] split: if_splits)

lemma queued_addrs_take:
  assumes "lockfree_queue Q cont nodes" and "take_envelope Q t sys = (Some a, sys')"
  shows "queued_addrs cont sys = insert a (queued_addrs cont sys')"
proof -
  have "set (queued cont sys t') = (if t' = t then insert a (set (queued cont sys' t')) else set (queued cont sys' t'))" for t'
    using queued_take [OF assms] by simp
  then show ?thesis by (auto simp: queued_addrs_def split: if_splits; metis)
qed

lemma held_addrs_append: "held_addrs (bs @ bs') = held_addrs bs \<union> held_addrs bs'"
  by (auto simp: held_addrs_def)

lemma held_addrs_Cons: "held_addrs (Some (a, xs) # bs) = insert a (held_addrs bs)"
  by (auto simp: held_addrs_def)

lemma held_addrs_update:
  assumes "i < length bs"
  shows "held_addrs (bs[i := Some (a, xs)]) \<union> held_addrs [bs ! i] = insert a (held_addrs bs)"
proof -
  have u: "set (bs[i := Some (a, xs)]) = insert (Some (a, xs)) (set (take i bs) \<union> set (drop (Suc i) bs))"
    using assms by (simp add: upd_conv_take_nth_drop)
  have "set bs = insert (bs ! i) (set (take i bs) \<union> set (drop (Suc i) bs))"
    by (subst id_take_nth_drop [OF assms]) simp
  with u have "set (bs[i := Some (a, xs)]) \<union> {bs ! i} = insert (Some (a, xs)) (set bs)"
    by blast
  then have "held_addrs (bs[i := Some (a, xs)] @ [bs ! i]) = held_addrs (Some (a, xs) # bs)"
    unfolding held_addrs_def set_append list.set by simp
  then show ?thesis by (simp add: held_addrs_append held_addrs_Cons)
qed

lemma garbage_post:
  assumes "lockfree_queue Q cont nodes" and "run_inv L cont c" and "all_active (c_sys c)"
    and "post Q e (c_sys c) = (ok, sys')"
    and "c_sys c' = sys'" and "held_addrs (c_busy c') = held_addrs (c_busy c)"
  shows "garbage cont c' = (if ok then garbage cont c else insert (new_addr (c_sys c)) (garbage cont c))"
    and "new_addr (c_sys c) \<notin> garbage cont c"
proof -
  from assms(2) have wf: "sys_wf cont (c_sys c)" and reg: "registered (c_sys c)"
    and held: "held_ok cont (c_sys c) (c_busy c)" by (auto simp: run_inv_def)
  have "as_actors (c_sys c) (destination e) \<noteq> None"
    using reg unfolding registered_def by (metis option.simps(3) option.simps(8))
  note l = live_post [OF assms(3) this assms(4)]
  have new: "new_addr (c_sys c) \<notin> live (as_heap (c_sys c))"
    using new_addr_none [OF wf] by (auto simp: live_def)
  then show "new_addr (c_sys c) \<notin> garbage cont c" by (simp add: garbage_def)
  have "new_addr (c_sys c) \<notin> queued_addrs cont (c_sys c)"
    using queued_fresh [OF wf] by (simp add: queued_addrs_def)
  moreover have "held_addrs (c_busy c) \<subseteq> live (as_heap (c_sys c))"
    using held_okD(1) [OF held] by (force simp: held_addrs_def in_set_conv_nth)
  ultimately show "garbage cont c' = (if ok then garbage cont c else insert (new_addr (c_sys c)) (garbage cont c))"
    using new unfolding garbage_def assms(5,6) l queued_addrs_post [OF assms(1,4)] by auto
qed

lemma accounted_cong:
  assumes "accounted cont c" and "all_active (c_sys c')" and "garbage cont c' = garbage cont c"
    and "c_lost c' = c_lost c" and "c_refused c' = c_refused c"
  shows "accounted cont c'"
  using assms by (simp add: accounted_def)

lemma accounted_post:
  assumes "lockfree_queue Q cont nodes" and "run_inv L cont c" and "accounted cont c"
    and "post Q e (c_sys c) = (ok, sys')"
    and "c_sys c' = sys'" and "held_addrs (c_busy c') = held_addrs (c_busy c)"
    and "length (c_lost c') + length (c_refused c') =
         length (c_lost c) + length (c_refused c) + (if ok then 0 else 1)"
  shows "accounted cont c'"
proof -
  from assms(3) have a: "all_active (c_sys c)" by (simp add: accounted_def)
  from garbage_post [OF assms(1,2) a assms(4-6)] all_active_post [OF a assms(4)] assms(3,5,7)
  show ?thesis by (simp add: accounted_def)
qed

lemma held_addrs_same:
  assumes "i < length bs" and "bs ! i = Some (a, xs)"
  shows "held_addrs (bs[i := Some (a, ys)]) = held_addrs bs"
proof -
  have "a \<in> held_addrs bs" using assms nth_mem [OF assms(1)] by (auto simp: held_addrs_def)
  moreover have "a \<in> held_addrs (bs[i := Some (a, ys)])"
    using set_update_memI [OF assms(1)] unfolding held_addrs_def by blast
  ultimately show ?thesis
    using held_addrs_update [OF assms(1), of a ys] assms(2) by (auto simp: held_addrs_def)
qed

lemma held_addrs_finish:
  assumes "held_ok cont sys bs" and "i < length bs" and "bs ! i = Some (a, xs)"
  shows "held_addrs (bs[i := None]) = held_addrs bs - {a}"
proof (intro set_eqI iffI)
  fix b assume "b \<in> held_addrs (bs[i := None])"
  then obtain j ys where j: "j < length bs" "bs[i := None] ! j = Some (b, ys)"
    by (auto simp: held_addrs_def in_set_conv_nth)
  then have "j \<noteq> i" "bs ! j = Some (b, ys)" by (cases "j = i"; simp)+
  with held_okD(3) [OF assms(1,2,3)] j show "b \<in> held_addrs bs - {a}"
    by (auto simp: held_addrs_def in_set_conv_nth)
next
  fix b assume "b \<in> held_addrs bs - {a}"
  then obtain j ys where j: "j < length bs" "bs ! j = Some (b, ys)" "b \<noteq> a"
    by (auto simp: held_addrs_def in_set_conv_nth)
  with assms(3) have "bs[i := None] ! j = Some (b, ys)" by (cases "j = i") auto
  with j show "b \<in> held_addrs (bs[i := None])"
    unfolding held_addrs_def by (metis (mono_tags, lifting) length_list_update mem_Collect_eq nth_mem)
qed

lemma accounted_wstep:
  assumes Q: "lockfree_queue (lib_queue L) cont nodes" and inv: "run_inv L cont c"
    and acc: "accounted cont c" and "wstep L c c'"
  shows "accounted cont c'"
  using assms(4)
proof (cases rule: wstep.cases)
  case (wtake i t a sys' e ac)
  have "held_addrs (c_busy c') = insert a (held_addrs (c_busy c))"
    using held_addrs_update [OF wtake(3), of a] wtake(1,4) by (simp add: held_addrs_def)
  then have "garbage cont c' = garbage cont c"
    using queued_addrs_take [OF Q wtake(5)] frame_take(1) [OF wtake(5)] wtake(1)
      take_Some(3) [OF Q _ wtake(5)]
    by (auto simp: garbage_def)
  with acc wtake(1) all_active_take [OF _ wtake(5)] show ?thesis
    by (intro accounted_cong [OF acc]) (simp_all add: accounted_def)
next
  case (wact i a x xs rid now w')
  note same = held_addrs_same [OF wact(3,4), of xs]
  show ?thesis
  proof (cases x)
    case (APost e)
    obtain ok sys' where p: "post (lib_queue L) e (c_sys c) = (ok, sys')" by fastforce
    with APost wact same show ?thesis
      by (intro accounted_post [OF Q inv acc p]) auto
  qed (use acc wact same exec_act_sys [OF wact(5)] in \<open>auto simp: accounted_def garbage_def\<close>)
next
  case (wfinish i a)
  from inv have held: "held_ok cont (c_sys c) (c_busy c)" by (simp add: run_inv_def)
  have "a \<in> held_addrs (c_busy c)"
    using wfinish(3,4) nth_mem [OF wfinish(3)] by (auto simp: held_addrs_def)
  then have "garbage cont c' = garbage cont c"
    using held_addrs_finish [OF held wfinish(3,4)] wfinish(1)
    by (auto simp: garbage_def queued_addrs_def drop_envelope_def live_free queued_def)
  with acc wfinish(1) show ?thesis
    by (intro accounted_cong [OF acc]) (simp_all add: accounted_def all_active_def)
qed

lemma accounted_step:
  assumes Q: "lockfree_queue (lib_queue L) cont nodes" and inv: "run_inv L cont c"
    and acc: "accounted cont c" and "step L c c'"
  shows "accounted cont c'"
  using assms(4)
proof (cases rule: step.cases)
  case worker
  then show ?thesis by (rule accounted_wstep [OF Q inv acc])
next
  case (worker_throws i a x xs rid now e w')
  then have "w_sys w' = c_sys c" using exec_act_sys [OF worker_throws(5)] by (cases x) simp_all
  with worker_throws(1) acc show ?thesis by (simp add: accounted_def garbage_def)
next
  case (frame sid raw e ok sys')
  then show ?thesis by (intro accounted_post [OF Q inv acc frame(4)]) auto
qed (use acc in \<open>auto simp: accounted_def garbage_def\<close>)

lemma accounted_init:
  assumes "lockfree_queue (lib_queue L) cont nodes"
  shows "accounted cont (init_config L cap n d)"
proof -
  let ?sys = "c_sys (init_config L cap n d)"
  have "as_heap ?sys = empty_heap"
    by (simp add: init_config_def start_frame server_actors_def actor_new_defs
        ActorSystem_registerActor_def ActorSystem_new_def)
  moreover have "all_active ?sys"
    by (auto simp: all_active_def init_config_def start_frame server_actors_lookup Mailbox_new_def)
  ultimately show ?thesis
    by (simp add: accounted_def garbage_def live_def empty_heap_def) (simp add: init_config_def)
qed

lemma accounted_reachable:
  assumes "lockfree_queue (lib_queue L) cont nodes" and "steps L (init_config L cap n d) c"
  shows "accounted cont c"
  using assms(2)
proof (induction rule: rtranclp_induct)
  case base
  show ?case by (rule accounted_init [OF assms(1)])
next
  case (step c1 c2)
  then show ?case
    by (intro accounted_step [OF assms(1) run_inv_reachable [OF assms(1) step(1) assms(1)] step(3,2)])
qed

section \<open>Properties\<close>

text \<open>
  C21. Memory at the end. After any run, once the workers have been joined, the destructor of the
  actor system returns and has freed every envelope except those that a full mailbox refused
  along the way: the number of cells left is exactly the number of refusals, and it is zero if
  there was none.
\<close>

theorem shutdown_frees:
  assumes "lockfree_queue (lib_queue L) cont nodes" and "steps L (init_config L cap n d) c"
    and "set (c_busy c) \<subseteq> {None}" and "set ts = UNIV"
  shows "\<exists>sys'. ActorSystem_destroy (lib_queue L) ts (c_sys c) = Some sys' \<and> \<not> as_running (ActorSystem_stop (c_sys c)) \<and>
    finite (live (as_heap sys')) \<and>
    card (live (as_heap sys')) = length (c_lost c) + length (c_refused c)"
proof -
  from destroy_actors_frees [OF assms(1), of ts "ActorSystem_stop (c_sys c)"] obtain sys' where
    s: "ActorSystem_destroy (lib_queue L) ts (c_sys c) = Some sys'"
    and l: "live (as_heap sys') = live (as_heap (c_sys c)) - queued_addrs cont (c_sys c)"
    by (auto simp: ActorSystem_destroy_def queued_stop heap_stop queued_addrs_def assms(4))
  have "held_addrs (c_busy c) = {}" using assms(3) by (auto simp: held_addrs_def)
  with l have "live (as_heap sys') = garbage cont c" by (simp add: garbage_def)
  moreover have "\<not> as_running (ActorSystem_stop (c_sys c))" by (rule actor_threads.stop_running)
  ultimately show ?thesis
    using accounted_reachable [OF assms(1,2)] s by (simp add: accounted_def)
qed

text \<open>A mailbox for one envelope: the second frame is refused and its envelope stays behind.\<close>

theorem shutdown_frees_witness:
  "\<exists>c sys'. steps demo_libs (init_config demo_libs 1 1 []) c \<and> length (c_accepted c) = 1 \<and>
     ActorSystem_destroy (lib_queue demo_libs) [session, chat, message, storage] (c_sys c) = Some sys' \<and>
     card (live (as_heap sys')) = 1"
proof -
  have "map_option (\<lambda>c. (length (c_accepted c), length (c_refused c), c_lost c, c_busy c))
      (exec_labels demo_libs [LFrame ''7'' ''m1'', LFrame ''7'' ''m2''] (init_config demo_libs 1 1 [])) =
      Some (1, 1, [], [None])" by code_simp
  then obtain c where c: "steps demo_libs (init_config demo_libs 1 1 []) c"
    "(length (c_accepted c), length (c_refused c), c_lost c, c_busy c) = (1, 1, [], [None])"
    by (rule run_obtain)
  have "set [session, chat, message, storage] = UNIV" using ActorType.exhaust by auto
  from shutdown_frees [OF demo_queue c(1) _ this] c show ?thesis by auto
qed

end
