(* ===== verification/Signals.thy ===== *)
theory Signals
  imports Prelude
begin

text \<open>
  How \<open>main.cpp\<close> waits for its end: the signal handler \<open>onSignal\<close> and the wait on the condition
  variable, as interleaved threads. A signal is delivered to any thread of the process, main or
  another, and its handler interrupts that thread; a later handler on the same thread interrupts
  the earlier one (\<open>SIGTERM\<close> on top of \<open>SIGINT\<close>). \<open>cv.wait(lock, pred)\<close> is the loop
  \<open>while (!pred()) wait(lock)\<close>; a wait releases the mutex and can also end without a
  notification. \<open>std::mutex\<close> is not recursive: a thread that holds it blocks when it locks it again.
\<close>

section \<open>State\<close>

text \<open>Where the main thread is, from \<open>server.run()\<close> to \<open>server.stop()\<close>.\<close>

datatype main_pc =
    MRun        \<comment> \<open>before \<open>std::unique_lock lock(mutex)\<close>\<close>
  | MLocked     \<comment> \<open>holds the mutex, about to test \<open>stopped\<close>\<close>
  | MWaiting    \<comment> \<open>blocked in the wait, mutex released\<close>
  | MNotified   \<comment> \<open>woken, about to lock the mutex again\<close>
  | MDone       \<comment> \<open>past the wait, holds the mutex until \<open>main\<close> returns\<close>

text \<open>Where a call of \<open>onSignal\<close> is.\<close>

datatype handler_pc =
    HEnter      \<comment> \<open>about to lock the mutex\<close>
  | HLocked     \<comment> \<open>about to set \<open>stopped\<close>\<close>
  | HSet        \<comment> \<open>about to leave the scope of the lock\<close>
  | HNotify     \<comment> \<open>about to call \<open>cv.notify_all()\<close>\<close>
  | HDone

record handler =
  h_thread :: nat     \<comment> \<open>the thread it interrupts, 0 the main thread\<close>
  h_pc :: handler_pc

datatype holder = ByMain | ByHandler nat

record sig_state =
  sg_stopped :: bool
  sg_owner :: "holder option"
  sg_main :: main_pc
  sg_handlers :: "handler list"   \<comment> \<open>in the order of delivery\<close>

definition sig_init :: sig_state where
  "sig_init = \<lparr>sg_stopped = False, sg_owner = None, sg_main = MRun, sg_handlers = []\<rparr>"

section \<open>Steps\<close>

text \<open>Handlers nest on every thread: only the latest one runs, and the thread itself waits for all.
  Is thread \<open>t\<close> interrupted by a call of the handler from the \<open>k\<close>-th on?\<close>

definition interrupted_after :: "nat \<Rightarrow> nat \<Rightarrow> sig_state \<Rightarrow> bool" where
  "interrupted_after t k s = (\<exists>h \<in> set (drop k (sg_handlers s)). h_thread h = t \<and> h_pc h \<noteq> HDone)"

definition set_pc :: "nat \<Rightarrow> handler_pc \<Rightarrow> sig_state \<Rightarrow> sig_state" where
  "set_pc i p s = s\<lparr>sg_handlers := (sg_handlers s)[i := (sg_handlers s ! i)\<lparr>h_pc := p\<rparr>]\<rparr>"

text \<open>The body of \<open>onSignal\<close> in the \<open>i\<close>-th call.\<close>

definition onSignal_step :: "nat \<Rightarrow> sig_state \<Rightarrow> sig_state option" where
  "onSignal_step i s =
     (case h_pc (sg_handlers s ! i) of
        HEnter \<Rightarrow> if sg_owner s = None then Some (set_pc i HLocked (s\<lparr>sg_owner := Some (ByHandler i)\<rparr>)) else None
      | HLocked \<Rightarrow> Some (set_pc i HSet (s\<lparr>sg_stopped := True\<rparr>))
      | HSet \<Rightarrow> Some (set_pc i HNotify (s\<lparr>sg_owner := None\<rparr>))
      | HNotify \<Rightarrow> Some (set_pc i HDone
          (s\<lparr>sg_main := if sg_main s = MWaiting then MNotified else sg_main s\<rparr>))
      | HDone \<Rightarrow> None)"

text \<open>The main thread from \<open>std::unique_lock lock(mutex)\<close> to the end of \<open>cv.wait\<close>.\<close>

definition main_step :: "sig_state \<Rightarrow> sig_state option" where
  "main_step s =
     (case sg_main s of
        MRun \<Rightarrow> if sg_owner s = None then Some (s\<lparr>sg_owner := Some ByMain, sg_main := MLocked\<rparr>) else None
      | MLocked \<Rightarrow> if sg_stopped s then Some (s\<lparr>sg_main := MDone\<rparr>)
                   else Some (s\<lparr>sg_owner := None, sg_main := MWaiting\<rparr>)
      | MWaiting \<Rightarrow> None
      | MNotified \<Rightarrow> if sg_owner s = None then Some (s\<lparr>sg_owner := Some ByMain, sg_main := MLocked\<rparr>) else None
      | MDone \<Rightarrow> None)"

datatype sig_label =
    SMain
  | SHandler nat
  | SSpurious       \<comment> \<open>a wake-up without notification\<close>
  | SSignal nat     \<comment> \<open>a signal is delivered to this thread\<close>

fun sig_exec :: "sig_label \<Rightarrow> sig_state \<Rightarrow> sig_state option" where
  "sig_exec SMain s = (if interrupted_after 0 0 s then None else main_step s)"
| "sig_exec (SHandler i) s =
     (if i < length (sg_handlers s) \<and> \<not> interrupted_after (h_thread (sg_handlers s ! i)) (Suc i) s
      then onSignal_step i s else None)"
| "sig_exec SSpurious s =
     (if sg_main s = MWaiting \<and> \<not> interrupted_after 0 0 s then Some (s\<lparr>sg_main := MNotified\<rparr>) else None)"
| "sig_exec (SSignal t) s = Some (s\<lparr>sg_handlers := sg_handlers s @ [\<lparr>h_thread = t, h_pc = HEnter\<rparr>]\<rparr>)"

fun sig_run :: "sig_label list \<Rightarrow> sig_state \<Rightarrow> sig_state option" where
  "sig_run [] s = Some s"
| "sig_run (l # ls) s = (case sig_exec l s of None \<Rightarrow> None | Some s' \<Rightarrow> sig_run ls s')"

text \<open>The thread of a holder of the mutex: main, or the thread the holding handler runs on.\<close>

primrec holder_thread :: "sig_state \<Rightarrow> holder \<Rightarrow> nat" where
  "holder_thread s ByMain = 0"
| "holder_thread s (ByHandler i) = h_thread (sg_handlers s ! i)"

definition thread_holds :: "nat \<Rightarrow> sig_state \<Rightarrow> bool" where
  "thread_holds t s = (case sg_owner s of None \<Rightarrow> False | Some h \<Rightarrow> holder_thread s h = t)"

text \<open>A run in which no signal is delivered to a thread while that thread holds the mutex.\<close>

fun lucky_run :: "sig_label list \<Rightarrow> sig_state \<Rightarrow> bool" where
  "lucky_run [] s = True"
| "lucky_run (l # ls) s =
     ((case l of SSignal t \<Rightarrow> \<not> thread_holds t s | _ \<Rightarrow> True) \<and>
      (case sig_exec l s of None \<Rightarrow> True | Some s' \<Rightarrow> lucky_run ls s'))"

definition own_step :: "sig_label \<Rightarrow> bool" where
  "own_step l = (case l of SMain \<Rightarrow> True | SHandler _ \<Rightarrow> True | _ \<Rightarrow> False)"

section \<open>The invariant of lucky runs\<close>

abbreviation pc_at :: "sig_state \<Rightarrow> nat \<Rightarrow> handler_pc" where
  "pc_at s i \<equiv> h_pc (sg_handlers s ! i)"

definition in_section :: "handler_pc \<Rightarrow> bool" where
  "in_section p \<longleftrightarrow> p = HLocked \<or> p = HSet"

definition main_in_section :: "main_pc \<Rightarrow> bool" where
  "main_in_section p \<longleftrightarrow> p = MLocked \<or> p = MDone"

definition owner_ok :: "sig_state \<Rightarrow> bool" where
  "owner_ok s \<longleftrightarrow>
     (case sg_owner s of
        None \<Rightarrow> \<not> main_in_section (sg_main s) \<and> (\<forall>j < length (sg_handlers s). \<not> in_section (pc_at s j))
      | Some ByMain \<Rightarrow> main_in_section (sg_main s) \<and> (\<forall>j < length (sg_handlers s). \<not> in_section (pc_at s j))
      | Some (ByHandler i) \<Rightarrow> \<not> main_in_section (sg_main s) \<and> i < length (sg_handlers s) \<and> in_section (pc_at s i) \<and>
          (\<forall>j < length (sg_handlers s). j \<noteq> i \<longrightarrow> \<not> in_section (pc_at s j)))"

lemma owner_ok_main: "owner_ok s \<Longrightarrow> sg_owner s = Some ByMain \<longleftrightarrow> main_in_section (sg_main s)"
  by (auto simp: owner_ok_def split: option.splits holder.splits)

lemma owner_ok_handler:
  "owner_ok s \<Longrightarrow> i < length (sg_handlers s) \<Longrightarrow> in_section (pc_at s i) \<Longrightarrow> sg_owner s = Some (ByHandler i)"
  by (auto simp: owner_ok_def split: option.splits holder.splits)

definition nesting_ok :: "sig_state \<Rightarrow> bool" where
  "nesting_ok s \<longleftrightarrow> (sg_owner s = Some ByMain \<longrightarrow> \<not> interrupted_after 0 0 s) \<and>
     (\<forall>i. sg_owner s = Some (ByHandler i) \<longrightarrow> \<not> interrupted_after (h_thread (sg_handlers s ! i)) (Suc i) s)"

definition wake_ok :: "sig_state \<Rightarrow> bool" where
  "wake_ok s \<longleftrightarrow> (\<forall>i < length (sg_handlers s). pc_at s i \<in> {HSet, HNotify, HDone} \<longrightarrow> sg_stopped s) \<and>
     (sg_stopped s \<longrightarrow> sg_main s = MWaiting \<longrightarrow>
        (\<exists>i < length (sg_handlers s). pc_at s i \<in> {HSet, HNotify}))"

definition sig_inv :: "sig_state \<Rightarrow> bool" where
  "sig_inv s \<longleftrightarrow> owner_ok s \<and> nesting_ok s \<and> wake_ok s"

lemma interrupted_iff:
  "interrupted_after t k s \<longleftrightarrow>
     (\<exists>j. k \<le> j \<and> j < length (sg_handlers s) \<and> h_thread (sg_handlers s ! j) = t \<and> pc_at s j \<noteq> HDone)"
proof
  assume "interrupted_after t k s"
  then obtain h where "h \<in> set (drop k (sg_handlers s))" "h_thread h = t" "h_pc h \<noteq> HDone"
    by (auto simp: interrupted_after_def)
  then obtain j where "j < length (sg_handlers s) - k" "sg_handlers s ! (k + j) = h"
    by (auto simp: in_set_conv_nth)
  with \<open>h_thread h = t\<close> \<open>h_pc h \<noteq> HDone\<close>
  show "\<exists>j. k \<le> j \<and> j < length (sg_handlers s) \<and> h_thread (sg_handlers s ! j) = t \<and> pc_at s j \<noteq> HDone"
    by (intro exI [of _ "k + j"]) auto
next
  assume "\<exists>j. k \<le> j \<and> j < length (sg_handlers s) \<and> h_thread (sg_handlers s ! j) = t \<and> pc_at s j \<noteq> HDone"
  then obtain j where "k \<le> j" "j < length (sg_handlers s)" "h_thread (sg_handlers s ! j) = t" "pc_at s j \<noteq> HDone"
    by blast
  moreover from this(1,2) have "sg_handlers s ! j \<in> set (drop k (sg_handlers s))"
    using nth_mem [of "j - k" "drop k (sg_handlers s)"] by simp
  ultimately show "interrupted_after t k s" unfolding interrupted_after_def by blast
qed

lemma set_pc_simps [simp]:
  "sg_stopped (set_pc i p s) = sg_stopped s" "sg_owner (set_pc i p s) = sg_owner s"
  "sg_main (set_pc i p s) = sg_main s" "length (sg_handlers (set_pc i p s)) = length (sg_handlers s)"
  by (simp_all add: set_pc_def)

lemma h_thread_set_pc [simp]: "h_thread (sg_handlers (set_pc i p s) ! j) = h_thread (sg_handlers s ! j)"
  by (cases "i < length (sg_handlers s)"; cases "j = i") (simp_all add: set_pc_def list_update_beyond)

lemma pc_at_set_pc [simp]:
  "i < length (sg_handlers s) \<Longrightarrow> pc_at (set_pc i p s) j = (if j = i then p else pc_at s j)"
  by (cases "j = i") (simp_all add: set_pc_def)

lemma interrupted_set_pc:
  assumes "interrupted_after t k (set_pc i p s)" and "i < length (sg_handlers s)" and "pc_at s i \<noteq> HDone"
  shows "interrupted_after t k s"
  using assms by (auto simp: interrupted_iff split: if_splits)

lemma interrupted_cong [simp]:
  "interrupted_after t k (s\<lparr>sg_owner := q\<rparr>) = interrupted_after t k s"
  "interrupted_after t k (s\<lparr>sg_main := m\<rparr>) = interrupted_after t k s"
  "interrupted_after t k (s\<lparr>sg_stopped := b\<rparr>) = interrupted_after t k s"
  "interrupted_after t k (s\<lparr>sg_owner := q, sg_main := m\<rparr>) = interrupted_after t k s"
  by (simp_all add: interrupted_after_def)

lemma sig_inv_init: "sig_inv sig_init"
  by (simp add: sig_inv_def owner_ok_def nesting_ok_def wake_ok_def sig_init_def
      main_in_section_def interrupted_after_def)

lemma owner_main:
  assumes "owner_ok s" and "main_step s = Some s'"
  shows "owner_ok s'"
proof -
  have "sg_owner s = Some ByMain" if "sg_main s = MLocked"
    using owner_ok_main [OF assms(1)] that by (simp add: main_in_section_def)
  with assms show ?thesis
    by (cases "sg_main s") (auto simp: main_step_def owner_ok_def main_in_section_def split: if_splits)
qed

lemma sig_inv_main:
  assumes "sig_inv s" and "\<not> interrupted_after 0 0 s" and "main_step s = Some s'"
  shows "sig_inv s'"
proof -
  have "nesting_ok s'"
    using assms by (cases "sg_main s") (auto simp: main_step_def nesting_ok_def sig_inv_def split: if_splits)
  moreover have "wake_ok s'"
    using assms(1,3) by (cases "sg_main s") (auto simp: main_step_def sig_inv_def wake_ok_def split: if_splits)
  ultimately show ?thesis using owner_main [OF _ assms(3)] assms(1) by (simp add: sig_inv_def)
qed

text \<open>A step of a handler: only its own position changes.\<close>

lemma owner_handler:
  assumes "owner_ok s" and "i < length (sg_handlers s)" and "onSignal_step i s = Some s'"
  shows "owner_ok s'"
proof -
  have o: "sg_owner s = Some (ByHandler i)" if "pc_at s i = HLocked \<or> pc_at s i = HSet"
    using owner_ok_handler [OF assms(1,2)] that by (simp add: in_section_def)
  show ?thesis
  proof (cases "pc_at s i")
    case HNotify
    let ?m = "if sg_main s = MWaiting then MNotified else sg_main s"
    have m: "main_in_section ?m = main_in_section (sg_main s)" by (simp add: main_in_section_def)
    have n: "\<not> in_section HDone" "\<not> in_section HNotify" by (simp_all add: in_section_def)
    from HNotify assms(3) have "s' = set_pc i HDone (s\<lparr>sg_main := ?m\<rparr>)" by (simp add: onSignal_step_def)
    with assms(1,2) HNotify m n show ?thesis
      unfolding owner_ok_def by (cases "sg_owner s") (auto split: holder.splits if_split_asm simp del: if_image_distrib)
  qed (use assms o in \<open>auto simp: onSignal_step_def owner_ok_def in_section_def split: if_splits\<close>)
qed

lemma nesting_handler:
  assumes "nesting_ok s" and i: "i < length (sg_handlers s)"
    and "\<not> interrupted_after (h_thread (sg_handlers s ! i)) (Suc i) s"
    and "onSignal_step i s = Some s'"
  shows "nesting_ok s'"
proof -
  have d: "pc_at s i \<noteq> HDone" using assms(4) by (auto simp: onSignal_step_def)
  have "interrupted_after t k s' \<Longrightarrow> interrupted_after t k s" for t k
    using assms(4) i d
    by (cases "pc_at s i") (auto simp: onSignal_step_def split: if_splits dest!: interrupted_set_pc)
  moreover have "\<forall>j. h_thread (sg_handlers s' ! j) = h_thread (sg_handlers s ! j)"
    using assms(4) by (cases "pc_at s i") (auto simp: onSignal_step_def split: if_splits)
  moreover have "sg_owner s' = sg_owner s \<or> sg_owner s' = None \<or> sg_owner s' = Some (ByHandler i)"
    using assms(4) by (cases "pc_at s i") (auto simp: onSignal_step_def split: if_splits)
  ultimately show ?thesis using assms(1,3) unfolding nesting_ok_def
    by (metis holder.distinct(1) holder.inject option.distinct(1) option.inject)
qed

lemma wake_handler:
  assumes "wake_ok s" and "i < length (sg_handlers s)" and "onSignal_step i s = Some s'"
  shows "wake_ok s'"
proof (cases "pc_at s i")
  case HEnter
  with assms have "s' = set_pc i HLocked (s\<lparr>sg_owner := Some (ByHandler i)\<rparr>)"
    by (auto simp: onSignal_step_def split: if_splits)
  moreover have "j \<noteq> i" if "pc_at s j \<in> {HSet, HNotify}" for j using that HEnter by auto
  ultimately have "(\<exists>j < length (sg_handlers s'). pc_at s' j \<in> {HSet, HNotify}) \<longleftrightarrow>
      (\<exists>j < length (sg_handlers s). pc_at s j \<in> {HSet, HNotify})"
    "\<And>j. pc_at s' j \<in> {HSet, HNotify, HDone} \<Longrightarrow> pc_at s j \<in> {HSet, HNotify, HDone}"
    "length (sg_handlers s') = length (sg_handlers s)" "sg_stopped s' = sg_stopped s" "sg_main s' = sg_main s"
    using assms(2) by (auto split: if_splits)
  with assms(1) show ?thesis unfolding wake_ok_def by metis
next
  case HNotify
  with assms(3) have "sg_main s' \<noteq> MWaiting" by (cases "sg_main s") (auto simp: onSignal_step_def)
  with assms HNotify show ?thesis by (auto simp: onSignal_step_def wake_ok_def)
qed (use assms in \<open>auto simp: onSignal_step_def wake_ok_def\<close>)

lemma sig_inv_handler:
  assumes "sig_inv s" and "i < length (sg_handlers s)"
    and "\<not> interrupted_after (h_thread (sg_handlers s ! i)) (Suc i) s"
    and "onSignal_step i s = Some s'"
  shows "sig_inv s'"
  using owner_handler [OF _ assms(2,4)] nesting_handler [OF _ assms(2-4)] wake_handler [OF _ assms(2,4)] assms(1)
  by (simp add: sig_inv_def)

text \<open>The mutex has the holder its positions say in every run, lucky or not.\<close>

lemma owner_signal:
  assumes "owner_ok s"
  shows "owner_ok (s\<lparr>sg_handlers := sg_handlers s @ [\<lparr>h_thread = t, h_pc = HEnter\<rparr>]\<rparr>)"
  using assms
  by (auto simp: owner_ok_def in_section_def nth_append less_Suc_eq split: option.splits holder.splits)

lemma owner_exec:
  assumes "owner_ok s" and "sig_exec l s = Some s'"
  shows "owner_ok s'"
proof (cases l)
  case SSpurious
  with assms show ?thesis
    by (auto simp: owner_ok_def main_in_section_def split: option.splits holder.splits if_splits)
qed (use assms owner_signal in \<open>auto intro: owner_main owner_handler split: if_splits\<close>)

lemma owner_run: "sig_run ls s = Some s' \<Longrightarrow> owner_ok s \<Longrightarrow> owner_ok s'"
  by (induction ls arbitrary: s) (auto split: option.splits dest: owner_exec)

lemma sig_inv_signal:
  assumes "sig_inv s" and "\<not> thread_holds t s"
  shows "sig_inv (s\<lparr>sg_handlers := sg_handlers s @ [\<lparr>h_thread = t, h_pc = HEnter\<rparr>]\<rparr>)"
proof -
  let ?s = "s\<lparr>sg_handlers := sg_handlers s @ [\<lparr>h_thread = t, h_pc = HEnter\<rparr>]\<rparr>"
  have int: "interrupted_after u k ?s \<longleftrightarrow> interrupted_after u k s \<or> u = t \<and> k \<le> length (sg_handlers s)" for u k
    by (cases "k \<le> length (sg_handlers s)") (auto simp: interrupted_after_def)
  have "owner_ok ?s" using assms(1) owner_signal by (simp add: sig_inv_def)
  moreover have "wake_ok ?s"
    using assms(1) unfolding sig_inv_def wake_ok_def by (auto simp: nth_append less_Suc_eq)
  moreover have "nesting_ok ?s"
    using assms
    by (auto simp: sig_inv_def nesting_ok_def int owner_ok_def thread_holds_def nth_append
        split: option.splits holder.splits if_splits)
  ultimately show ?thesis by (simp add: sig_inv_def)
qed

lemma sig_inv_exec:
  assumes "sig_inv s" and "sig_exec l s = Some s'" and "\<And>t. l = SSignal t \<Longrightarrow> \<not> thread_holds t s"
  shows "sig_inv s'"
proof (cases l)
  case SMain
  with assms show ?thesis by (auto intro: sig_inv_main split: if_splits)
next
  case (SHandler i)
  with assms show ?thesis by (auto intro: sig_inv_handler split: if_splits)
next
  case SSpurious
  with assms(2) have s': "s' = s\<lparr>sg_main := MNotified\<rparr>" by (auto split: if_splits)
  have "owner_ok s'" using assms(1,2) owner_exec by (auto simp: sig_inv_def)
  with assms(1) show ?thesis by (auto simp: s' sig_inv_def nesting_ok_def wake_ok_def)
next
  case (SSignal t)
  with assms sig_inv_signal [of s t] show ?thesis by auto
qed

lemma sig_inv_run: "sig_run ls s = Some s' \<Longrightarrow> lucky_run ls s \<Longrightarrow> sig_inv s \<Longrightarrow> sig_inv s'"
proof (induction ls arbitrary: s)
  case (Cons l ls)
  then obtain s1 where "sig_exec l s = Some s1" "sig_run ls s1 = Some s'" by (auto split: option.splits)
  with Cons sig_inv_exec [of s l s1] show ?case by (auto split: sig_label.splits)
qed simp

section \<open>Progress and termination\<close>

primrec main_weight :: "main_pc \<Rightarrow> nat" where
  "main_weight MRun = 3"
| "main_weight MLocked = 2"
| "main_weight MWaiting = 1"
| "main_weight MNotified = 3"
| "main_weight MDone = 0"

primrec pc_weight :: "handler_pc \<Rightarrow> nat" where
  "pc_weight HEnter = 12"
| "pc_weight HLocked = 9"
| "pc_weight HSet = 6"
| "pc_weight HNotify = 3"
| "pc_weight HDone = 0"

definition sig_weight :: "sig_state \<Rightarrow> nat" where
  "sig_weight s = main_weight (sg_main s) + sum_list (map (pc_weight \<circ> h_pc) (sg_handlers s))"

lemma sum_list_nth_update:
  fixes f :: "'a \<Rightarrow> nat"
  shows "i < length xs \<Longrightarrow> sum_list (map f (xs[i := y])) + f (xs ! i) = sum_list (map f xs) + f y"
proof (induction xs arbitrary: i)
  case (Cons x xs)
  then show ?case by (cases i) auto
qed simp

lemma weight_set_pc:
  assumes "i < length (sg_handlers s)"
  shows "sig_weight (set_pc i p s) + pc_weight (pc_at s i) = sig_weight s + pc_weight p"
  using sum_list_nth_update [OF assms, of "pc_weight \<circ> h_pc" "(sg_handlers s ! i)\<lparr>h_pc := p\<rparr>"]
  by (simp add: sig_weight_def set_pc_def)

lemma weight_exec:
  assumes "sig_exec l s = Some s'" and "own_step l"
  shows "sig_weight s' < sig_weight s"
proof (cases l)
  case SMain
  with assms(1) show ?thesis
    by (auto simp: main_step_def sig_weight_def split: if_splits main_pc.splits)
next
  case (SHandler i)
  with assms(1) have i: "i < length (sg_handlers s)" and o: "onSignal_step i s = Some s'"
    by (auto split: if_splits)
  let ?m = "s\<lparr>sg_main := if sg_main s = MWaiting then MNotified else sg_main s\<rparr>"
  have "sig_weight ?m \<le> sig_weight s + 2" by (simp add: sig_weight_def)
  moreover have "sig_weight (s\<lparr>sg_owner := q\<rparr>) = sig_weight s" "sig_weight (s\<lparr>sg_stopped := b\<rparr>) = sig_weight s" for q b
    by (simp_all add: sig_weight_def)
  ultimately show ?thesis
    using o weight_set_pc [of i "s\<lparr>sg_owner := Some (ByHandler i)\<rparr>" HLocked] weight_set_pc [of i "s\<lparr>sg_stopped := True\<rparr>" HSet]
      weight_set_pc [of i "s\<lparr>sg_owner := None\<rparr>" HNotify] weight_set_pc [of i ?m HDone] i
    by (auto simp: onSignal_step_def split: handler_pc.splits if_splits)
qed (use assms(2) in \<open>simp_all add: own_step_def\<close>)

lemma weight_run:
  "sig_run ls s = Some s' \<Longrightarrow> \<forall>l \<in> set ls. own_step l \<Longrightarrow> length ls + sig_weight s' \<le> sig_weight s"
proof (induction ls arbitrary: s)
  case (Cons l ls)
  then obtain s1 where "sig_exec l s = Some s1" "sig_run ls s1 = Some s'" by (auto split: option.splits)
  with Cons weight_exec [of l s s1] show ?case by fastforce
qed simp

lemma last_interrupter:
  assumes "interrupted_after t 0 s"
  obtains i where "i < length (sg_handlers s)" "h_thread (sg_handlers s ! i) = t" "pc_at s i \<noteq> HDone"
    "\<not> interrupted_after t (Suc i) s"
proof -
  let ?S = "{j. j < length (sg_handlers s) \<and> h_thread (sg_handlers s ! j) = t \<and> pc_at s j \<noteq> HDone}"
  have S: "finite ?S" "?S \<noteq> {}" using assms by (auto simp: interrupted_iff)
  have "\<not> interrupted_after t (Suc (Max ?S)) s"
  proof
    assume "interrupted_after t (Suc (Max ?S)) s"
    then obtain j where "Suc (Max ?S) \<le> j" "j \<in> ?S" by (auto simp: interrupted_iff)
    from Max_ge [OF S(1) \<open>j \<in> ?S\<close>] \<open>Suc (Max ?S) \<le> j\<close> show False by linarith
  qed
  with Max_in [OF S] that [of "Max ?S"] show thesis by blast
qed

lemma onSignal_enabled:
  "pc_at s i \<noteq> HDone \<Longrightarrow> sg_owner s = None \<or> pc_at s i \<noteq> HEnter \<Longrightarrow> onSignal_step i s \<noteq> None"
  by (cases "pc_at s i") (simp_all add: onSignal_step_def)

lemma sig_progress:
  assumes "sig_inv s" and "sg_handlers s \<noteq> []" and "sg_main s \<noteq> MDone"
  shows "\<exists>l. own_step l \<and> sig_exec l s \<noteq> None"
proof -
  from assms(1) have own: "owner_ok s" and nest: "nesting_ok s" and wake: "wake_ok s" by (auto simp: sig_inv_def)
  have handler: ?thesis if "i < length (sg_handlers s)"
    "\<not> interrupted_after (h_thread (sg_handlers s ! i)) (Suc i) s" "onSignal_step i s \<noteq> None" for i
    using that by (intro exI [of _ "SHandler i"]) (auto simp: own_step_def)
  have main: ?thesis if "\<not> interrupted_after 0 0 s" "main_step s \<noteq> None"
    using that by (intro exI [of _ SMain]) (auto simp: own_step_def)
  show ?thesis
  proof (cases "sg_owner s")
    case None
    show ?thesis
    proof (cases "\<exists>t. interrupted_after t 0 s")
      case True
      then obtain t where "interrupted_after t 0 s" by blast
      then obtain i where "i < length (sg_handlers s)" "h_thread (sg_handlers s ! i) = t" "pc_at s i \<noteq> HDone"
        "\<not> interrupted_after t (Suc i) s" by (rule last_interrupter)
      with None onSignal_enabled handler show ?thesis by blast
    next
      case False
      then have "\<forall>i < length (sg_handlers s). pc_at s i = HDone" by (auto simp: interrupted_iff)
      with assms(2) wake have "sg_main s \<noteq> MWaiting" by (auto simp: wake_ok_def)
      with assms(3) None have "main_step s \<noteq> None"
        by (cases "sg_main s") (simp_all add: main_step_def)
      with False main show ?thesis by blast
    qed
  next
    case (Some h)
    show ?thesis
    proof (cases h)
      case ByMain
      with Some own assms(3) have "sg_main s = MLocked" by (simp add: owner_ok_def main_in_section_def)
      with Some ByMain nest main show ?thesis by (simp add: nesting_ok_def main_step_def)
    next
      case (ByHandler i)
      with Some own have "i < length (sg_handlers s)" "in_section (pc_at s i)" by (simp_all add: owner_ok_def)
      moreover from this(2) have "onSignal_step i s \<noteq> None" by (auto simp: in_section_def onSignal_step_def)
      ultimately show ?thesis using handler nest Some ByHandler by (simp add: nesting_ok_def)
    qed
  qed
qed

lemma lucky_own: "\<forall>l \<in> set ls. own_step l \<Longrightarrow> lucky_run ls s"
  by (induction ls arbitrary: s) (auto simp: own_step_def split: option.splits sig_label.splits)

lemma handlers_own: "sig_exec l s = Some s' \<Longrightarrow> own_step l \<Longrightarrow> length (sg_handlers s') = length (sg_handlers s)"
  by (cases l)
    (auto simp: own_step_def main_step_def onSignal_step_def split: if_splits main_pc.splits handler_pc.splits)

lemma handlers_run:
  "sig_run ls s = Some s' \<Longrightarrow> \<forall>l \<in> set ls. own_step l \<Longrightarrow> length (sg_handlers s') = length (sg_handlers s)"
  by (induction ls arbitrary: s) (auto split: option.splits dest: handlers_own)

lemma weight_bound: "sig_weight s \<le> 3 + 12 * length (sg_handlers s)"
proof -
  have "sum_list (map (pc_weight \<circ> h_pc) hs) \<le> 12 * length hs" for hs
  proof (induction hs)
    case (Cons h hs)
    moreover have "pc_weight (h_pc h) \<le> 12" by (cases "h_pc h") simp_all
    ultimately show ?case by simp
  qed simp
  from this [of "sg_handlers s"] have "sum_list (map (pc_weight \<circ> h_pc) (sg_handlers s)) \<le> 12 * length (sg_handlers s)" .
  moreover have "main_weight (sg_main s) \<le> 3" by (cases "sg_main s") simp_all
  ultimately show ?thesis unfolding sig_weight_def by linarith
qed

section \<open>A handler on top of its own lock\<close>

text \<open>Call \<open>i\<close> of the handler waits for the mutex that the thread under it holds.\<close>

definition hung :: "nat \<Rightarrow> holder \<Rightarrow> sig_state \<Rightarrow> bool" where
  "hung i h s \<longleftrightarrow> owner_ok s \<and> sg_owner s = Some h \<and> i < length (sg_handlers s) \<and> pc_at s i = HEnter \<and>
     h_thread (sg_handlers s ! i) = holder_thread s h \<and> (\<forall>k. h = ByHandler k \<longrightarrow> k < i)"

lemma hung_exec:
  assumes "hung i h s" and "sig_exec l s = Some s'"
  shows "hung i h s' \<and> (h = ByMain \<longrightarrow> sg_main s' = sg_main s) \<and> (\<forall>k. h = ByHandler k \<longrightarrow> pc_at s' k = pc_at s k)"
proof (cases l)
  case SMain
  have "interrupted_after 0 0 s" if "h = ByMain" using assms(1) that unfolding hung_def interrupted_iff by auto
  moreover have "main_step s = None" if "h = ByHandler k" for k
    using assms(1) that
    by (cases "sg_main s") (auto simp: hung_def owner_ok_def main_in_section_def main_step_def)
  ultimately show ?thesis using SMain assms(2) by (cases h) (auto split: if_splits)
next
  case (SHandler j)
  with assms(2) have j: "j < length (sg_handlers s)" and o: "onSignal_step j s = Some s'"
    and nj: "\<not> interrupted_after (h_thread (sg_handlers s ! j)) (Suc j) s"
    by (auto split: if_splits)
  have "h \<noteq> ByHandler j"
  proof
    assume "h = ByHandler j"
    with assms(1) have "interrupted_after (h_thread (sg_handlers s ! j)) (Suc j) s"
      unfolding hung_def interrupted_iff by (intro exI [of _ i]) auto
    with nj show False ..
  qed
  with assms(1) j o have n: "pc_at s j = HNotify"
    by (cases "pc_at s j") (auto simp: hung_def in_section_def onSignal_step_def dest!: owner_ok_handler)
  let ?m = "if sg_main s = MWaiting then MNotified else sg_main s"
  from n o have s': "s' = set_pc j HDone (s\<lparr>sg_main := ?m\<rparr>)" by (simp add: onSignal_step_def)
  have "owner_ok s'" using assms(1) j o by (auto simp: hung_def intro: owner_handler)
  moreover have "sg_main s \<noteq> MWaiting" if "h = ByMain"
    using assms(1) that by (auto simp: hung_def owner_ok_def main_in_section_def)
  moreover have "holder_thread s' h = holder_thread s h" by (cases h) (simp_all add: s')
  moreover have "j \<noteq> i" using n assms(1) by (auto simp: hung_def)
  ultimately show ?thesis using assms(1) j \<open>h \<noteq> ByHandler j\<close> by (auto simp: hung_def s')
next
  case SSpurious
  have "owner_ok s'" using owner_exec [OF _ assms(2)] assms(1) by (simp add: hung_def)
  moreover have "h \<noteq> ByMain" using SSpurious assms
    by (auto simp: hung_def owner_ok_def main_in_section_def split: if_splits)
  ultimately show ?thesis using SSpurious assms by (cases h) (auto simp: hung_def split: if_splits)
next
  case (SSignal t)
  have "owner_ok s'" using owner_exec [OF _ assms(2)] assms(1) by (simp add: hung_def)
  moreover have "k < length (sg_handlers s)" if "h = ByHandler k" for k
    using assms(1) that by (auto simp: hung_def owner_ok_def)
  ultimately show ?thesis using SSignal assms by (cases h) (auto simp: hung_def nth_append)
qed

lemma hung_run:
  "hung i h s \<Longrightarrow> sig_run ls s = Some s' \<Longrightarrow>
     hung i h s' \<and> (h = ByMain \<longrightarrow> sg_main s' = sg_main s) \<and> (\<forall>k. h = ByHandler k \<longrightarrow> pc_at s' k = pc_at s k)"
proof (induction ls arbitrary: s)
  case (Cons l ls)
  then obtain s1 where "sig_exec l s = Some s1" "sig_run ls s1 = Some s'" by (auto split: option.splits)
  with Cons hung_exec [of i h s l s1] show ?case by auto
qed simp

section \<open>Properties\<close>

text \<open>
  C22. No wake-up is lost. Take any interleaving of main, handlers, spurious wake-ups and signals
  in which no signal was delivered to a thread while that thread held the mutex (itself, or in a
  handler it was running), and at least one signal arrived. From there on the threads can make at
  most \<open>3 + 12 k\<close> steps, \<open>k\<close> the number of signals, and as long as main is not past its wait some
  thread can make one: main gets to \<open>server.stop()\<close>.
\<close>

theorem signal_wakes_main:
  assumes "sig_run ls sig_init = Some s" and "lucky_run ls sig_init" and "sg_handlers s \<noteq> []"
    and "sig_run ls' s = Some s'" and "\<forall>l \<in> set ls'. own_step l"
  shows "length ls' \<le> 3 + 12 * length (sg_handlers s) \<and>
    (sg_main s' = MDone \<or> (\<exists>l. own_step l \<and> sig_exec l s' \<noteq> None))"
proof -
  have "sig_inv s" by (rule sig_inv_run [OF assms(1,2) sig_inv_init])
  then have "sig_inv s'" by (rule sig_inv_run [OF assms(4) lucky_own [OF assms(5)]])
  moreover have "sg_handlers s' \<noteq> []" using handlers_run [OF assms(4,5)] assms(3) by auto
  ultimately have "sg_main s' = MDone \<or> (\<exists>l. own_step l \<and> sig_exec l s' \<noteq> None)"
    using sig_progress by blast
  with weight_run [OF assms(4,5)] weight_bound [of s] show ?thesis by simp
qed

text \<open>The witness: SIGINT on another thread, and SIGTERM on the same thread before its handler locks.\<close>

theorem signal_wakes_main_witness:
  "\<exists>s s'. sig_run [SMain, SMain, SSignal 3, SSignal 3] sig_init = Some s \<and> sg_main s = MWaiting \<and>
     sig_run [SHandler 1, SHandler 1, SHandler 1, SHandler 1, SMain, SMain] s = Some s' \<and> sg_main s' = MDone \<and>
     6 \<le> 3 + 12 * length (sg_handlers s)"
proof -
  let ?ls = "[SMain, SMain, SSignal 3, SSignal 3]"
    and ?ls' = "[SHandler 1, SHandler 1, SHandler 1, SHandler 1, SMain, SMain]"
  have "case sig_run ?ls sig_init of None \<Rightarrow> False
      | Some s \<Rightarrow> sg_main s = MWaiting \<and> length (sg_handlers s) = 2 \<and> map_option sg_main (sig_run ?ls' s) = Some MDone"
    by code_simp
  then obtain s s' where s: "sig_run ?ls sig_init = Some s" "sg_main s = MWaiting" "length (sg_handlers s) = 2"
    and s': "sig_run ?ls' s = Some s'" "sg_main s' = MDone"
    by (auto split: option.splits)
  have "lucky_run ?ls sig_init" by code_simp
  moreover have "\<forall>l \<in> set ?ls'. own_step l" by (simp add: own_step_def)
  moreover have "sg_handlers s \<noteq> []" using s(3) by auto
  ultimately have "length ?ls' \<le> 3 + 12 * length (sg_handlers s)"
    using signal_wakes_main [OF s(1) _ _ s'(1)] by blast
  with s s' show ?thesis by (intro exI [of _ s] exI [of _ s']) simp
qed

text \<open>
  C23. A signal can hang the program, in every run. If a signal is delivered to a thread that holds
  the mutex, the new handler blocks for ever on the mutex its own thread holds, and the mutex is
  never released. When the holder is main (between locking it and waiting, or after the wait while
  \<open>server.stop()\<close> runs), main never moves again; when it is a handler on some thread (\<open>SIGTERM\<close> on
  top of \<open>SIGINT\<close>), that handler never moves again, and main never gets past its wait.
\<close>

theorem signal_hangs_main:
  assumes "sig_run ls sig_init = Some s" and "sg_owner s = Some h"
    and "sig_run (SSignal (holder_thread s h) # ls') s = Some s'"
  shows "pc_at s' (length (sg_handlers s)) = HEnter \<and> sg_owner s' = Some h \<and>
    (h = ByMain \<longrightarrow> sg_main s' = sg_main s) \<and>
    (\<forall>i. h = ByHandler i \<longrightarrow> pc_at s' i = pc_at s i \<and> sg_main s' \<noteq> MDone)"
proof -
  let ?s = "s\<lparr>sg_handlers := sg_handlers s @ [\<lparr>h_thread = holder_thread s h, h_pc = HEnter\<rparr>]\<rparr>"
  have "owner_ok s" using owner_run [OF assms(1)] sig_inv_init by (simp add: sig_inv_def)
  moreover have k: "k < length (sg_handlers s)" if "h = ByHandler k" for k
    using \<open>owner_ok s\<close> assms(2) that by (simp add: owner_ok_def)
  ultimately have "hung (length (sg_handlers s)) h ?s"
    using assms(2) owner_signal by (cases h) (auto simp: hung_def nth_append)
  from hung_run [OF this, of ls' s'] assms(3)
  have *: "hung (length (sg_handlers s)) h s'" "h = ByMain \<longrightarrow> sg_main s' = sg_main s"
    "\<forall>i. h = ByHandler i \<longrightarrow> pc_at s' i = pc_at ?s i" by auto
  moreover have "sg_main s' \<noteq> MDone" if "h = ByHandler i" for i
    using * that by (auto simp: hung_def owner_ok_def main_in_section_def)
  ultimately show ?thesis using k by (auto simp: hung_def nth_append)
qed

theorem signal_hangs_main_witness:
  "(\<exists>s. sig_run [SMain] sig_init = Some s \<and> sg_owner s = Some ByMain \<and>
     (\<forall>ls' s'. sig_run (SSignal 0 # ls') s = Some s' \<longrightarrow> sg_main s' = MLocked)) \<and>
   (\<exists>s. sig_run [SMain, SMain, SSignal 3, SHandler 0] sig_init = Some s \<and> sg_owner s = Some (ByHandler 0) \<and>
     (\<forall>ls' s'. sig_run (SSignal 3 # ls') s = Some s' \<longrightarrow> sg_main s' \<noteq> MDone))"
proof
  let ?s = "sig_init\<lparr>sg_owner := Some ByMain, sg_main := MLocked\<rparr>"
  have s: "sig_run [SMain] sig_init = Some ?s"
    by (simp add: main_step_def sig_init_def interrupted_after_def)
  have "sg_main s' = MLocked" if "sig_run (SSignal 0 # ls') ?s = Some s'" for ls' s'
    using signal_hangs_main [OF s, of ByMain ls' s'] that by simp
  with s show "\<exists>s. sig_run [SMain] sig_init = Some s \<and> sg_owner s = Some ByMain \<and>
     (\<forall>ls' s'. sig_run (SSignal 0 # ls') s = Some s' \<longrightarrow> sg_main s' = MLocked)" by auto
next
  let ?s = "\<lparr>sg_stopped = False, sg_owner = Some (ByHandler 0), sg_main = MWaiting,
    sg_handlers = [\<lparr>h_thread = 3, h_pc = HLocked\<rparr>]\<rparr>"
  have s: "sig_run [SMain, SMain, SSignal 3, SHandler 0] sig_init = Some ?s"
    by (simp add: main_step_def sig_init_def interrupted_after_def onSignal_step_def set_pc_def)
  have "sg_main s' \<noteq> MDone" if "sig_run (SSignal 3 # ls') ?s = Some s'" for ls' s'
    using signal_hangs_main [OF s, of "ByHandler 0" ls' s'] that by simp
  with s show "\<exists>s. sig_run [SMain, SMain, SSignal 3, SHandler 0] sig_init = Some s \<and>
     sg_owner s = Some (ByHandler 0) \<and>
     (\<forall>ls' s'. sig_run (SSignal 3 # ls') s = Some s' \<longrightarrow> sg_main s' \<noteq> MDone)" by auto
qed

end
