(* ===== verification/Postgres.thy ===== *)
theory Postgres
  imports Domain
begin

text \<open>
  \<open>infrastructure/database/postgres_pool.{hpp,cpp}\<close> and \<open>infrastructure/repositories/\<close>: the
  connection pool and the repositories on \<open>libpqxx\<close>. The client library and the database are
  parameters: \<open>pg_lib\<close> has the calls the sources make, and \<open>postgres_messages\<close>,
  \<open>postgres_users\<close> and \<open>postgres_chats\<close> say what the SQL statements in the sources mean.
\<close>

section \<open>PostgresPool\<close>

record 'c postgres_pool =
  pool :: "'c list"
  next_conn :: size_t

text \<open>
  The \<open>i\<close>-th construction of a \<open>pqxx::connection\<close> may throw; otherwise it gives a connection
  and its \<open>is_open()\<close>.
\<close>

type_synonym 'c connector = "nat \<Rightarrow> ('c \<times> bool) result"

fun pool_fill :: "'c connector \<Rightarrow> nat \<Rightarrow> nat \<Rightarrow> 'c list \<Rightarrow> 'c list result" where
  "pool_fill connect i 0 acc = Inr acc"
| "pool_fill connect i (Suc k) acc =
     rbind (connect i) (\<lambda>(connection, is_open).
       if \<not> is_open then Inl (InfrastructureError ''failed to open postgres connection'')
       else pool_fill connect (Suc i) k (acc @ [connection]))"

definition PostgresPool_new :: "'c connector \<Rightarrow> size_t \<Rightarrow> 'c postgres_pool result" where
  "PostgresPool_new connect poolSize =
     (if poolSize = 0 then Inl (InfrastructureError ''postgres pool size must be > 0'')
      else rbind (pool_fill connect 0 (unat poolSize) []) (\<lambda>cs. Inr \<lparr>pool = cs, next_conn = 0\<rparr>))"

definition PostgresPool_acquire :: "'c postgres_pool \<Rightarrow> 'c \<times> 'c postgres_pool" where
  "PostgresPool_acquire p =
     (let index = next_conn p mod of_nat (length (pool p))
      in (pool p ! unat index, p\<lparr>next_conn := next_conn p + 1\<rparr>))"

fun pool_acquires :: "nat \<Rightarrow> 'c postgres_pool \<Rightarrow> 'c list \<times> 'c postgres_pool" where
  "pool_acquires 0 p = ([], p)"
| "pool_acquires (Suc k) p =
     (case PostgresPool_acquire p of (c, p') \<Rightarrow>
      case pool_acquires k p' of (cs, p'') \<Rightarrow> (c # cs, p''))"

section \<open>The client library\<close>

text \<open>
  A transaction works on its own view of the database. \<open>pg_commit\<close> gets the state before the
  transaction and the view; its outcome may be an exception with the commit done or not.
  Without a commit the destructor of \<open>pqxx::work\<close> rolls back and the view is dropped.
\<close>

record ('c, 'd, 'r) pg_lib =
  pg_work :: "'c \<Rightarrow> 'd \<Rightarrow> 'd result"
  pg_exec_params :: "'c \<Rightarrow> string \<Rightarrow> string list \<Rightarrow> 'd \<Rightarrow> ('r list \<times> 'd) result"
  pg_commit :: "'c \<Rightarrow> 'd \<Rightarrow> 'd \<Rightarrow> unit result \<times> 'd"
  pg_as_string :: "'r \<Rightarrow> string \<Rightarrow> string result"
  pg_as_int32 :: "'r \<Rightarrow> string \<Rightarrow> int result"

record ('c, 'd) pg_state =
  pg_pool :: "'c postgres_pool"
  pg_db :: 'd

text \<open>The shape of a writing repository method: one statement in its own transaction.\<close>

definition pg_insert ::
  "('c, 'd, 'r) pg_lib \<Rightarrow> string \<Rightarrow> string list \<Rightarrow> ('c, 'd) pg_state \<Rightarrow> bool result \<times> ('c, 'd) pg_state" where
  "pg_insert P sql params s =
     (case PostgresPool_acquire (pg_pool s) of (connection, pool') \<Rightarrow>
      let s1 = s\<lparr>pg_pool := pool'\<rparr> in
      case rbind (pg_work P connection (pg_db s)) (pg_exec_params P connection sql params) of
        Inl e \<Rightarrow> (Inl e, s1)
      | Inr (_, view) \<Rightarrow>
          (case pg_commit P connection (pg_db s) view of
             (Inl e, d') \<Rightarrow> (Inl e, s1\<lparr>pg_db := d'\<rparr>)
           | (Inr _, d') \<Rightarrow> (Inr True, s1\<lparr>pg_db := d'\<rparr>)))"

text \<open>The shape of a reading method: one statement, no commit.\<close>

definition pg_select ::
  "('c, 'd, 'r) pg_lib \<Rightarrow> string \<Rightarrow> string list \<Rightarrow> ('c, 'd) pg_state \<Rightarrow> 'r list result \<times> ('c, 'd) pg_state" where
  "pg_select P sql params s =
     (case PostgresPool_acquire (pg_pool s) of (connection, pool') \<Rightarrow>
      (rbind (pg_work P connection (pg_db s)) (\<lambda>view.
         rbind (pg_exec_params P connection sql params view) (\<lambda>(rows, _). Inr rows)),
       s\<lparr>pg_pool := pool'\<rparr>))"

section \<open>Repositories\<close>

definition insert_message_sql :: string where
  "insert_message_sql =
     ''INSERT INTO messages (id, chat_id, sender_id, content, created_at) VALUES ($1, $2, $3, $4, NOW())''"

definition select_messages_sql :: string where
  "select_messages_sql =
     ''SELECT id, chat_id, sender_id, content FROM messages WHERE chat_id = $1 ORDER BY created_at DESC LIMIT $2''"

definition PostgresMessageRepository_create ::
  "('c, 'd, 'r) pg_lib \<Rightarrow> uuid_lib \<Rightarrow> Message \<Rightarrow> ('c, 'd) pg_state \<Rightarrow> bool result \<times> ('c, 'd) pg_state" where
  "PostgresMessageRepository_create P U message =
     pg_insert P insert_message_sql
       [uuid_to_string U (msg_id message), uuid_to_string U (msg_chatId message),
        uuid_to_string U (msg_senderId message), msg_content message]"

definition row_message :: "('c, 'd, 'r) pg_lib \<Rightarrow> uuid_lib \<Rightarrow> time_point \<Rightarrow> 'r \<Rightarrow> Message result" where
  "row_message P U now row =
     rbind (rbind (pg_as_string P row ''id'') (string_generator U)) (\<lambda>i.
     rbind (rbind (pg_as_string P row ''chat_id'') (string_generator U)) (\<lambda>c.
     rbind (rbind (pg_as_string P row ''sender_id'') (string_generator U)) (\<lambda>s.
     rbind (pg_as_string P row ''content'') (\<lambda>t.
       Inr (Message_new i c s t now)))))"

fun rows_messages :: "('c, 'd, 'r) pg_lib \<Rightarrow> uuid_lib \<Rightarrow> time_point \<Rightarrow> 'r list \<Rightarrow> Message list result" where
  "rows_messages P U now [] = Inr []"
| "rows_messages P U now (row # rows) =
     rbind (row_message P U now row) (\<lambda>m. rbind (rows_messages P U now rows) (\<lambda>ms. Inr (m # ms)))"

definition PostgresMessageRepository_getByChat ::
  "('c, 'd, 'r) pg_lib \<Rightarrow> uuid_lib \<Rightarrow> uuid \<Rightarrow> size_t \<Rightarrow> time_point \<Rightarrow> ('c, 'd) pg_state
     \<Rightarrow> Message list result \<times> ('c, 'd) pg_state" where
  "PostgresMessageRepository_getByChat P U chatId limit now s =
     (case pg_select P select_messages_sql [uuid_to_string U chatId, to_string (unat limit)] s of
        (r, s') \<Rightarrow> (rbind r (rows_messages P U now), s'))"

definition find_user_sql :: string where
  "find_user_sql = ''SELECT id, username, password_hash FROM users WHERE username = $1''"

definition insert_user_sql :: string where
  "insert_user_sql =
     ''INSERT INTO users (id, username, password_hash, created_at) VALUES ($1, $2, $3, NOW())''"

definition PostgresUserRepository_findByUsername ::
  "('c, 'd, 'r) pg_lib \<Rightarrow> uuid_lib \<Rightarrow> string \<Rightarrow> time_point \<Rightarrow> ('c, 'd) pg_state
     \<Rightarrow> User option result \<times> ('c, 'd) pg_state" where
  "PostgresUserRepository_findByUsername P U username now s =
     (case pg_select P find_user_sql [username] s of
        (r, s') \<Rightarrow>
          (rbind r (\<lambda>result.
             case result of
               [] \<Rightarrow> Inr None
             | row # _ \<Rightarrow>
                 rbind (rbind (pg_as_string P row ''id'') (string_generator U)) (\<lambda>i.
                 rbind (pg_as_string P row ''username'') (\<lambda>name.
                 rbind (pg_as_string P row ''password_hash'') (\<lambda>hash.
                   Inr (Some (User_new i name hash now)))))), s'))"

definition PostgresUserRepository_create ::
  "('c, 'd, 'r) pg_lib \<Rightarrow> uuid_lib \<Rightarrow> User \<Rightarrow> ('c, 'd) pg_state \<Rightarrow> bool result \<times> ('c, 'd) pg_state" where
  "PostgresUserRepository_create P U user =
     pg_insert P insert_user_sql
       [uuid_to_string U (user_id user), user_username user, user_passwordHash user]"

definition insert_chat_sql :: string where
  "insert_chat_sql = ''INSERT INTO chats (id, type, created_at) VALUES ($1, $2, NOW())''"

definition find_chat_sql :: string where
  "find_chat_sql = ''SELECT id, type FROM chats WHERE id = $1''"

definition PostgresChatRepository_create ::
  "('c, 'd, 'r) pg_lib \<Rightarrow> uuid_lib \<Rightarrow> Chat \<Rightarrow> ('c, 'd) pg_state \<Rightarrow> bool result \<times> ('c, 'd) pg_state" where
  "PostgresChatRepository_create P U c =
     pg_insert P insert_chat_sql [uuid_to_string U (chat_id c), to_string (unat (chat_type c))]"

text \<open>The cast from \<open>std::int32_t\<close> to the \<open>std::uint8_t\<close> enumeration keeps the low byte.\<close>

definition PostgresChatRepository_findById ::
  "('c, 'd, 'r) pg_lib \<Rightarrow> uuid_lib \<Rightarrow> uuid \<Rightarrow> time_point \<Rightarrow> ('c, 'd) pg_state
     \<Rightarrow> Chat option result \<times> ('c, 'd) pg_state" where
  "PostgresChatRepository_findById P U i now s =
     (case pg_select P find_chat_sql [uuid_to_string U i] s of
        (r, s') \<Rightarrow>
          (rbind r (\<lambda>result.
             case result of
               [] \<Rightarrow> Inr None
             | row # _ \<Rightarrow>
                 rbind (rbind (pg_as_string P row ''id'') (string_generator U)) (\<lambda>i.
                 rbind (pg_as_int32 P row ''type'') (\<lambda>t.
                   Inr (Some (Chat_new i (word_of_int t) now))))), s'))"

section \<open>What the statements mean\<close>

text \<open>
  A table is a list of rows, a row the list of its texts in the order of the statement's
  parameters. A new transaction sees the table as it is; a commit keeps the view.
\<close>

type_synonym pg_table = "string list list"

definition pg_transactions :: "('c, 'd, 'r) pg_lib \<Rightarrow> ('d \<Rightarrow> 't) \<Rightarrow> bool" where
  "pg_transactions P tbl \<longleftrightarrow>
     (\<forall>c d v. pg_work P c d = Inr v \<longrightarrow> tbl v = tbl d) \<and>
     (\<forall>c d v r d'. pg_commit P c d v = (r, d') \<longrightarrow>
        tbl d' \<in> {tbl d, tbl v} \<and> (r = Inr () \<longrightarrow> tbl d' = tbl v))"

definition pg_inserts :: "('c, 'd, 'r) pg_lib \<Rightarrow> string \<Rightarrow> ('d \<Rightarrow> pg_table) \<Rightarrow> bool" where
  "pg_inserts P sql tbl \<longleftrightarrow>
     pg_transactions P tbl \<and>
     (\<forall>c row d rs v. pg_exec_params P c sql row d = Inr (rs, v) \<longrightarrow> tbl v = tbl d @ [row])"

definition row_is :: "('c, 'd, 'r) pg_lib \<Rightarrow> string list \<Rightarrow> 'r \<Rightarrow> string list \<Rightarrow> bool" where
  "row_is P columns r row \<longleftrightarrow> list_all2 (\<lambda>column text. pg_as_string P r column = Inr text) columns row"

definition postgres_messages :: "('c, 'd, 'r) pg_lib \<Rightarrow> ('d \<Rightarrow> pg_table) \<Rightarrow> bool" where
  "postgres_messages P tbl \<longleftrightarrow>
     pg_inserts P insert_message_sql tbl \<and>
     (\<forall>c chat n d rs v. pg_exec_params P c select_messages_sql [chat, to_string n] d = Inr (rs, v) \<longrightarrow>
        length rs = min n (length (filter (\<lambda>row. row ! 1 = chat) (tbl d))) \<and>
        (\<exists>rows. mset rows \<subseteq># mset (filter (\<lambda>row. row ! 1 = chat) (tbl d)) \<and>
           list_all2 (row_is P [''id'', ''chat_id'', ''sender_id'', ''content'']) rs rows))"

definition postgres_users :: "('c, 'd, 'r) pg_lib \<Rightarrow> ('d \<Rightarrow> pg_table) \<Rightarrow> bool" where
  "postgres_users P tbl \<longleftrightarrow>
     pg_inserts P insert_user_sql tbl \<and>
     (\<forall>c name d rs v. pg_exec_params P c find_user_sql [name] d = Inr (rs, v) \<longrightarrow>
        (rs = [] \<longrightarrow> (\<forall>row \<in> set (tbl d). row ! 1 \<noteq> name)) \<and>
        (\<forall>r \<in> set rs. \<exists>row \<in> set (tbl d). row ! 1 = name \<and>
           row_is P [''id'', ''username'', ''password_hash''] r row))"

definition postgres_chats :: "('c, 'd, 'r) pg_lib \<Rightarrow> ('d \<Rightarrow> pg_table) \<Rightarrow> bool" where
  "postgres_chats P tbl \<longleftrightarrow>
     pg_inserts P insert_chat_sql tbl \<and>
     (\<forall>c i d rs v. pg_exec_params P c find_chat_sql [i] d = Inr (rs, v) \<longrightarrow>
        (rs = [] \<longrightarrow> (\<forall>row \<in> set (tbl d). row ! 0 \<noteq> i)) \<and>
        (\<forall>r \<in> set rs. \<exists>row \<in> set (tbl d). \<exists>n. row = [i, to_string n] \<and>
           pg_as_string P r ''id'' = Inr i \<and> pg_as_int32 P r ''type'' = Inr (int n)))"

section \<open>Tables as stored entities\<close>

definition text_uuid :: "uuid_lib \<Rightarrow> string \<Rightarrow> uuid" where
  "text_uuid U s = (case string_generator U s of Inr u \<Rightarrow> u | Inl _ \<Rightarrow> 0)"

definition row_stored :: "uuid_lib \<Rightarrow> string list \<Rightarrow> stored_message" where
  "row_stored U row = (text_uuid U (row ! 0), text_uuid U (row ! 1), text_uuid U (row ! 2), row ! 3)"

definition pg_messages :: "uuid_lib \<Rightarrow> ('d \<Rightarrow> pg_table) \<Rightarrow> ('c, 'd) pg_state \<Rightarrow> stored_message list" where
  "pg_messages U tbl s = map (row_stored U) (tbl (pg_db s))"

definition message_row :: "uuid_lib \<Rightarrow> string list \<Rightarrow> bool" where
  "message_row U row \<longleftrightarrow>
     (\<exists>i c s t. row = [uuid_to_string U i, uuid_to_string U c, uuid_to_string U s, t])"

definition messages_inv ::
  "('c, 'd, 'r) pg_lib \<Rightarrow> uuid_lib \<Rightarrow> ('d \<Rightarrow> pg_table) \<Rightarrow> ('c, 'd) pg_state \<Rightarrow> bool" where
  "messages_inv P U tbl s \<longleftrightarrow>
     boost_uuid U \<and> postgres_messages P tbl \<and> (\<forall>row \<in> set (tbl (pg_db s)). message_row U row)"

definition row_stored_u :: "uuid_lib \<Rightarrow> string list \<Rightarrow> stored_user" where
  "row_stored_u U row = (text_uuid U (row ! 0), row ! 1, row ! 2)"

definition user_row :: "uuid_lib \<Rightarrow> string list \<Rightarrow> bool" where
  "user_row U row \<longleftrightarrow> (\<exists>i name hash. row = [uuid_to_string U i, name, hash])"

definition pg_users :: "uuid_lib \<Rightarrow> ('d \<Rightarrow> pg_table) \<Rightarrow> ('c, 'd) pg_state \<Rightarrow> stored_user list" where
  "pg_users U tbl s = map (row_stored_u U) (tbl (pg_db s))"

definition users_inv ::
  "('c, 'd, 'r) pg_lib \<Rightarrow> uuid_lib \<Rightarrow> ('d \<Rightarrow> pg_table) \<Rightarrow> ('c, 'd) pg_state \<Rightarrow> bool" where
  "users_inv P U tbl s \<longleftrightarrow>
     boost_uuid U \<and> postgres_users P tbl \<and>
     (\<forall>row \<in> set (tbl (pg_db s)). user_row U row)"

definition chat_row :: "uuid_lib \<Rightarrow> string list \<Rightarrow> bool" where
  "chat_row U row \<longleftrightarrow> (\<exists>i n. row = [uuid_to_string U i, to_string n])"

definition pg_chats :: "uuid_lib \<Rightarrow> ('d \<Rightarrow> pg_table) \<Rightarrow> ('c, 'd) pg_state \<Rightarrow> (uuid \<times> 8 word) list" where
  "pg_chats U tbl s = map (\<lambda>row. (text_uuid U (row ! 0), of_nat (radix_value 10 (row ! 1)))) (tbl (pg_db s))"

definition chats_inv ::
  "('c, 'd, 'r) pg_lib \<Rightarrow> uuid_lib \<Rightarrow> ('d \<Rightarrow> pg_table) \<Rightarrow> ('c, 'd) pg_state \<Rightarrow> bool" where
  "chats_inv P U tbl s \<longleftrightarrow>
     boost_uuid U \<and> postgres_chats P tbl \<and>
     (\<forall>row \<in> set (tbl (pg_db s)). chat_row U row)"

section \<open>Lemmas on the two shapes\<close>

lemma text_uuid [simp]: "boost_uuid U \<Longrightarrow> text_uuid U (uuid_to_string U u) = u"
  by (simp add: text_uuid_def boost_uuid_roundtrip)

lemma uuid_text_inject: "boost_uuid U \<Longrightarrow> uuid_to_string U a = uuid_to_string U b \<longleftrightarrow> a = b"
  by (metis text_uuid)

lemma pg_insert_view:
  assumes "pg_transactions P tbl" and "pg_insert P sql row s = (r, s')"
  shows "(r \<noteq> Inr True \<and> tbl (pg_db s') = tbl (pg_db s)) \<or>
    (\<exists>c d rs v. pg_work P c (pg_db s) = Inr d \<and> pg_exec_params P c sql row d = Inr (rs, v) \<and>
       tbl d = tbl (pg_db s) \<and> tbl (pg_db s') = tbl v)"
proof -
  obtain c pool' where a: "PostgresPool_acquire (pg_pool s) = (c, pool')" by fastforce
  show ?thesis
  proof (cases "rbind (pg_work P c (pg_db s)) (pg_exec_params P c sql row)")
    case (Inl e)
    with assms(2) a show ?thesis by (auto simp: pg_insert_def Let_def)
  next
    case (Inr x)
    obtain rs v where x: "x = (rs, v)" by (cases x)
    with Inr assms(1) obtain d where d: "pg_work P c (pg_db s) = Inr d" "pg_exec_params P c sql row d = Inr (rs, v)"
      "tbl d = tbl (pg_db s)" by (auto simp: rbind_eq_Inr pg_transactions_def)
    obtain cr d' where k: "pg_commit P c (pg_db s) v = (cr, d')" by fastforce
    with assms(1) have "tbl d' \<in> {tbl (pg_db s), tbl v}" "cr = Inr () \<longrightarrow> tbl d' = tbl v"
      by (auto simp: pg_transactions_def)
    moreover from assms(2) a Inr x k have "pg_db s' = d'" "r = Inr True \<longrightarrow> cr = Inr ()"
      by (cases cr; auto simp: pg_insert_def Let_def)+
    ultimately show ?thesis using d by (metis insertE singletonD)
  qed
qed

lemma pg_insert_table:
  assumes "pg_inserts P sql tbl" and "pg_insert P sql row s = (r, s')"
  shows "tbl (pg_db s') \<in> {tbl (pg_db s), tbl (pg_db s) @ [row]} \<and>
         (r = Inr True \<longrightarrow> tbl (pg_db s') = tbl (pg_db s) @ [row])"
  using pg_insert_view [OF _ assms(2), of tbl] assms(1) unfolding pg_inserts_def by (metis insertCI)

lemma pg_select_db: "pg_select P sql params s = (r, s') \<Longrightarrow> pg_db s' = pg_db s"
  by (auto simp: pg_select_def split: prod.splits)

lemma pg_select_rows:
  assumes "pg_transactions P tbl" and "pg_select P sql params s = (Inr rs, s')"
  obtains c v w where "pg_exec_params P c sql params v = Inr (rs, w)" and "tbl v = tbl (pg_db s)"
  using assms by (force simp: pg_select_def pg_transactions_def rbind_eq_Inr split: prod.splits)

lemma pg_inserts_transactions: "pg_inserts P sql tbl \<Longrightarrow> pg_transactions P tbl"
  by (simp add: pg_inserts_def)

section \<open>The repositories implement the ports\<close>

lemma row_stored_new:
  "boost_uuid U \<Longrightarrow> row_stored U [uuid_to_string U (msg_id m), uuid_to_string U (msg_chatId m),
     uuid_to_string U (msg_senderId m), msg_content m] = stored m"
  by (simp add: row_stored_def stored_def)

lemma row_message_is:
  assumes "boost_uuid U" and "message_row U row"
    and "row_is P [''id'', ''chat_id'', ''sender_id'', ''content''] r row"
    and "row_message P U now r = Inr m"
  shows "stored m = row_stored U row"
  using assms by (auto simp: message_row_def row_is_def row_message_def rbind_eq_Inr row_stored_def
      stored_def Message_new_def boost_uuid_roundtrip)

lemma rows_messages_list:
  "rows_messages P U now rs = Inr ms \<Longrightarrow>
     list_all2 (\<lambda>m r. row_message P U now r = Inr m) ms rs"
proof (induction rs arbitrary: ms)
  case (Cons r rs)
  then show ?case by (auto simp: rbind_eq_Inr)
qed simp

lemma filter_rows_chat:
  assumes "boost_uuid U" and "\<forall>row \<in> set rows. message_row U row"
  shows "filter (in_chat c) (map (row_stored U) rows) =
         map (row_stored U) (filter (\<lambda>row. row ! 1 = uuid_to_string U c) rows)"
  using assms(2)
proof (induction rows)
  case (Cons row rows)
  have "in_chat c (row_stored U row) \<longleftrightarrow> row ! 1 = uuid_to_string U c"
    using Cons.prems assms(1)
    by (auto simp: in_chat_def row_stored_def message_row_def uuid_text_inject)
  with Cons show ?case by simp
qed simp

text \<open>The rows a history is made of, and the messages made of them.\<close>

lemma history_select:
  assumes "pg_transactions P tbl" and "PostgresMessageRepository_getByChat P U c n now s = (Inr ms, s')"
  obtains k v w rs where "pg_exec_params P k select_messages_sql [uuid_to_string U c, to_string (unat n)] v = Inr (rs, w)"
    and "tbl v = tbl (pg_db s)" and "rows_messages P U now rs = Inr ms"
proof -
  from assms(2) obtain rs where sel: "pg_select P select_messages_sql [uuid_to_string U c, to_string (unat n)] s = (Inr rs, s')"
    and ms: "rows_messages P U now rs = Inr ms"
    by (auto simp: PostgresMessageRepository_getByChat_def rbind_eq_Inr split: prod.splits)
  show thesis by (rule pg_select_rows [OF assms(1) sel]) (rule that [OF _ _ ms])
qed

lemma rows_messages_stored:
  assumes "boost_uuid U" and "\<forall>x \<in> set xs. message_row U x" and "rows_messages P U now rs = Inr ms"
    and "list_all2 (row_is P [''id'', ''chat_id'', ''sender_id'', ''content'']) rs xs"
  shows "map stored ms = map (row_stored U) xs"
  using assms(4,2,3)
proof (induction rs xs arbitrary: ms rule: list_all2_induct)
  case (Cons r rs x xs)
  then show ?case using row_message_is [OF assms(1)] by (auto simp: rbind_eq_Inr)
qed simp

lemma history_rows:
  assumes inv: "messages_inv P U tbl s"
    and g: "PostgresMessageRepository_getByChat P U c n now s = (Inr ms, s')"
  shows "length ms = min (unat n) (length (filter (in_chat c) (pg_messages U tbl s)))"
    and "mset (map stored ms) \<subseteq># mset (filter (in_chat c) (pg_messages U tbl s))"
proof -
  from inv have U: "boost_uuid U" and P: "postgres_messages P tbl"
    and rows: "\<forall>row \<in> set (tbl (pg_db s)). message_row U row" by (auto simp: messages_inv_def)
  from P have "pg_transactions P tbl" by (auto simp: postgres_messages_def pg_inserts_def)
  from history_select [OF this g] obtain k v w rs where
    e: "pg_exec_params P k select_messages_sql [uuid_to_string U c, to_string (unat n)] v = Inr (rs, w)"
    and v: "tbl v = tbl (pg_db s)" and ms: "rows_messages P U now rs = Inr ms" .
  note F = filter_rows_chat [OF U rows, of c]
  from P e v have len: "length rs = min (unat n) (length (filter (\<lambda>row. row ! 1 = uuid_to_string U c) (tbl (pg_db s))))"
    unfolding postgres_messages_def by metis
  from P e v obtain xs where xs: "mset xs \<subseteq># mset (filter (\<lambda>row. row ! 1 = uuid_to_string U c) (tbl (pg_db s)))"
    "list_all2 (row_is P [''id'', ''chat_id'', ''sender_id'', ''content'']) rs xs"
    unfolding postgres_messages_def by metis
  show "length ms = min (unat n) (length (filter (in_chat c) (pg_messages U tbl s)))"
    using list_all2_lengthD [OF rows_messages_list [OF ms]] len by (simp add: pg_messages_def F)
  have "\<forall>x \<in> set xs. message_row U x" using rows mset_subset_eqD [OF xs(1)] by auto
  from rows_messages_stored [OF U this ms xs(2)]
  have "mset (map stored ms) = image_mset (row_stored U) (mset xs)" by (metis mset_map)
  then show "mset (map stored ms) \<subseteq># mset (filter (in_chat c) (pg_messages U tbl s))"
    using image_mset_subseteq_mono [OF xs(1)] by (simp add: pg_messages_def F del: mset_filter)
qed

interpretation pgm: message_store
  "PostgresMessageRepository_create P U" "PostgresMessageRepository_getByChat P U"
  "pg_messages U tbl" "messages_inv P U tbl"
  for P U tbl
proof (unfold_locales, goal_cases)
  case (1 d m r d')
  then have U: "boost_uuid U" and i: "pg_inserts P insert_message_sql tbl"
    by (auto simp: messages_inv_def postgres_messages_def)
  let ?row = "[uuid_to_string U (msg_id m), uuid_to_string U (msg_chatId m),
     uuid_to_string U (msg_senderId m), msg_content m]"
  from pg_insert_table [OF i] 1(2) have
    "tbl (pg_db d') \<in> {tbl (pg_db d), tbl (pg_db d) @ [?row]} \<and>
     (r = Inr True \<longrightarrow> tbl (pg_db d') = tbl (pg_db d) @ [?row])"
    by (simp add: PostgresMessageRepository_create_def)
  moreover have "message_row U ?row" by (auto simp: message_row_def)
  ultimately show ?case
    using 1(1) row_stored_new [OF U, of m] by (auto simp: messages_inv_def pg_messages_def)
next
  case (2 d c n now res d')
  have db: "pg_db d' = pg_db d"
    using 2(2) pg_select_db by (fastforce simp: PostgresMessageRepository_getByChat_def split: prod.splits)
  with 2 history_rows [of P U tbl d c n now _ d'] show ?case
    by (auto simp: messages_inv_def pg_messages_def)
qed

lemma pg_insert_reports: "pg_insert P sql row s = (Inr b, s') \<Longrightarrow> b"
  by (auto simp: pg_insert_def Let_def split: prod.splits sum.splits)

interpretation pgl: reliable_message_store
  "PostgresMessageRepository_create P U" "PostgresMessageRepository_getByChat P U"
  "pg_messages U tbl" "messages_inv P U tbl"
  for P U tbl
  by unfold_locales (auto simp: PostgresMessageRepository_create_def dest: pg_insert_reports)

lemma find_user_row:
  assumes inv: "users_inv P U tbl s"
    and g: "PostgresUserRepository_findByUsername P U name now s = (Inr r, s')"
  shows "case r of None \<Rightarrow> name \<notin> set (map name_of (pg_users U tbl s))
     | Some u \<Rightarrow> user_username u = name \<and> stored_u u \<in> set (pg_users U tbl s)"
proof -
  from inv have U: "boost_uuid U" and P: "postgres_users P tbl"
    and rows: "\<forall>row \<in> set (tbl (pg_db s)). user_row U row"
    by (auto simp: users_inv_def)
  from g obtain rs where sel: "pg_select P find_user_sql [name] s = (Inr rs, s')"
    by (auto simp: PostgresUserRepository_findByUsername_def rbind_eq_Inr split: prod.splits)
  from P have "pg_transactions P tbl" by (auto simp: postgres_users_def pg_inserts_def)
  from pg_select_rows [OF this sel] obtain k v w where
    e: "pg_exec_params P k find_user_sql [name] v = Inr (rs, w)" and v: "tbl v = tbl (pg_db s)" .
  show ?thesis
  proof (cases rs)
    case Nil
    with P e v have "\<forall>row \<in> set (tbl (pg_db s)). row ! 1 \<noteq> name"
      unfolding postgres_users_def by metis
    with g sel Nil show ?thesis
      by (auto simp: PostgresUserRepository_findByUsername_def pg_users_def row_stored_u_def)
  next
    case (Cons x xs)
    with P e v obtain row where row: "row \<in> set (tbl (pg_db s))" "row ! 1 = name"
      "row_is P [''id'', ''username'', ''password_hash''] x row"
      unfolding postgres_users_def by (metis list.set_intros(1))
    with rows obtain i hash where r: "row = [uuid_to_string U i, name, hash]"
      by (force simp: user_row_def)
    with row(3) g sel Cons U have "r = Some (User_new i name hash now)"
      by (simp add: PostgresUserRepository_findByUsername_def row_is_def boost_uuid_roundtrip)
    moreover have "(i, name, hash) \<in> set (pg_users U tbl s)"
      using row(1) r U by (force simp: pg_users_def row_stored_u_def)
    ultimately show ?thesis by (simp add: User_new_def stored_u_def)
  qed
qed

interpretation pgu: user_store
  "PostgresUserRepository_findByUsername P U" "PostgresUserRepository_create P U"
  "pg_users U tbl" "users_inv P U tbl"
  for P U tbl
proof (unfold_locales, goal_cases)
  case (1 d u r d')
  then have U: "boost_uuid U" and i: "pg_inserts P insert_user_sql tbl"
    by (auto simp: users_inv_def postgres_users_def)
  from pg_insert_table [OF i] 1(2) have
    "tbl (pg_db d') \<in> {tbl (pg_db d), tbl (pg_db d) @ [[uuid_to_string U (user_id u), user_username u, user_passwordHash u]]} \<and>
     (r = Inr True \<longrightarrow> tbl (pg_db d') = tbl (pg_db d) @ [[uuid_to_string U (user_id u), user_username u, user_passwordHash u]])"
    by (simp add: PostgresUserRepository_create_def)
  moreover have "user_row U [uuid_to_string U (user_id u), user_username u, user_passwordHash u]"
    by (auto simp: user_row_def)
  ultimately show ?case
    using 1(1) U by (auto simp: users_inv_def pg_users_def row_stored_u_def stored_u_def)
next
  case (2 d name now res d')
  have db: "pg_db d' = pg_db d"
    using 2(2) pg_select_db by (fastforce simp: PostgresUserRepository_findByUsername_def split: prod.splits)
  with 2 find_user_row [of P U tbl d name now _ d'] show ?case
    by (cases res) (auto simp: users_inv_def pg_users_def split: option.splits)
qed

lemma find_chat_row:
  assumes inv: "chats_inv P U tbl s"
    and g: "PostgresChatRepository_findById P U i now s = (Inr r, s')"
  shows "case r of None \<Rightarrow> i \<notin> set (map fst (pg_chats U tbl s))
     | Some c \<Rightarrow> chat_id c = i \<and> (i, chat_type c) \<in> set (pg_chats U tbl s)"
proof -
  from inv have U: "boost_uuid U" and P: "postgres_chats P tbl"
    and rows: "\<forall>row \<in> set (tbl (pg_db s)). chat_row U row" by (auto simp: chats_inv_def)
  from g obtain rs where sel: "pg_select P find_chat_sql [uuid_to_string U i] s = (Inr rs, s')"
    by (auto simp: PostgresChatRepository_findById_def rbind_eq_Inr split: prod.splits)
  from P have "pg_transactions P tbl" by (auto simp: postgres_chats_def pg_inserts_def)
  from pg_select_rows [OF this sel] obtain k v w where
    e: "pg_exec_params P k find_chat_sql [uuid_to_string U i] v = Inr (rs, w)" and v: "tbl v = tbl (pg_db s)" .
  show ?thesis
  proof (cases rs)
    case Nil
    with P e v have no: "\<forall>row \<in> set (tbl (pg_db s)). row ! 0 \<noteq> uuid_to_string U i"
      unfolding postgres_chats_def by metis
    have "i \<notin> set (map fst (pg_chats U tbl s))"
    proof
      assume "i \<in> set (map fst (pg_chats U tbl s))"
      then obtain row where "row \<in> set (tbl (pg_db s))" "i = text_uuid U (row ! 0)"
        by (auto simp: pg_chats_def)
      moreover from this(1) rows obtain j n where "row = [uuid_to_string U j, to_string n]"
        by (auto simp: chat_row_def)
      ultimately show False using no U by auto
    qed
    with g sel Nil show ?thesis by (simp add: PostgresChatRepository_findById_def)
  next
    case (Cons x xs)
    then have "x \<in> set rs" by simp
    with P e v obtain n where n: "[uuid_to_string U i, to_string n] \<in> set (tbl (pg_db s))"
      "pg_as_string P x ''id'' = Inr (uuid_to_string U i)" "pg_as_int32 P x ''type'' = Inr (int n)"
      unfolding postgres_chats_def by metis
    then have "r = Some (Chat_new i (of_nat n) now)"
      using g sel Cons U by (simp add: PostgresChatRepository_findById_def boost_uuid_roundtrip)
    moreover have "(i, of_nat n) \<in> set (pg_chats U tbl s)"
      using n(1) U by (force simp: pg_chats_def to_string_value)
    ultimately show ?thesis by (simp add: Chat_new_def)
  qed
qed

interpretation pgc: chat_store
  "PostgresChatRepository_create P U" "PostgresChatRepository_findById P U"
  "pg_chats U tbl" "chats_inv P U tbl"
  for P U tbl
proof (unfold_locales, goal_cases)
  case (1 d c r d')
  then have U: "boost_uuid U" and i: "pg_inserts P insert_chat_sql tbl"
    by (auto simp: chats_inv_def postgres_chats_def)
  from pg_insert_table [OF i] 1(2) have
    "tbl (pg_db d') \<in> {tbl (pg_db d), tbl (pg_db d) @ [[uuid_to_string U (chat_id c), to_string (unat (chat_type c))]]} \<and>
     (r = Inr True \<longrightarrow> tbl (pg_db d') = tbl (pg_db d) @ [[uuid_to_string U (chat_id c), to_string (unat (chat_type c))]])"
    by (simp add: PostgresChatRepository_create_def)
  moreover have "chat_row U [uuid_to_string U (chat_id c), to_string (unat (chat_type c))]"
    by (auto simp: chat_row_def)
  ultimately show ?case
    using 1(1) U by (auto simp: chats_inv_def pg_chats_def to_string_value)
next
  case (2 d i now res d')
  have db: "pg_db d' = pg_db d"
    using 2(2) pg_select_db by (fastforce simp: PostgresChatRepository_findById_def split: prod.splits)
  with 2 find_chat_row [of P U tbl d i now _ d'] show ?case
    by (cases res) (auto simp: chats_inv_def pg_chats_def split: option.splits)
qed

section \<open>A database in memory\<close>

text \<open>
  An instance of the client library on three tables, to evaluate the repositories. It rejects
  rows with the wrong number of columns.
\<close>

type_synonym mem_db = "pg_table \<times> pg_table \<times> pg_table"

definition chat_columns :: "string list \<Rightarrow> bool" where
  "chat_columns row \<longleftrightarrow> length row = 2 \<and> to_string (radix_value 10 (row ! 1)) = row ! 1"

definition mem_messages :: "mem_db \<Rightarrow> pg_table" where
  "mem_messages d = filter (\<lambda>row. length row = 4) (fst d)"

definition mem_users :: "mem_db \<Rightarrow> pg_table" where
  "mem_users d = filter (\<lambda>row. length row = 3) (fst (snd d))"

definition mem_chats :: "mem_db \<Rightarrow> pg_table" where
  "mem_chats d = filter chat_columns (snd (snd d))"

definition mem_exec :: "string \<Rightarrow> string list \<Rightarrow> mem_db \<Rightarrow> ((string \<times> string) list list \<times> mem_db) result" where
  "mem_exec sql ps d =
     (case d of (m, u, c) \<Rightarrow>
      if sql = insert_message_sql \<and> length ps = 4 then Inr ([], m @ [ps], u, c)
      else if sql = insert_user_sql \<and> length ps = 3 then Inr ([], m, u @ [ps], c)
      else if sql = insert_chat_sql \<and> chat_columns ps then Inr ([], m, u, c @ [ps])
      else if sql = select_messages_sql then
        Inr (map (zip [''id'', ''chat_id'', ''sender_id'', ''content''])
               (take (radix_value 10 (ps ! 1)) (rev (filter (\<lambda>row. row ! 1 = ps ! 0) (mem_messages d)))), d)
      else if sql = find_user_sql then
        Inr (map (zip [''id'', ''username'', ''password_hash'']) (filter (\<lambda>row. row ! 1 = ps ! 0) (mem_users d)), d)
      else if sql = find_chat_sql then
        Inr (map (zip [''id'', ''type'']) (filter (\<lambda>row. row ! 0 = ps ! 0) (mem_chats d)), d)
      else Inl (SqlError ''syntax error''))"

definition memory_pg :: "(nat, mem_db, (string \<times> string) list) pg_lib" where
  "memory_pg =
     \<lparr>pg_work = (\<lambda>c d. Inr d),
      pg_exec_params = (\<lambda>c. mem_exec),
      pg_commit = (\<lambda>c d v. (Inr (), v)),
      pg_as_string = (\<lambda>r k. case map_of r k of None \<Rightarrow> Inl (SqlError k) | Some s \<Rightarrow> Inr s),
      pg_as_int32 = (\<lambda>r k. case map_of r k of None \<Rightarrow> Inl (SqlError k) | Some s \<Rightarrow> Inr (int (radix_value 10 s)))\<rparr>"

definition memory_state :: "(nat, mem_db) pg_state" where
  "memory_state = \<lparr>pg_pool = \<lparr>pool = [0, 1], next_conn = 0\<rparr>, pg_db = ([], [], [])\<rparr>"

lemmas sql_texts = insert_message_sql_def insert_user_sql_def insert_chat_sql_def
  select_messages_sql_def find_user_sql_def find_chat_sql_def

lemma sql_distinct:
  "distinct [insert_message_sql, insert_user_sql, insert_chat_sql, select_messages_sql, find_user_sql, find_chat_sql]"
  by (simp add: sql_texts)

lemma memory_pg_inserts:
  "pg_inserts memory_pg insert_message_sql mem_messages"
  "pg_inserts memory_pg insert_user_sql mem_users"
  "pg_inserts memory_pg insert_chat_sql mem_chats"
  using sql_distinct
  by (auto simp: pg_inserts_def pg_transactions_def memory_pg_def mem_exec_def mem_messages_def
      mem_users_def mem_chats_def split: if_splits)

lemma length_four: "length row = 4 \<longleftrightarrow> (\<exists>a b c d. row = [a, b, c, d])"
  by (auto simp: numeral_eq_Suc length_Suc_conv)

lemma length_three: "length row = 3 \<longleftrightarrow> (\<exists>a b c. row = [a, b, c])"
  by (auto simp: numeral_eq_Suc length_Suc_conv)

lemma memory_pg_messages: "postgres_messages memory_pg mem_messages"
  unfolding postgres_messages_def
proof (intro conjI allI impI memory_pg_inserts)
  fix c chat n d rs v
  assume "pg_exec_params memory_pg c select_messages_sql [chat, to_string n] d = Inr (rs, v)"
  then have rs: "rs = map (zip [''id'', ''chat_id'', ''sender_id'', ''content''])
      (take n (rev (filter (\<lambda>row. row ! 1 = chat) (mem_messages d))))"
    using sql_distinct by (cases d) (auto simp: memory_pg_def mem_exec_def to_string_value)
  then show "length rs = min n (length (filter (\<lambda>row. row ! 1 = chat) (mem_messages d)))" by simp
  let ?rows = "take n (rev (filter (\<lambda>row. row ! 1 = chat) (mem_messages d)))"
  have "row_is memory_pg [''id'', ''chat_id'', ''sender_id'', ''content''] (zip [''id'', ''chat_id'', ''sender_id'', ''content''] row) row"
    if "row \<in> set ?rows" for row
  proof -
    have "length row = 4" using that by (auto simp: mem_messages_def dest!: in_set_takeD)
    then obtain a b e f where "row = [a, b, e, f]" by (auto simp: length_four)
    then show ?thesis by (simp add: row_is_def memory_pg_def)
  qed
  then have "list_all2 (row_is memory_pg [''id'', ''chat_id'', ''sender_id'', ''content'']) rs ?rows"
    unfolding rs by (simp add: list_all2_map1 list.rel_refl_strong)
  moreover have "mset ?rows \<subseteq># mset (filter (\<lambda>row. row ! 1 = chat) (mem_messages d))"
    by (metis append_take_drop_id mset_append mset_rev mset_subset_eq_add_left)
  ultimately show "\<exists>rows. mset rows \<subseteq># mset (filter (\<lambda>row. row ! 1 = chat) (mem_messages d)) \<and>
      list_all2 (row_is memory_pg [''id'', ''chat_id'', ''sender_id'', ''content'']) rs rows" by blast
qed

lemma memory_pg_users: "postgres_users memory_pg mem_users"
  unfolding postgres_users_def
proof (intro conjI allI impI memory_pg_inserts)
  fix c name d rs v
  assume "pg_exec_params memory_pg c find_user_sql [name] d = Inr (rs, v)"
  then have rs: "rs = map (zip [''id'', ''username'', ''password_hash'']) (filter (\<lambda>row. row ! 1 = name) (mem_users d))"
    using sql_distinct by (cases d) (auto simp: memory_pg_def mem_exec_def)
  then show "rs = [] \<Longrightarrow> \<forall>row \<in> set (mem_users d). row ! 1 \<noteq> name" by (auto simp: filter_empty_conv)
  show "\<forall>r \<in> set rs. \<exists>row \<in> set (mem_users d). row ! 1 = name \<and>
           row_is memory_pg [''id'', ''username'', ''password_hash''] r row"
  proof
    fix r assume "r \<in> set rs"
    then obtain row where row: "row \<in> set (mem_users d)" "row ! 1 = name"
      "r = zip [''id'', ''username'', ''password_hash''] row" unfolding rs by auto
    then obtain a b e where "row = [a, b, e]" by (auto simp: mem_users_def length_three)
    with row show "\<exists>row \<in> set (mem_users d). row ! 1 = name \<and>
        row_is memory_pg [''id'', ''username'', ''password_hash''] r row"
      by (intro bexI [of _ row]) (simp_all add: row_is_def memory_pg_def)
  qed
qed

lemma memory_pg_chats: "postgres_chats memory_pg mem_chats"
  unfolding postgres_chats_def
proof (intro conjI allI impI memory_pg_inserts)
  fix c i d rs v
  assume "pg_exec_params memory_pg c find_chat_sql [i] d = Inr (rs, v)"
  then have rs: "rs = map (zip [''id'', ''type'']) (filter (\<lambda>row. row ! 0 = i) (mem_chats d))"
    using sql_distinct by (cases d) (auto simp: memory_pg_def mem_exec_def)
  then show "rs = [] \<Longrightarrow> \<forall>row \<in> set (mem_chats d). row ! 0 \<noteq> i" by (auto simp: filter_empty_conv)
  show "\<forall>r \<in> set rs. \<exists>row \<in> set (mem_chats d). \<exists>n. row = [i, to_string n] \<and>
           pg_as_string memory_pg r ''id'' = Inr i \<and> pg_as_int32 memory_pg r ''type'' = Inr (int n)"
  proof
    fix r assume "r \<in> set rs"
    then obtain row where row: "row \<in> set (mem_chats d)" "row ! 0 = i" "r = zip [''id'', ''type''] row"
      unfolding rs by auto
    then have c: "chat_columns row" by (simp add: mem_chats_def)
    then obtain a b where "row = [a, b]"
      by (auto simp: chat_columns_def numeral_eq_Suc length_Suc_conv)
    with row c show "\<exists>row \<in> set (mem_chats d). \<exists>n. row = [i, to_string n] \<and>
           pg_as_string memory_pg r ''id'' = Inr i \<and> pg_as_int32 memory_pg r ''type'' = Inr (int n)"
      by (intro bexI [of _ row] exI [of _ "radix_value 10 b"])
        (simp_all add: memory_pg_def chat_columns_def)
  qed
qed

section \<open>The pool\<close>

lemma pool_fill_length:
  "pool_fill connect i k acc = Inr cs \<Longrightarrow> length cs = length acc + k \<and> take (length acc) cs = acc"
proof (induction connect i k acc rule: pool_fill.induct)
  case (2 connect i k acc)
  then obtain c where "connect i = Inr (c, True)" "pool_fill connect (Suc i) k (acc @ [c]) = Inr cs"
    by (auto simp: rbind_eq_Inr split: if_splits)
  with "2.IH" [of "(c, True)" c True] show ?case
    by (auto simp: take_Suc_conv_app_nth)
qed simp

lemma acquire_index:
  assumes "length (pool p) < 2 ^ 64" 
  shows "fst (PostgresPool_acquire p) = pool p ! (unat (next_conn p) mod length (pool p))"
  using assms by (simp add: PostgresPool_acquire_def unat_mod Let_def)

lemma pool_acquires_round:
  assumes "length (pool p) < 2 ^ 64" and "unat (next_conn p) + k \<le> 2 ^ 64"
  shows "fst (pool_acquires k p) =
     map (\<lambda>i. pool p ! ((unat (next_conn p) + i) mod length (pool p))) [0..<k]"
  using assms
proof (induction k arbitrary: p)
  case (Suc k)
  let ?p = "p\<lparr>next_conn := next_conn p + 1\<rparr>"
  have a: "PostgresPool_acquire p = (pool p ! (unat (next_conn p) mod length (pool p)), ?p)"
    using acquire_index [OF Suc.prems(1)] by (simp add: PostgresPool_acquire_def Let_def)
  have f: "fst (pool_acquires (Suc k) p) =
      pool p ! (unat (next_conn p) mod length (pool p)) # fst (pool_acquires k ?p)"
    by (simp add: a split: prod.splits)
  show ?case
  proof (cases "k = 0")
    case True
    then show ?thesis by (simp add: a)
  next
    case False
    then have n: "unat (next_conn p + 1) = Suc (unat (next_conn p))"
      using Suc.prems(2) by (simp add: unat_word_ariths)
    have "fst (pool_acquires k ?p) =
        map (\<lambda>i. pool p ! ((Suc (unat (next_conn p)) + i) mod length (pool p))) [0..<k]"
      using Suc.IH [of ?p] Suc.prems n by simp
    then show ?thesis unfolding f by (simp add: map_upt_Suc del: upt_Suc)
  qed
qed simp

section \<open>Properties\<close>

text \<open>
  Round robin. Until the counter wraps, successive calls of \<open>acquire\<close> hand out the connections
  of the pool in turn, always from inside the pool; so any run of as many calls as there are
  connections uses each one once, and one call more repeats the first, whether or not it is still
  in use.
\<close>

theorem pool_round_robin:
  assumes "PostgresPool_new connect n = Inr p" and "k < 2 ^ 64"
  shows "length (pool p) = unat n \<and> 0 < unat n \<and>
    fst (pool_acquires k p) = map (\<lambda>i. pool p ! (i mod unat n)) [0..<k]"
proof -
  from assms(1) obtain cs where c: "n \<noteq> 0" "pool_fill connect 0 (unat n) [] = Inr cs"
    "p = \<lparr>pool = cs, next_conn = 0\<rparr>"
    by (auto simp: PostgresPool_new_def rbind_eq_Inr split: if_splits)
  from pool_fill_length [OF c(2)] have l: "length (pool p) = unat n" by (simp add: c(3))
  have "unat n < 2 ^ LENGTH(64)" by (rule unsigned_less)
  with l pool_acquires_round [of p k] c(1,3) assms(2) show ?thesis
    by (simp add: unat_gt_0)
qed

theorem pool_round_robin_witness:
  "\<exists>p. PostgresPool_new (\<lambda>i. Inr (i * 10, True)) 2 = Inr p \<and> fst (pool_acquires 3 p) = [0, 10, 0]"
proof -
  let ?p = "\<lparr>pool = [0, 10 :: nat], next_conn = 0\<rparr>"
  have n: "PostgresPool_new (\<lambda>i. Inr (i * 10, True)) 2 = Inr ?p"
    by code_simp
  from pool_round_robin [OF n, of 3] have "fst (pool_acquires 3 ?p) = [0, 10, 0]"
    by (simp add: numeral_3_eq_3)
  with n show ?thesis by blast
qed

text \<open>
  C31. Message storage. A message the repository reports as stored is afterwards part of its chat:
  the next history of that chat is not empty, contains only messages of the chat that were stored
  before or this one, and is complete up to the limit: if the chat fits, its messages are listed
  each exactly as often as they are stored, this one among them.
\<close>

theorem message_history:
  assumes "messages_inv P U tbl s" and "PostgresMessageRepository_create P U m s = (Inr True, s1)"
    and "PostgresMessageRepository_getByChat P U (msg_chatId m) n now s1 = (Inr ms, s2)" and "n \<noteq> 0"
  shows "ms \<noteq> [] \<and> (\<forall>x \<in> set ms. stored x \<in> insert (stored m) (set (pg_messages U tbl s))) \<and>
    length ms = min (unat n) (length (filter (in_chat (msg_chatId m)) (pg_messages U tbl s @ [stored m]))) \<and>
    (length (filter (in_chat (msg_chatId m)) (pg_messages U tbl s @ [stored m])) \<le> unat n \<longrightarrow>
       mset (map stored ms) = mset (filter (in_chat (msg_chatId m)) (pg_messages U tbl s @ [stored m]))) \<and>
    messages_inv P U tbl s2"
proof -
  have s1: "messages_inv P U tbl s1" "pg_messages U tbl s1 = pg_messages U tbl s @ [stored m]"
    using pgm.create_adds [OF assms(1,2)] by auto
  show ?thesis
    using pgm.history_after_create [OF assms] pgm.history [OF s1(1) assms(3)]
      pgm.history_complete [OF s1(1) assms(3)]
    by (simp only: s1(2) simp_thms) blast
qed

theorem message_history_witness:
  "\<exists>s1 s2 ms. PostgresMessageRepository_create memory_pg hex_uuid (Message_new 5 1 2 ''hi'' 0) memory_state = (Inr True, s1) \<and>
     PostgresMessageRepository_getByChat memory_pg hex_uuid 1 50 99 s1 = (Inr ms, s2) \<and>
     ms = [Message_new 5 1 2 ''hi'' 99] \<and> ms \<noteq> []"
proof -
  let ?m = "Message_new 5 1 2 ''hi'' 0"
  have "case PostgresMessageRepository_create memory_pg hex_uuid ?m memory_state of (r, s1) \<Rightarrow>
      r = Inr True \<and> fst (PostgresMessageRepository_getByChat memory_pg hex_uuid 1 50 99 s1) = Inr [Message_new 5 1 2 ''hi'' 99]"
    by code_simp
  then obtain s1 s2 where c: "PostgresMessageRepository_create memory_pg hex_uuid ?m memory_state = (Inr True, s1)"
    and g: "PostgresMessageRepository_getByChat memory_pg hex_uuid 1 50 99 s1 = (Inr [Message_new 5 1 2 ''hi'' 99], s2)"
    by (auto simp: prod_eq_iff split: prod.splits)
  have i: "messages_inv memory_pg hex_uuid mem_messages memory_state"
    by (simp add: messages_inv_def hex_uuid_ok memory_pg_messages memory_state_def mem_messages_def)
  have "msg_chatId ?m = 1" by (simp add: Message_new_def)
  with message_history [OF i c, of 50 99, THEN conjunct1] g have "[Message_new 5 1 2 ''hi'' 99] \<noteq> []" by auto
  with c g show ?thesis by blast
qed

text \<open>
  Chat storage. A chat the repository reports as stored under a fresh id is found under this id
  with the same type; the passage of the type through \<open>std::int32_t\<close>, decimal text and back loses
  nothing.
\<close>

theorem chat_type_roundtrip:
  assumes "chats_inv P U tbl s" and "PostgresChatRepository_create P U c s = (Inr True, s1)"
    and "chat_id c \<notin> set (map fst (pg_chats U tbl s))"
    and "PostgresChatRepository_findById P U (chat_id c) now s1 = (Inr r, s2)"
  shows "\<exists>c'. r = Some c' \<and> chat_id c' = chat_id c \<and> chat_type c' = chat_type c"
  by (rule pgc.find_created [OF assms])

theorem chat_type_roundtrip_witness:
  "\<exists>s1 s2 c'. PostgresChatRepository_create memory_pg hex_uuid (Chat_new 7 (chat_type_code group) 0) memory_state = (Inr True, s1) \<and>
     PostgresChatRepository_findById memory_pg hex_uuid 7 99 s1 = (Inr (Some c'), s2) \<and> chat_type c' = 1"
proof -
  let ?c = "Chat_new 7 (chat_type_code group) 0"
  have "case PostgresChatRepository_create memory_pg hex_uuid ?c memory_state of (r, s1) \<Rightarrow>
      r = Inr True \<and> fst (PostgresChatRepository_findById memory_pg hex_uuid 7 99 s1) \<noteq> Inr None \<and>
      is_ok (fst (PostgresChatRepository_findById memory_pg hex_uuid 7 99 s1))"
    by code_simp
  then obtain s1 where c: "PostgresChatRepository_create memory_pg hex_uuid ?c memory_state = (Inr True, s1)"
    and f: "is_ok (fst (PostgresChatRepository_findById memory_pg hex_uuid 7 99 s1))"
    by (auto split: prod.splits)
  obtain r s2 where g: "PostgresChatRepository_findById memory_pg hex_uuid 7 99 s1 = (Inr r, s2)"
    using f by (cases "PostgresChatRepository_findById memory_pg hex_uuid 7 99 s1")
      (auto simp: is_ok_def split: sum.splits)
  have i: "chats_inv memory_pg hex_uuid mem_chats memory_state"
    by (simp add: chats_inv_def hex_uuid_ok memory_pg_chats memory_state_def mem_chats_def)
  have n: "chat_id ?c \<notin> set (map fst (pg_chats hex_uuid mem_chats memory_state))"
    by (simp add: pg_chats_def memory_state_def mem_chats_def)
  have "chat_id ?c = 7" "chat_type ?c = 1" by (simp_all add: Chat_new_def)
  with chat_type_roundtrip [OF i c n, of 99] g c show ?thesis by auto
qed

end
