(* ===== verification/Use_Cases.thy ===== *)
theory Use_Cases
  imports Postgres
begin

text \<open>
  \<open>application/use_cases/\<close> and \<open>presentation/controllers/\<close>. A use case works on a repository
  port; what it guarantees is proved once from the port's contract and then holds for the
  Postgres repositories, which implement it. Random ids and clock readings are arguments.
\<close>

section \<open>Use cases\<close>

text \<open>A use case object holds a reference to its repository.\<close>

record 'd RegisterUserUseCase =
  ru_userRepository :: "'d user_repository"

record 'd LoginUserUseCase =
  lu_userRepository :: "'d user_repository"

record 'd CreateChatUseCase =
  cc_chatRepository :: "'d chat_repository"

record 'd SendMessageUseCase =
  sm_messageRepository :: "'d message_repository"

record 'd GetChatHistoryUseCase =
  gh_messageRepository :: "'d message_repository"

definition RegisterUserUseCase_new :: "'d user_repository \<Rightarrow> 'd RegisterUserUseCase" where
  "RegisterUserUseCase_new userRepository = \<lparr>ru_userRepository = userRepository\<rparr>"

definition LoginUserUseCase_new :: "'d user_repository \<Rightarrow> 'd LoginUserUseCase" where
  "LoginUserUseCase_new userRepository = \<lparr>lu_userRepository = userRepository\<rparr>"

definition CreateChatUseCase_new :: "'d chat_repository \<Rightarrow> 'd CreateChatUseCase" where
  "CreateChatUseCase_new chatRepository = \<lparr>cc_chatRepository = chatRepository\<rparr>"

definition SendMessageUseCase_new :: "'d message_repository \<Rightarrow> 'd SendMessageUseCase" where
  "SendMessageUseCase_new messageRepository = \<lparr>sm_messageRepository = messageRepository\<rparr>"

definition GetChatHistoryUseCase_new :: "'d message_repository \<Rightarrow> 'd GetChatHistoryUseCase" where
  "GetChatHistoryUseCase_new messageRepository = \<lparr>gh_messageRepository = messageRepository\<rparr>"

lemma use_case_members [simp]:
  "ru_userRepository (RegisterUserUseCase_new R) = R" "lu_userRepository (LoginUserUseCase_new R) = R"
  "sm_messageRepository (SendMessageUseCase_new M) = M" "gh_messageRepository (GetChatHistoryUseCase_new M) = M"
  "cc_chatRepository (CreateChatUseCase_new C) = C"
  by (simp_all add: RegisterUserUseCase_new_def LoginUserUseCase_new_def SendMessageUseCase_new_def
      GetChatHistoryUseCase_new_def CreateChatUseCase_new_def)

definition RegisterUserUseCase_execute ::
  "'d RegisterUserUseCase \<Rightarrow> uuid \<Rightarrow> time_point \<Rightarrow> time_point \<Rightarrow> string \<Rightarrow> string \<Rightarrow> 'd \<Rightarrow> bool result \<times> 'd" where
  "RegisterUserUseCase_execute uc rid found now username passwordHash d =
     (if username = [] \<or> passwordHash = [] then (Inr False, d)
      else case ur_findByUsername (ru_userRepository uc) username found d of
             (Inl e, d') \<Rightarrow> (Inl e, d')
           | (Inr (Some _), d') \<Rightarrow> (Inr False, d')
           | (Inr None, d') \<Rightarrow> ur_create (ru_userRepository uc) (User_new rid username passwordHash now) d')"

definition LoginUserUseCase_execute ::
  "'d LoginUserUseCase \<Rightarrow> time_point \<Rightarrow> string \<Rightarrow> string \<Rightarrow> 'd \<Rightarrow> bool result \<times> 'd" where
  "LoginUserUseCase_execute uc found username passwordHash d =
     (case ur_findByUsername (lu_userRepository uc) username found d of
        (Inl e, d') \<Rightarrow> (Inl e, d')
      | (Inr None, d') \<Rightarrow> (Inr False, d')
      | (Inr (Some user), d') \<Rightarrow> (Inr (user_passwordHash user = passwordHash), d'))"

definition CreateChatUseCase_execute ::
  "'d CreateChatUseCase \<Rightarrow> uuid \<Rightarrow> time_point \<Rightarrow> ChatType \<Rightarrow> 'd \<Rightarrow> bool result \<times> 'd" where
  "CreateChatUseCase_execute uc rid now type = cr_create (cc_chatRepository uc) (Chat_new rid (chat_type_code type) now)"

definition SendMessageUseCase_execute ::
  "'d SendMessageUseCase \<Rightarrow> uuid \<Rightarrow> time_point \<Rightarrow> uuid \<Rightarrow> uuid \<Rightarrow> string \<Rightarrow> 'd \<Rightarrow> bool result \<times> 'd" where
  "SendMessageUseCase_execute uc rid now chatId senderId content d =
     (if content = [] then (Inr False, d)
      else mr_create (sm_messageRepository uc) (Message_new rid chatId senderId content now) d)"

definition GetChatHistoryUseCase_execute ::
  "'d GetChatHistoryUseCase \<Rightarrow> uuid \<Rightarrow> size_t \<Rightarrow> time_point \<Rightarrow> 'd \<Rightarrow> Message list result \<times> 'd" where
  "GetChatHistoryUseCase_execute uc chatId limit now = mr_getByChat (gh_messageRepository uc) chatId limit now"

section \<open>Controllers\<close>

record 'd AuthController =
  ac_registerUser :: "'d RegisterUserUseCase"
  ac_loginUser :: "'d LoginUserUseCase"

record 'd ChatController =
  cc_createChat :: "'d CreateChatUseCase"

record 'd MessageController =
  mc_sendMessage :: "'d SendMessageUseCase"
  mc_getHistory :: "'d GetChatHistoryUseCase"

definition AuthController_new :: "'d RegisterUserUseCase \<Rightarrow> 'd LoginUserUseCase \<Rightarrow> 'd AuthController" where
  "AuthController_new registerUser loginUser = \<lparr>ac_registerUser = registerUser, ac_loginUser = loginUser\<rparr>"

definition ChatController_new :: "'d CreateChatUseCase \<Rightarrow> 'd ChatController" where
  "ChatController_new createChat = \<lparr>cc_createChat = createChat\<rparr>"

definition MessageController_new :: "'d SendMessageUseCase \<Rightarrow> 'd GetChatHistoryUseCase \<Rightarrow> 'd MessageController" where
  "MessageController_new sendMessage getHistory = \<lparr>mc_sendMessage = sendMessage, mc_getHistory = getHistory\<rparr>"

definition AuthController_registerUserByPassword ::
  "'d AuthController \<Rightarrow> uuid \<Rightarrow> time_point \<Rightarrow> time_point \<Rightarrow> string \<Rightarrow> string \<Rightarrow> 'd \<Rightarrow> bool result \<times> 'd" where
  "AuthController_registerUserByPassword ctl rid found now username passwordHash =
     RegisterUserUseCase_execute (ac_registerUser ctl) rid found now username passwordHash"

definition AuthController_loginUserByPassword ::
  "'d AuthController \<Rightarrow> time_point \<Rightarrow> string \<Rightarrow> string \<Rightarrow> 'd \<Rightarrow> bool result \<times> 'd" where
  "AuthController_loginUserByPassword ctl found username passwordHash =
     LoginUserUseCase_execute (ac_loginUser ctl) found username passwordHash"

definition ChatController_createDirectChat ::
  "'d ChatController \<Rightarrow> uuid \<Rightarrow> time_point \<Rightarrow> 'd \<Rightarrow> bool result \<times> 'd" where
  "ChatController_createDirectChat ctl rid now = CreateChatUseCase_execute (cc_createChat ctl) rid now direct"

definition ChatController_createGroupChat ::
  "'d ChatController \<Rightarrow> uuid \<Rightarrow> time_point \<Rightarrow> 'd \<Rightarrow> bool result \<times> 'd" where
  "ChatController_createGroupChat ctl rid now = CreateChatUseCase_execute (cc_createChat ctl) rid now group"

definition MessageController_send ::
  "'d MessageController \<Rightarrow> uuid \<Rightarrow> time_point \<Rightarrow> uuid \<Rightarrow> uuid \<Rightarrow> string \<Rightarrow> 'd \<Rightarrow> bool result \<times> 'd" where
  "MessageController_send ctl rid now chatId senderId content =
     SendMessageUseCase_execute (mc_sendMessage ctl) rid now chatId senderId content"

definition MessageController_history ::
  "'d MessageController \<Rightarrow> uuid \<Rightarrow> size_t \<Rightarrow> time_point \<Rightarrow> 'd \<Rightarrow> Message list result \<times> 'd" where
  "MessageController_history ctl chatId limit now = GetChatHistoryUseCase_execute (mc_getHistory ctl) chatId limit now"

text \<open>Controllers whose use cases share one repository.\<close>

definition auth_controller :: "'d user_repository \<Rightarrow> 'd AuthController" where
  "auth_controller R = AuthController_new (RegisterUserUseCase_new R) (LoginUserUseCase_new R)"

definition message_controller :: "'d message_repository \<Rightarrow> 'd MessageController" where
  "message_controller R = MessageController_new (SendMessageUseCase_new R) (GetChatHistoryUseCase_new R)"

lemma controller_members [simp]:
  "ac_registerUser (auth_controller R) = RegisterUserUseCase_new R"
  "ac_loginUser (auth_controller R) = LoginUserUseCase_new R"
  "mc_sendMessage (message_controller M) = SendMessageUseCase_new M"
  "mc_getHistory (message_controller M) = GetChatHistoryUseCase_new M"
  by (simp_all add: auth_controller_def AuthController_new_def message_controller_def MessageController_new_def)

section \<open>The Postgres repositories as ports\<close>

definition pg_user_repository :: "('c, 'd, 'r) pg_lib \<Rightarrow> uuid_lib \<Rightarrow> ('c, 'd) pg_state user_repository" where
  "pg_user_repository P U =
     \<lparr>ur_findByUsername = PostgresUserRepository_findByUsername P U,
      ur_create = PostgresUserRepository_create P U\<rparr>"

definition pg_chat_repository :: "('c, 'd, 'r) pg_lib \<Rightarrow> uuid_lib \<Rightarrow> ('c, 'd) pg_state chat_repository" where
  "pg_chat_repository P U =
     \<lparr>cr_create = PostgresChatRepository_create P U, cr_findById = PostgresChatRepository_findById P U\<rparr>"

definition pg_message_repository :: "('c, 'd, 'r) pg_lib \<Rightarrow> uuid_lib \<Rightarrow> ('c, 'd) pg_state message_repository" where
  "pg_message_repository P U =
     \<lparr>mr_create = PostgresMessageRepository_create P U, mr_getByChat = PostgresMessageRepository_getByChat P U\<rparr>"

section \<open>What the use cases guarantee on any port\<close>

context user_store
begin

abbreviation port :: "'d user_repository" where
  "port \<equiv> \<lparr>ur_findByUsername = findByUsername, ur_create = create\<rparr>"

abbreviation unique_names :: "'d \<Rightarrow> bool" where
  "unique_names d \<equiv> distinct (map name_of (users d))"

lemma register_cases:
  assumes "invar d" and "RegisterUserUseCase_execute (RegisterUserUseCase_new port) rid found now u h d = (r, d')"
  shows "invar d' \<and> (users d' = users d \<and> r \<noteq> Inr True \<or>
    u \<noteq> [] \<and> h \<noteq> [] \<and> u \<notin> set (map name_of (users d)) \<and> users d' = users d @ [(rid, u, h)])"
proof (cases "u = [] \<or> h = []")
  case True
  with assms show ?thesis by (auto simp: RegisterUserUseCase_execute_def)
next
  case False
  obtain res d1 where f: "findByUsername u found d = (res, d1)" by fastforce
  note l = find_user [OF assms(1) f]
  show ?thesis
  proof (cases "res = Inr None")
    case True
    with assms(2) f False have "create (User_new rid u h now) d1 = (r, d')"
      by (simp add: RegisterUserUseCase_execute_def)
    moreover have "invar d1" "users d1 = users d" "u \<notin> set (map name_of (users d))" using l True by simp_all
    ultimately show ?thesis
      using create_adds [of d1 "User_new rid u h now" r d'] False
      by (cases "r = Inr True") (auto simp: stored_u_def User_new_def)
  next
    case False
    with assms(2) f \<open>\<not> (u = [] \<or> h = [])\<close> have "d' = d1" "r \<noteq> Inr True"
      by (auto simp: RegisterUserUseCase_execute_def split: sum.splits option.splits)
    with l show ?thesis by auto
  qed
qed

lemma register_unique:
  assumes "invar d" and "unique_names d"
    and "RegisterUserUseCase_execute (RegisterUserUseCase_new port) rid found now u h d = (r, d')"
  shows "invar d' \<and> unique_names d'"
  using register_cases [OF assms(1,3)] assms(2) by auto

lemma login_correct:
  assumes "invar d" and "unique_names d"
    and "LoginUserUseCase_execute (LoginUserUseCase_new port) found u h d = (Inr b, d')"
  shows "b \<longleftrightarrow> (\<exists>i. (i, u, h) \<in> set (users d))"
proof -
  obtain res d1 where f: "findByUsername u found d = (res, d1)" by fastforce
  note l = find_user [OF assms(1) f]
  from assms(3) f obtain r where r: "res = Inr r"
    by (cases res) (auto simp: LoginUserUseCase_execute_def)
  show ?thesis
  proof (cases r)
    case None
    with assms(3) f r have "\<not> b" by (simp add: LoginUserUseCase_execute_def)
    moreover have "\<nexists>i. (i, u, h) \<in> set (users d)" using l r None by force
    ultimately show ?thesis by blast
  next
    case (Some x)
    with assms(3) f r have b: "b \<longleftrightarrow> user_passwordHash x = h" by (auto simp: LoginUserUseCase_execute_def)
    have x: "(user_id x, u, user_passwordHash x) \<in> set (users d)" using l r Some by (auto simp: stored_u_def)
    have "h' = user_passwordHash x" if "(i, u, h') \<in> set (users d)" for i h'
      using inj_onD [of name_of "set (users d)" "(i, u, h')" "(user_id x, u, user_passwordHash x)"]
        that x assms(2) by (simp add: distinct_map)
    with b x show ?thesis by blast
  qed
qed

lemma register_then_login:
  assumes "invar d" and "unique_names d"
    and "RegisterUserUseCase_execute (RegisterUserUseCase_new port) rid found now u h d = (Inr True, d1)"
    and "LoginUserUseCase_execute (LoginUserUseCase_new port) found' u h' d1 = (Inr b, d2)"
  shows "b \<longleftrightarrow> h' = h"
proof -
  have r: "users d1 = users d @ [(rid, u, h)]" "u \<notin> set (map name_of (users d))" "invar d1"
    using register_cases [OF assms(1,3)] by auto
  have "unique_names d1" using register_unique [OF assms(1-3)] by simp
  then have "b \<longleftrightarrow> (\<exists>i. (i, u, h') \<in> set (users d1))" by (rule login_correct [OF r(3) _ assms(4)])
  moreover have "(i, u, h') \<notin> set (users d)" for i using r(2) by force
  ultimately show ?thesis by (auto simp: r(1))
qed

end

context message_store
begin

lemma send_message:
  assumes "invar d"
    and "SendMessageUseCase_execute (SendMessageUseCase_new \<lparr>mr_create = create, mr_getByChat = getByChat\<rparr>) rid now c u t d = (r, d')"
  shows "invar d' \<and> (t = [] \<longrightarrow> r = Inr False \<and> d' = d) \<and>
    (r = Inr True \<longrightarrow> messages d' = messages d @ [(rid, c, u, t)]) \<and>
    messages d' \<in> {messages d, messages d @ [(rid, c, u, t)]}"
  using assms create_adds [OF assms(1), of "Message_new rid c u t now" r d']
  by (auto simp: SendMessageUseCase_execute_def stored_def Message_new_def split: if_splits)

end

section \<open>Properties\<close>

text \<open>
  C32. Registration and login on the Postgres repositories. Registering keeps user names unique.
  After a registration that reported success, a login with that name succeeds exactly with the
  password hash that was registered.
\<close>

theorem auth_register_then_login:
  assumes "users_inv P U tbl s" and "distinct (map name_of (pg_users U tbl s))"
    and "AuthController_registerUserByPassword (auth_controller (pg_user_repository P U)) rid found now u h s = (Inr True, s1)"
    and "AuthController_loginUserByPassword (auth_controller (pg_user_repository P U)) found' u h' s1 = (Inr b, s2)"
  shows "(b \<longleftrightarrow> h' = h) \<and> distinct (map name_of (pg_users U tbl s1))"
  using pgu.register_then_login [OF assms(1,2)] pgu.register_unique [OF assms(1,2)] assms(3,4)
  unfolding AuthController_registerUserByPassword_def AuthController_loginUserByPassword_def controller_members
    pg_user_repository_def
  by blast

theorem auth_register_then_login_witness:
  "\<exists>s1 s2. AuthController_registerUserByPassword (auth_controller (pg_user_repository memory_pg hex_uuid)) 5 0 0 ''ann'' ''x1'' memory_state = (Inr True, s1) \<and>
     AuthController_loginUserByPassword (auth_controller (pg_user_repository memory_pg hex_uuid)) 0 ''ann'' ''x2'' s1 = (Inr False, s2)"
proof -
  let ?R = "auth_controller (pg_user_repository memory_pg hex_uuid)"
  have "case AuthController_registerUserByPassword ?R 5 0 0 ''ann'' ''x1'' memory_state of (r, s1) \<Rightarrow>
      r = Inr True \<and> is_ok (fst (AuthController_loginUserByPassword ?R 0 ''ann'' ''x2'' s1))"
    by code_simp
  then obtain s1 where r: "AuthController_registerUserByPassword ?R 5 0 0 ''ann'' ''x1'' memory_state = (Inr True, s1)"
    and f: "is_ok (fst (AuthController_loginUserByPassword ?R 0 ''ann'' ''x2'' s1))"
    by (auto split: prod.splits)
  obtain b s2 where g: "AuthController_loginUserByPassword ?R 0 ''ann'' ''x2'' s1 = (Inr b, s2)"
    using f by (cases "AuthController_loginUserByPassword ?R 0 ''ann'' ''x2'' s1")
      (auto simp: is_ok_def split: sum.splits)
  have i: "users_inv memory_pg hex_uuid mem_users memory_state"
    by (simp add: users_inv_def hex_uuid_ok memory_pg_users memory_state_def mem_users_def)
  have d: "distinct (map name_of (pg_users hex_uuid mem_users memory_state))"
    by (simp add: pg_users_def memory_state_def mem_users_def)
  have "\<not> b" using auth_register_then_login [OF i d r g] by simp
  with r g show ?thesis by simp
qed

text \<open>
  Sending through the use case on the Postgres repository. An empty message is refused and
  nothing is touched; a message reported as stored is the one new row; whatever happens, at most
  this row is added.
\<close>

theorem send_message_use_case:
  assumes "messages_inv P U tbl s"
    and "MessageController_send (message_controller (pg_message_repository P U)) rid now c u t s = (r, s')"
  shows "(t = [] \<longrightarrow> r = Inr False \<and> s' = s) \<and>
    (r = Inr True \<longrightarrow> pg_messages U tbl s' = pg_messages U tbl s @ [(rid, c, u, t)]) \<and>
    pg_messages U tbl s' \<in> {pg_messages U tbl s, pg_messages U tbl s @ [(rid, c, u, t)]}"
  using pgm.send_message [OF assms(1)] assms(2)
  unfolding MessageController_send_def controller_members pg_message_repository_def by blast

theorem send_message_use_case_witness:
  "MessageController_send (message_controller (pg_message_repository memory_pg hex_uuid)) 5 0 1 2 [] memory_state = (Inr False, memory_state) \<and>
   (\<exists>s'. MessageController_send (message_controller (pg_message_repository memory_pg hex_uuid)) 5 0 1 2 ''hi'' memory_state = (Inr True, s') \<and>
      pg_messages hex_uuid mem_messages s' = [(5, 1, 2, ''hi'')])"
proof -
  let ?send = "MessageController_send (message_controller (pg_message_repository memory_pg hex_uuid)) 5 0 1 2"
  have i: "messages_inv memory_pg hex_uuid mem_messages memory_state"
    by (simp add: messages_inv_def hex_uuid_ok memory_pg_messages memory_state_def mem_messages_def)
  have e: "pg_messages hex_uuid mem_messages memory_state = []"
    by (simp add: pg_messages_def memory_state_def mem_messages_def)
  have "fst (?send ''hi'' memory_state) = Inr True" by code_simp
  then obtain s' where s': "?send ''hi'' memory_state = (Inr True, s')" by (metis prod.collapse)
  obtain r s'' where n: "?send [] memory_state = (r, s'')" by fastforce
  from send_message_use_case [OF i s'] send_message_use_case [OF i n] s' n e show ?thesis by auto
qed

end
