(* ===== verification/Registration.thy ===== *)
theory Registration
  imports Use_Cases
begin

text \<open>
  Registrations that run at the same time. \<open>RegisterUserUseCase::execute\<close> asks the repository for
  the name and then inserts the user, in two transactions: other registrations can run in between.
  Here the use case is a machine with these two steps, and any number of registrations interleave.
\<close>

section \<open>A registration in steps\<close>

datatype reg_pc = RCheck | RInsert | RDone "bool result"

record registration =
  rg_id :: uuid
  rg_found :: time_point
  rg_now :: time_point
  rg_username :: string
  rg_hash :: string
  rg_pc :: reg_pc

definition register_check :: "'d user_repository \<Rightarrow> registration \<Rightarrow> 'd \<Rightarrow> reg_pc \<times> 'd" where
  "register_check R g d =
     (if rg_username g = [] \<or> rg_hash g = [] then (RDone (Inr False), d)
      else case ur_findByUsername R (rg_username g) (rg_found g) d of
             (Inl e, d') \<Rightarrow> (RDone (Inl e), d')
           | (Inr (Some _), d') \<Rightarrow> (RDone (Inr False), d')
           | (Inr None, d') \<Rightarrow> (RInsert, d'))"

definition register_insert :: "'d user_repository \<Rightarrow> registration \<Rightarrow> 'd \<Rightarrow> reg_pc \<times> 'd" where
  "register_insert R g d =
     (case ur_create R (User_new (rg_id g) (rg_username g) (rg_hash g) (rg_now g)) d of
        (r, d') \<Rightarrow> (RDone r, d'))"

definition register_step :: "'d user_repository \<Rightarrow> registration \<Rightarrow> 'd \<Rightarrow> registration \<times> 'd" where
  "register_step R g d =
     (case (case rg_pc g of
              RCheck \<Rightarrow> register_check R g d
            | RInsert \<Rightarrow> register_insert R g d
            | RDone r \<Rightarrow> (RDone r, d)) of
        (p, d') \<Rightarrow> (g\<lparr>rg_pc := p\<rparr>, d'))"

text \<open>A schedule names, step by step, the registration that moves.\<close>

fun register_run ::
  "'d user_repository \<Rightarrow> nat list \<Rightarrow> registration list \<Rightarrow> 'd \<Rightarrow> registration list \<times> 'd" where
  "register_run R [] gs d = (gs, d)"
| "register_run R (i # is) gs d =
     (if i < length gs
      then case register_step R (gs ! i) d of (g, d') \<Rightarrow> register_run R is (gs[i := g]) d'
      else register_run R is gs d)"

definition registration_new :: "uuid \<Rightarrow> time_point \<Rightarrow> time_point \<Rightarrow> string \<Rightarrow> string \<Rightarrow> registration" where
  "registration_new rid found now u h =
     \<lparr>rg_id = rid, rg_found = found, rg_now = now, rg_username = u, rg_hash = h, rg_pc = RCheck\<rparr>"

text \<open>Without anyone in between, the steps are the use case.\<close>

lemma register_run_alone:
  "register_run R [0, 0] [registration_new rid found now u h] d =
     (case RegisterUserUseCase_execute (RegisterUserUseCase_new R) rid found now u h d of
        (r, d') \<Rightarrow> ([(registration_new rid found now u h)\<lparr>rg_pc := RDone r\<rparr>], d'))"
  by (auto simp: register_step_def register_check_def register_insert_def registration_new_def
      RegisterUserUseCase_execute_def split: prod.splits sum.splits option.splits)

lemma register_run_append:
  "register_run R (xs @ ys) gs d = (case register_run R xs gs d of (gs', d') \<Rightarrow> register_run R ys gs' d')"
  by (induction xs arbitrary: gs d) (auto split: prod.splits)

lemma register_run_length: "register_run R is gs d = (gs', d') \<Longrightarrow> length gs' = length gs"
proof (induction "is" arbitrary: gs d)
  case (Cons i ks)
  then show ?case by (fastforce split: if_splits prod.splits)
qed simp

lemma register_step_done: "rg_pc g = RDone r \<Longrightarrow> register_step R g d = (g, d)"
  by (simp add: register_step_def)

lemma register_run_done:
  "register_run R is gs d = (gs', d') \<Longrightarrow> rg_pc (gs ! j) = RDone r \<Longrightarrow> gs' ! j = gs ! j"
proof (induction "is" arbitrary: gs d)
  case (Cons i ks)
  show ?case
  proof (cases "i < length gs")
    case True
    obtain g d1 where st: "register_step R (gs ! i) d = (g, d1)" by fastforce
    have "gs[i := g] ! j = gs ! j"
      using Cons.prems(2) st register_step_done [of "gs ! j" r R d] True by (cases "i = j") auto
    with Cons True st show ?thesis by auto
  qed (use Cons in simp)
qed simp

section \<open>What the check guards\<close>

text \<open>
  A registration of a name that was stored at the start never gets to its insert, one that was
  turned down had an empty field or a name that is stored, and one that succeeded has stored
  exactly its own data. None of this needs the database to refuse taken names.
\<close>

definition reg_ok :: "stored_user list \<Rightarrow> stored_user list \<Rightarrow> registration \<Rightarrow> bool" where
  "reg_ok us0 us g \<longleftrightarrow>
     (rg_username g \<in> set (map name_of us0) \<longrightarrow> rg_pc g \<noteq> RInsert \<and> rg_pc g \<noteq> RDone (Inr True)) \<and>
     (rg_pc g = RInsert \<longrightarrow> rg_username g \<noteq> [] \<and> rg_hash g \<noteq> []) \<and>
     (rg_pc g = RDone (Inr False) \<longrightarrow>
        rg_username g = [] \<or> rg_hash g = [] \<or> rg_username g \<in> set (map name_of us)) \<and>
     (rg_pc g = RDone (Inr True) \<longrightarrow> rg_username g \<noteq> [] \<and> rg_hash g \<noteq> [] \<and>
        (rg_id g, rg_username g, rg_hash g) \<in> set us)"

lemma reg_ok_mono: "reg_ok us0 us g \<Longrightarrow> set us \<subseteq> set us' \<Longrightarrow> reg_ok us0 us' g"
  by (auto simp: reg_ok_def)

text \<open>A registration about to ask for a name that is free.\<close>

definition fresh_reg :: "stored_user list \<Rightarrow> registration \<Rightarrow> bool" where
  "fresh_reg us g \<longleftrightarrow> rg_pc g = RCheck \<and> rg_username g \<noteq> [] \<and> rg_hash g \<noteq> [] \<and>
     rg_username g \<notin> set (map name_of us)"

definition reg_threw :: "registration \<Rightarrow> bool" where
  "reg_threw g \<longleftrightarrow> (\<exists>e. rg_pc g = RDone (Inl e))"

text \<open>The port of the repository: a user is created or an exception leaves \<open>create\<close>.\<close>

locale registering_store = user_store findByUsername create users invar
  for findByUsername :: "string \<Rightarrow> time_point \<Rightarrow> 'd \<Rightarrow> User option result \<times> 'd"
    and create :: "User \<Rightarrow> 'd \<Rightarrow> bool result \<times> 'd"
    and users :: "'d \<Rightarrow> stored_user list"
    and invar :: "'d \<Rightarrow> bool" +
  assumes create_answers: "create u d = (r, d') \<Longrightarrow> r \<noteq> Inr False"
begin

lemma check_step:
  assumes "invar d" and "rg_pc g = RCheck" and "register_step port g d = (g', d')"
  obtains p where "g' = g\<lparr>rg_pc := p\<rparr>" "invar d'" "users d' = users d"
    "p = RInsert \<and> fresh_reg (users d) g \<or> (\<exists>e. p = RDone (Inl e)) \<or>
     p = RDone (Inr False) \<and> \<not> fresh_reg (users d) g"
proof -
  obtain res d1 where f: "findByUsername (rg_username g) (rg_found g) d = (res, d1)" by fastforce
  note fu = find_user [OF assms(1) f]
  have n: "rg_username g \<in> set (map name_of (users d))" if "res = Inr (Some u)" for u
    using fu that by (force simp: stored_u_def)
  show thesis
  proof (cases "rg_username g = [] \<or> rg_hash g = []")
    case True
    with assms that [of "RDone (Inr False)"] show thesis
      by (auto simp: register_step_def register_check_def fresh_reg_def)
  next
    case False
    show thesis
    proof (cases res)
      case (Inl e)
      with False f fu assms(2,3) that [of "RDone (Inl e)"] show thesis
        by (simp add: register_step_def register_check_def)
    next
      case (Inr uo)
      show thesis
      proof (cases uo)
        case None
        with False Inr f fu assms(2,3) that [of RInsert] show thesis
          by (simp add: register_step_def register_check_def fresh_reg_def)
      next
        case (Some u)
        with False Inr f fu n [of u] assms(2,3) that [of "RDone (Inr False)"] show thesis
          by (simp add: register_step_def register_check_def fresh_reg_def)
      qed
    qed
  qed
qed

lemma insert_step:
  assumes "invar d" and "rg_pc g = RInsert" and "register_step port g d = (g', d')"
  obtains r where "g' = g\<lparr>rg_pc := RDone r\<rparr>" "invar d'" "r \<noteq> Inr False"
    "users d' \<in> {users d, users d @ [(rg_id g, rg_username g, rg_hash g)]}"
    "r = Inr True \<longrightarrow> users d' = users d @ [(rg_id g, rg_username g, rg_hash g)]"
proof -
  let ?u = "User_new (rg_id g) (rg_username g) (rg_hash g) (rg_now g)"
  obtain r d1 where c: "create ?u d = (r, d1)" by fastforce
  with assms(2,3) have "g' = g\<lparr>rg_pc := RDone r\<rparr>" "d' = d1"
    by (auto simp: register_step_def register_insert_def)
  with create_adds [OF assms(1) c] create_answers [OF c] that [of r] show thesis
    by (simp add: stored_u_def User_new_def)
qed

lemma reg_ok_step:
  assumes inv: "invar d" and ok: "reg_ok us0 (users d) g" and sub: "set us0 \<subseteq> set (users d)"
    and st: "register_step port g d = (g', d')"
  shows "invar d' \<and> set (users d) \<subseteq> set (users d') \<and> reg_ok us0 (users d') g' \<and> rg_username g' = rg_username g"
proof (cases "rg_pc g")
  case RCheck
  from check_step [OF inv RCheck st] obtain p where p: "g' = g\<lparr>rg_pc := p\<rparr>" "invar d'" "users d' = users d"
    "p = RInsert \<and> fresh_reg (users d) g \<or> (\<exists>e. p = RDone (Inl e)) \<or>
     p = RDone (Inr False) \<and> \<not> fresh_reg (users d) g" by blast
  from p(4) RCheck sub have "reg_ok us0 (users d) (g\<lparr>rg_pc := p\<rparr>)"
    unfolding reg_ok_def fresh_reg_def by auto
  with p show ?thesis by simp
next
  case RInsert
  from insert_step [OF inv RInsert st] obtain r where r: "g' = g\<lparr>rg_pc := RDone r\<rparr>" "invar d'" "r \<noteq> Inr False"
    "users d' \<in> {users d, users d @ [(rg_id g, rg_username g, rg_hash g)]}"
    "r = Inr True \<longrightarrow> users d' = users d @ [(rg_id g, rg_username g, rg_hash g)]" by blast
  with ok RInsert show ?thesis by (auto simp: reg_ok_def)
next
  case (RDone r)
  with inv ok register_step_done [OF RDone, of port d] st show ?thesis by auto
qed

lemma reg_ok_run:
  "register_run port is gs d = (gs', d') \<Longrightarrow> invar d \<Longrightarrow> set us0 \<subseteq> set (users d) \<Longrightarrow>
     \<forall>g \<in> set gs. reg_ok us0 (users d) g \<Longrightarrow> \<forall>g \<in> set gs'. reg_ok us0 (users d') g"
proof (induction "is" arbitrary: gs d)
  case (Cons i ks)
  show ?case
  proof (cases "i < length gs")
    case True
    obtain g d1 where st: "register_step port (gs ! i) d = (g, d1)" by fastforce
    have "reg_ok us0 (users d) (gs ! i)" using Cons.prems(4) True by simp
    from reg_ok_step [OF Cons.prems(2) this Cons.prems(3) st]
    have d1: "invar d1" "set (users d) \<subseteq> set (users d1)" "reg_ok us0 (users d1) g" by auto
    then have "\<forall>h \<in> set (gs[i := g]). reg_ok us0 (users d1) h"
      using Cons.prems(4) by (auto dest!: set_update_subset_insert [THEN subsetD] intro: reg_ok_mono)
    moreover have "register_run port ks (gs[i := g]) d1 = (gs', d')" using Cons.prems(1) True st by simp
    ultimately show ?thesis using Cons.IH d1 Cons.prems(3) by blast
  qed (use Cons in simp)
qed simp

text \<open>A phase of checks: nobody has inserted yet, so every name that was free is found free.\<close>

lemma check_phase:
  "register_run port cs gs d = (gs', d') \<Longrightarrow> invar d \<Longrightarrow> distinct cs \<Longrightarrow>
     \<forall>i \<in> set cs. i < length gs \<and> fresh_reg (users d) (gs ! i) \<Longrightarrow>
     invar d' \<and> users d' = users d \<and>
     (\<forall>i. if i \<in> set cs then gs' ! i = (gs ! i)\<lparr>rg_pc := RInsert\<rparr> \<or> reg_threw (gs' ! i) else gs' ! i = gs ! i)"
proof (induction cs arbitrary: gs d)
  case (Cons c cs)
  then have c: "c < length gs" "fresh_reg (users d) (gs ! c)" by auto
  obtain g d1 where st: "register_step port (gs ! c) d = (g, d1)" by fastforce
  from c(2) have "rg_pc (gs ! c) = RCheck" by (simp add: fresh_reg_def)
  from check_step [OF Cons.prems(2) this st] obtain p where p: "g = (gs ! c)\<lparr>rg_pc := p\<rparr>" "invar d1"
    "users d1 = users d" "p = RInsert \<or> (\<exists>e. p = RDone (Inl e))"
    using c(2) by metis
  let ?gs = "gs[c := g]"
  have run: "register_run port cs ?gs d1 = (gs', d')" using Cons.prems(1) c st by simp
  have "\<forall>i \<in> set cs. i < length ?gs \<and> fresh_reg (users d1) (?gs ! i)"
    using Cons.prems(3,4) p(3) by (auto simp: nth_list_update)
  from Cons.IH [OF run p(2) _ this] Cons.prems(3)
  have IH: "invar d'" "users d' = users d1"
    "\<And>i. if i \<in> set cs then gs' ! i = (?gs ! i)\<lparr>rg_pc := RInsert\<rparr> \<or> reg_threw (gs' ! i) else gs' ! i = ?gs ! i"
    by auto
  have "gs' ! c = g" using IH(3) [of c] Cons.prems(3) c(1) by simp
  then have "gs' ! c = (gs ! c)\<lparr>rg_pc := RInsert\<rparr> \<or> reg_threw (gs' ! c)"
    using p(1,4) by (auto simp: reg_threw_def)
  moreover have "if i \<in> set cs then gs' ! i = (gs ! i)\<lparr>rg_pc := RInsert\<rparr> \<or> reg_threw (gs' ! i) else gs' ! i = gs ! i"
    if "i \<noteq> c" for i
    using IH(3) [of i] nth_list_update_neq [OF that [symmetric], of gs g] by metis
  ultimately have "if i \<in> set (c # cs) then gs' ! i = (gs ! i)\<lparr>rg_pc := RInsert\<rparr> \<or> reg_threw (gs' ! i)
      else gs' ! i = gs ! i" for i
    by (cases "i = c") auto
  with IH(1,2) p(3) show ?case by presburger
qed simp

text \<open>A phase of inserts in which no call throws: every registration adds its user.\<close>

lemma insert_phase:
  "register_run port is gs d = (gs', d') \<Longrightarrow> invar d \<Longrightarrow> distinct is \<Longrightarrow>
     \<forall>i \<in> set is. i < length gs \<and> rg_pc (gs ! i) = RInsert \<and> \<not> reg_threw (gs' ! i) \<Longrightarrow>
     users d' = users d @ map (\<lambda>i. (rg_id (gs ! i), rg_username (gs ! i), rg_hash (gs ! i))) is \<and>
     (\<forall>i \<in> set is. rg_pc (gs' ! i) = RDone (Inr True))"
proof (induction "is" arbitrary: gs d)
  case (Cons c cs)
  then have c: "c < length gs" "rg_pc (gs ! c) = RInsert" "\<not> reg_threw (gs' ! c)" by auto
  obtain g d1 where st: "register_step port (gs ! c) d = (g, d1)" by fastforce
  from insert_step [OF Cons.prems(2) c(2) st] obtain r where r: "g = (gs ! c)\<lparr>rg_pc := RDone r\<rparr>" "invar d1"
    "r \<noteq> Inr False"
    "r = Inr True \<longrightarrow> users d1 = users d @ [(rg_id (gs ! c), rg_username (gs ! c), rg_hash (gs ! c))]" by blast
  let ?gs = "gs[c := g]"
  have run: "register_run port cs ?gs d1 = (gs', d')" using Cons.prems(1) c st by simp
  have gc: "gs' ! c = g" using register_run_done [OF run, of c r] r(1) c(1) by simp
  with c(3) r(1,3) have "r = Inr True" by (cases r) (auto simp: reg_threw_def)
  moreover have "\<forall>i \<in> set cs. i < length ?gs \<and> rg_pc (?gs ! i) = RInsert \<and> \<not> reg_threw (gs' ! i)"
    using Cons.prems(3,4) by (auto simp: nth_list_update)
  note Cons.IH [OF run r(2) _ this]
  moreover have "map (\<lambda>i. (rg_id (?gs ! i), rg_username (?gs ! i), rg_hash (?gs ! i))) cs =
      map (\<lambda>i. (rg_id (gs ! i), rg_username (gs ! i), rg_hash (gs ! i))) cs"
  proof (rule map_cong [OF refl])
    fix x
    assume "x \<in> set cs"
    with Cons.prems(3) have "?gs ! x = gs ! x" by (metis distinct.simps(2) nth_list_update_neq)
    then show "(rg_id (?gs ! x), rg_username (?gs ! x), rg_hash (?gs ! x)) = (rg_id (gs ! x), rg_username (gs ! x), rg_hash (gs ! x))"
      by simp
  qed
  ultimately show ?case using Cons.prems(3) r gc by simp
qed simp

end

section \<open>A port that refuses taken names\<close>

text \<open>
  Names are unique among the stored users, a registration that succeeded is stored, and no two that
  succeeded have the same name.
\<close>

abbreviation won :: "registration \<Rightarrow> bool" where
  "won g \<equiv> rg_pc g = RDone (Inr True)"

definition registered_once :: "stored_user list \<Rightarrow> registration list \<Rightarrow> bool" where
  "registered_once us gs \<longleftrightarrow> distinct (map name_of us) \<and>
     (\<forall>g \<in> set gs. won g \<longrightarrow> rg_username g \<in> set (map name_of us)) \<and>
     (\<forall>i < length gs. \<forall>j < length gs. i \<noteq> j \<longrightarrow> won (gs ! i) \<longrightarrow> won (gs ! j) \<longrightarrow>
        rg_username (gs ! i) \<noteq> rg_username (gs ! j))"

locale unique_user_store = registering_store findByUsername create users invar
  for findByUsername :: "string \<Rightarrow> time_point \<Rightarrow> 'd \<Rightarrow> User option result \<times> 'd"
    and create :: "User \<Rightarrow> 'd \<Rightarrow> bool result \<times> 'd"
    and users :: "'d \<Rightarrow> stored_user list"
    and invar :: "'d \<Rightarrow> bool" +
  assumes create_taken: "invar d \<Longrightarrow> create u d = (r, d') \<Longrightarrow>
      user_username u \<in> set (map name_of (users d)) \<Longrightarrow> r \<noteq> Inr True \<and> users d' = users d"
begin

text \<open>What one step does: it adds a user under a new name and succeeds, or it does neither.\<close>

lemma step_cases:
  assumes "invar d" and "register_step port g d = (g', d')"
  shows "invar d' \<and> rg_username g' = rg_username g \<and>
    (users d' = users d \<and> (rg_pc g' = RDone (Inr True) \<longrightarrow> rg_pc g = RDone (Inr True)) \<or>
     rg_username g \<notin> set (map name_of (users d)) \<and> rg_pc g \<noteq> RDone (Inr True) \<and>
       (\<exists>i h. users d' = users d @ [(i, rg_username g, h)]))"
proof (cases "rg_pc g")
  case RCheck
  obtain res d1 where f: "findByUsername (rg_username g) (rg_found g) d = (res, d1)" by fastforce
  from find_user [OF assms(1) f] RCheck f assms show ?thesis
    by (auto simp: register_step_def register_check_def split: if_splits sum.splits option.splits)
next
  case RInsert
  let ?u = "User_new (rg_id g) (rg_username g) (rg_hash g) (rg_now g)"
  obtain res d1 where c: "create ?u d = (res, d1)" by fastforce
  with assms(2) RInsert have g': "g' = g\<lparr>rg_pc := RDone res\<rparr>" "d' = d1"
    by (auto simp: register_step_def register_insert_def)
  from create_adds [OF assms(1) c] create_taken [OF assms(1) c] g' RInsert show ?thesis
    by (auto simp: stored_u_def User_new_def)
next
  case (RDone r)
  with assms show ?thesis by (auto simp: register_step_def)
qed

lemma registered_once_step:
  assumes inv: "invar d" and once: "registered_once (users d) gs" and i: "i < length gs"
    and s: "register_step port (gs ! i) d = (g, d')"
  shows "invar d' \<and> registered_once (users d') (gs[i := g])"
proof -
  let ?gs = "gs[i := g]" and ?old = "set (map name_of (users d))" and ?new = "set (map name_of (users d'))"
  note c = step_cases [OF inv s]
  have same: "rg_username (?gs ! j) = rg_username (gs ! j)" for j
    using c i by (cases "j = i") simp_all
  have names: "?old \<subseteq> ?new" using c by auto
  have fresh: "won (gs ! j) \<or> rg_username (gs ! j) \<notin> ?old \<and> rg_username (gs ! j) \<in> ?new"
    if "won (?gs ! j)" for j
    using c that i by (cases "j = i") auto
  have old: "rg_username (gs ! j) \<in> ?old" if "j < length gs" "won (gs ! j)" for j
    using once that by (auto simp: registered_once_def)
  have "distinct (map name_of (users d'))" using c once by (auto simp: registered_once_def)
  moreover have "rg_username (?gs ! j) \<in> ?new" if "j < length gs" "won (?gs ! j)" for j
    using fresh [OF that(2)] old [OF that(1)] names same by auto
  moreover have "rg_username (?gs ! j) \<noteq> rg_username (?gs ! k)"
    if jk: "j < length gs" "k < length gs" "j \<noteq> k" and w: "won (?gs ! j)" "won (?gs ! k)" for j k
  proof (cases "won (gs ! j) \<and> won (gs ! k)")
    case True
    with once jk same show ?thesis by (simp add: registered_once_def)
  next
    case False
    have "won (gs ! j) \<or> won (gs ! k)" using jk(3) w by (cases "j = i") auto
    with False fresh [OF w(1)] fresh [OF w(2)] old [OF jk(1)] old [OF jk(2)] same show ?thesis by metis
  qed
  ultimately show ?thesis
    using c unfolding registered_once_def all_set_conv_all_nth length_list_update by blast
qed

lemma registered_once_run:
  "register_run port is gs d = (gs', d') \<Longrightarrow> invar d \<Longrightarrow> registered_once (users d) gs \<Longrightarrow>
     registered_once (users d') gs'"
proof (induction "is" arbitrary: gs d)
  case (Cons i ks)
  then show ?case
    by (cases "i < length gs") (auto split: prod.splits dest: registered_once_step)
qed simp

end

section \<open>Postgres, without and with a uniqueness constraint\<close>

lemma pg_insert_answers: "pg_insert P sql row s = (r, s') \<Longrightarrow> r \<noteq> Inr False"
  by (auto simp: pg_insert_def Let_def split: prod.splits sum.splits)

interpretation pgr: registering_store
  "PostgresUserRepository_findByUsername P U" "PostgresUserRepository_create P U"
  "pg_users U tbl" "users_inv P U tbl"
  for P U tbl
  by unfold_locales (auto simp: PostgresUserRepository_create_def dest: pg_insert_answers)

text \<open>The table \<open>users\<close> has a \<open>UNIQUE\<close> constraint on \<open>username\<close>: inserting a taken name is an error.\<close>

definition unique_usernames :: "('c, 'd, 'r) pg_lib \<Rightarrow> ('d \<Rightarrow> pg_table) \<Rightarrow> bool" where
  "unique_usernames P tbl \<longleftrightarrow>
     (\<forall>c i name hash d. name \<in> set (map (\<lambda>row. row ! 1) (tbl d)) \<longrightarrow>
        (\<exists>e. pg_exec_params P c insert_user_sql [i, name, hash] d = Inl e))"

definition unique_users_inv ::
  "('c, 'd, 'r) pg_lib \<Rightarrow> uuid_lib \<Rightarrow> ('d \<Rightarrow> pg_table) \<Rightarrow> ('c, 'd) pg_state \<Rightarrow> bool" where
  "unique_users_inv P U tbl s \<longleftrightarrow> users_inv P U tbl s \<and> unique_usernames P tbl"

interpretation pgq: unique_user_store
  "PostgresUserRepository_findByUsername P U" "PostgresUserRepository_create P U"
  "pg_users U tbl" "unique_users_inv P U tbl"
  for P U tbl
proof (unfold_locales, goal_cases)
  case (1 d u r d')
  with pgu.create_adds [of P U tbl d u r d'] show ?case by (auto simp: unique_users_inv_def)
next
  case (2 d name now res d')
  with pgu.find_user [of P U tbl d name now res d'] show ?case by (auto simp: unique_users_inv_def)
next
  case (3 u d r d')
  then show ?case by (rule pgr.create_answers)
next
  case (4 d u r d')
  then have P: "pg_transactions P tbl" "unique_usernames P tbl"
    and n: "user_username u \<in> set (map (\<lambda>row. row ! 1) (tbl (pg_db d)))"
    by (auto simp: unique_users_inv_def users_inv_def postgres_users_def pg_inserts_def pg_users_def row_stored_u_def)
  let ?row = "[uuid_to_string U (user_id u), user_username u, user_passwordHash u]"
  have "\<exists>e. rbind (pg_work P c (pg_db d)) (pg_exec_params P c insert_user_sql ?row) = Inl e" for c
    using P n by (cases "pg_work P c (pg_db d)") (auto simp: pg_transactions_def unique_usernames_def)
  moreover obtain c pool' where a: "PostgresPool_acquire (pg_pool d) = (c, pool')" by fastforce
  ultimately obtain e where "rbind (pg_work P c (pg_db d)) (pg_exec_params P c insert_user_sql ?row) = Inl e" by blast
  with 4(2) a show ?case
    by (auto simp: PostgresUserRepository_create_def pg_insert_def pg_users_def Let_def)
qed

definition unique_pg :: "(nat, mem_db, (string \<times> string) list) pg_lib" where
  "unique_pg = memory_pg\<lparr>pg_exec_params := (\<lambda>c sql ps d.
     if sql = insert_user_sql \<and> ps ! 1 \<in> set (map (\<lambda>row. row ! 1) (mem_users d))
     then Inl (SqlError ''duplicate key'') else mem_exec sql ps d)\<rparr>"

lemma unique_pg_exec:
  "pg_exec_params unique_pg c sql ps d = Inr r \<Longrightarrow> pg_exec_params memory_pg c sql ps d = Inr r"
  by (auto simp: unique_pg_def memory_pg_def split: if_splits)

lemma unique_pg_rest [simp]:
  "pg_work unique_pg = pg_work memory_pg" "pg_commit unique_pg = pg_commit memory_pg"
  "pg_as_string unique_pg = pg_as_string memory_pg"
  by (simp_all add: unique_pg_def)

lemma unique_pg_ok: "unique_users_inv unique_pg hex_uuid mem_users memory_state"
proof -
  have "unique_usernames unique_pg mem_users" by (simp add: unique_usernames_def unique_pg_def)
  moreover have "postgres_users unique_pg mem_users"
    unfolding postgres_users_def
  proof (intro conjI allI impI)
    show "pg_inserts unique_pg insert_user_sql mem_users"
      using memory_pg_inserts(2) unique_pg_exec
      unfolding pg_inserts_def pg_transactions_def unique_pg_rest by blast
    fix c name d rs v
    assume "pg_exec_params unique_pg c find_user_sql [name] d = Inr (rs, v)"
    from unique_pg_exec [OF this] memory_pg_users
    show "rs = [] \<Longrightarrow> \<forall>row \<in> set (mem_users d). row ! 1 \<noteq> name"
      and "\<forall>r \<in> set rs. \<exists>row \<in> set (mem_users d). row ! 1 = name \<and>
        row_is unique_pg [''id'', ''username'', ''password_hash''] r row"
      unfolding postgres_users_def row_is_def unique_pg_rest by blast+
  qed
  ultimately show ?thesis
    by (simp add: unique_users_inv_def users_inv_def hex_uuid_ok memory_state_def mem_users_def)
qed

section \<open>Properties\<close>

text \<open>
  C37. Concurrent registration with a unique column. If the database refuses a taken name, then
  however any number of registrations interleave, user names stay unique and no two registrations
  with the same name report success. The check of the use case has its own part: a registration
  whose name was stored at the start never gets as far as its insert (in no schedule, hence at no
  moment of one); one that reports \<open>false\<close> had an empty field or its name is stored; one that reports
  \<open>true\<close> had none and its own identifier, name and hash are stored.
\<close>

theorem registrations_unique:
  assumes "unique_users_inv P U tbl s" and "distinct (map name_of (pg_users U tbl s))"
    and "\<forall>g \<in> set gs. rg_pc g = RCheck"
    and "register_run (pg_user_repository P U) is gs s = (gs', s')"
  shows "distinct (map name_of (pg_users U tbl s')) \<and>
    (\<forall>i < length gs'. \<forall>j < length gs'. i \<noteq> j \<longrightarrow> rg_pc (gs' ! i) = RDone (Inr True) \<longrightarrow>
       rg_pc (gs' ! j) = RDone (Inr True) \<longrightarrow> rg_username (gs' ! i) \<noteq> rg_username (gs' ! j)) \<and>
    (\<forall>g \<in> set gs'.
       (rg_username g \<in> set (map name_of (pg_users U tbl s)) \<longrightarrow>
          rg_pc g \<noteq> RInsert \<and> rg_pc g \<noteq> RDone (Inr True)) \<and>
       (rg_pc g = RDone (Inr False) \<longrightarrow>
          rg_username g = [] \<or> rg_hash g = [] \<or> rg_username g \<in> set (map name_of (pg_users U tbl s'))) \<and>
       (rg_pc g = RDone (Inr True) \<longrightarrow> rg_username g \<noteq> [] \<and> rg_hash g \<noteq> [] \<and>
          (rg_id g, rg_username g, rg_hash g) \<in> set (pg_users U tbl s')))"
proof -
  have run: "register_run \<lparr>ur_findByUsername = PostgresUserRepository_findByUsername P U,
      ur_create = PostgresUserRepository_create P U\<rparr> is gs s = (gs', s')" using assms(4) by (simp add: pg_user_repository_def)
  have "registered_once (pg_users U tbl s) gs"
    using assms(2,3) nth_mem unfolding registered_once_def by fastforce
  with pgq.registered_once_run [OF run assms(1)] have "registered_once (pg_users U tbl s') gs'" .
  moreover have "\<forall>g \<in> set gs'. reg_ok (pg_users U tbl s) (pg_users U tbl s') g"
    using pgq.reg_ok_run [OF run assms(1)] assms(3) by (auto simp: reg_ok_def)
  ultimately show ?thesis unfolding registered_once_def reg_ok_def by blast
qed

theorem registrations_unique_witness:
  "\<exists>gs' s'. register_run (pg_user_repository unique_pg hex_uuid) [0, 1, 0, 1]
       [registration_new 5 0 0 ''ann'' ''x1'', registration_new 6 0 0 ''ann'' ''x2''] memory_state = (gs', s') \<and>
     rg_pc (gs' ! 0) = RDone (Inr True) \<and> rg_pc (gs' ! 1) \<noteq> RDone (Inr True) \<and>
     distinct (map name_of (pg_users hex_uuid mem_users s'))"
proof -
  let ?gs = "[registration_new 5 0 0 ''ann'' ''x1'', registration_new 6 0 0 ''ann'' ''x2'']"
  let ?run = "register_run (pg_user_repository unique_pg hex_uuid) [0, 1, 0, 1] ?gs memory_state"
  have "rg_pc (fst ?run ! 0) = RDone (Inr True) \<and> length (fst ?run) = 2 \<and>
      rg_username (fst ?run ! 0) = rg_username (fst ?run ! 1)" by code_simp
  then obtain gs' s' where r: "?run = (gs', s')" and g: "rg_pc (gs' ! 0) = RDone (Inr True)" "length gs' = 2"
    "rg_username (gs' ! 0) = rg_username (gs' ! 1)"
    by (metis fst_conv surj_pair)
  have d: "distinct (map name_of (pg_users hex_uuid mem_users memory_state))"
    by (simp add: pg_users_def memory_state_def mem_users_def)
  have c: "\<forall>g \<in> set ?gs. rg_pc g = RCheck" by (simp add: registration_new_def)
  note u = registrations_unique [OF unique_pg_ok d c r]
  have "0 < length gs'" "1 < length gs'" using g(2) by simp_all
  with u g have "rg_pc (gs' ! 1) \<noteq> RDone (Inr True)" by (metis zero_neq_one)
  with u r g show ?thesis by blast
qed

text \<open>
  C38. Concurrent registration without one. On any table, let any number of registrations of one
  free name make their checks, in any order, before the first of them inserts, and then insert, in
  any order. Unless a repository call throws (no constraint refuses the name), all of them report
  success and the table gains one user of that name for each, with its own identifier and hash: as
  soon as there are two, names are no longer unique.
\<close>

theorem registrations_race:
  assumes "users_inv P U tbl s" and "u \<noteq> []" and "u \<notin> set (map name_of (pg_users U tbl s))"
    and "\<forall>g \<in> set gs. rg_pc g = RCheck \<and> rg_username g = u \<and> rg_hash g \<noteq> []"
    and "distinct cs" and "set cs = {..<length gs}" and "distinct is" and "set is = {..<length gs}"
    and "register_run (pg_user_repository P U) (cs @ is) gs s = (gs', s')"
    and "\<forall>g \<in> set gs'. \<forall>e. rg_pc g \<noteq> RDone (Inl e)"
  shows "length gs' = length gs \<and> (\<forall>g \<in> set gs'. rg_pc g = RDone (Inr True)) \<and>
    pg_users U tbl s' = pg_users U tbl s @ map (\<lambda>i. (rg_id (gs ! i), u, rg_hash (gs ! i))) is \<and>
    (2 \<le> length gs \<longrightarrow> \<not> distinct (map name_of (pg_users U tbl s')))"
proof -
  let ?port = "\<lparr>ur_findByUsername = PostgresUserRepository_findByUsername P U,
    ur_create = PostgresUserRepository_create P U\<rparr>"
  obtain g1 s1 where r1: "register_run ?port cs gs s = (g1, s1)" by fastforce
  with assms(9) have r2: "register_run ?port is g1 s1 = (gs', s')"
    by (simp add: pg_user_repository_def register_run_append)
  have l: "length g1 = length gs" "length gs' = length gs"
    using register_run_length [OF r1] register_run_length [OF r2] by simp_all
  have calm: "\<not> reg_threw (gs' ! i)" if "i < length gs" for i
    using assms(10) l that by (auto simp: reg_threw_def)
  have "\<forall>i \<in> set cs. i < length gs \<and> fresh_reg (pg_users U tbl s) (gs ! i)"
    using assms(2-4,6) by (simp add: fresh_reg_def)
  from pgr.check_phase [OF r1 assms(1,5) this]
  have s1: "users_inv P U tbl s1" "pg_users U tbl s1 = pg_users U tbl s"
    and g1: "\<And>i. i < length gs \<Longrightarrow> g1 ! i = (gs ! i)\<lparr>rg_pc := RInsert\<rparr> \<or> reg_threw (g1 ! i)"
    using assms(6) by auto
  have ins: "g1 ! i = (gs ! i)\<lparr>rg_pc := RInsert\<rparr>" if "i < length gs" for i
    using g1 [OF that] calm [OF that] register_run_done [OF r2, of i] by (auto simp: reg_threw_def)
  then have "\<forall>i \<in> set is. i < length g1 \<and> rg_pc (g1 ! i) = RInsert \<and> \<not> reg_threw (gs' ! i)"
    using assms(8) calm l by simp
  note fin = pgr.insert_phase [OF r2 s1(1) assms(7) this]
  have "map (\<lambda>i. (rg_id (g1 ! i), rg_username (g1 ! i), rg_hash (g1 ! i))) is =
      map (\<lambda>i. (rg_id (gs ! i), u, rg_hash (gs ! i))) is"
    using ins assms(4,8) by auto
  with fin s1(2) have us: "pg_users U tbl s' = pg_users U tbl s @ map (\<lambda>i. (rg_id (gs ! i), u, rg_hash (gs ! i))) is"
    by simp
  have "\<forall>g \<in> set gs'. rg_pc g = RDone (Inr True)"
    using fin assms(8) l by (auto simp: all_set_conv_all_nth)
  moreover have "\<not> distinct (map name_of (pg_users U tbl s'))" if two: "2 \<le> length gs"
  proof -
    have "length is = length gs" using distinct_card [OF assms(7)] assms(8) by simp
    with two obtain i j ks where "is = i # j # ks" by (cases "is"; cases "tl is") auto
    then show ?thesis by (simp add: us)
  qed
  ultimately show ?thesis using us l by blast
qed

theorem registrations_race_witness:
  "\<exists>gs' s'. register_run (pg_user_repository memory_pg hex_uuid) [0, 1, 1, 0]
       [registration_new 5 0 0 ''ann'' ''x1'', registration_new 6 0 0 ''ann'' ''x2''] memory_state = (gs', s') \<and>
     map rg_pc gs' = [RDone (Inr True), RDone (Inr True)] \<and>
     pg_users hex_uuid mem_users s' = [(6, ''ann'', ''x2''), (5, ''ann'', ''x1'')]"
proof -
  let ?gs = "[registration_new 5 0 0 ''ann'' ''x1'', registration_new 6 0 0 ''ann'' ''x2'']"
  let ?run = "register_run (pg_user_repository memory_pg hex_uuid) ([0, 1] @ [1, 0]) ?gs memory_state"
  have "map rg_pc (fst ?run) = [RDone (Inr True), RDone (Inr True)]" by code_simp
  then obtain gs' s' where r: "?run = (gs', s')" and p: "map rg_pc gs' = [RDone (Inr True), RDone (Inr True)]"
    by (metis fst_conv surj_pair)
  from p have "rg_pc g = RDone (Inr True)" if "g \<in> set gs'" for g using that by auto
  then have "\<forall>g \<in> set gs'. \<forall>e. rg_pc g \<noteq> RDone (Inl e)" by simp
  moreover have "users_inv memory_pg hex_uuid mem_users memory_state"
    using unique_pg_ok memory_pg_users by (simp add: unique_users_inv_def users_inv_def)
  moreover have "''ann'' \<notin> set (map name_of (pg_users hex_uuid mem_users memory_state))"
    by (simp add: pg_users_def memory_state_def mem_users_def)
  moreover have "\<forall>g \<in> set ?gs. rg_pc g = RCheck \<and> rg_username g = ''ann'' \<and> rg_hash g \<noteq> []"
    by (simp add: registration_new_def)
  moreover have "set [0, 1] = {..<length ?gs}" "set [1, 0] = {..<length ?gs}" "distinct [0, 1 :: nat]" "distinct [1, 0 :: nat]"
    by auto
  ultimately have "pg_users hex_uuid mem_users s' = pg_users hex_uuid mem_users memory_state @
      map (\<lambda>i. (rg_id (?gs ! i), ''ann'', rg_hash (?gs ! i))) [1, 0]"
    using registrations_race [of memory_pg hex_uuid mem_users memory_state "''ann''" ?gs "[0, 1]" "[1, 0]" gs' s'] r
    by blast
  then have "pg_users hex_uuid mem_users s' = [(6, ''ann'', ''x2''), (5, ''ann'', ''x1'')]"
    by (simp add: registration_new_def pg_users_def memory_state_def mem_users_def)
  moreover have "register_run (pg_user_repository memory_pg hex_uuid) [0, 1, 1, 0] ?gs memory_state = (gs', s')"
    using r unfolding append.simps .
  ultimately show ?thesis using p by (intro exI [of _ gs'] exI [of _ s']) simp
qed

end
