(* ===== verification/Pool_Sharing.thy ===== *)
theory Pool_Sharing
  imports Postgres
begin

text \<open>
  The pool (\<open>infrastructure/database/postgres_pool.cpp\<close>) under several threads. Every method of the
  three repositories uses a connection in the same way: it acquires one, constructs a
  \<open>pqxx::work\<close> on it and keeps it until the method ends. Actor threads and network threads do so
  at the same time, and \<open>acquire\<close> does not know which connections are still in use.
\<close>

section \<open>Threads and their connections\<close>

text \<open>The first argument numbers the calls of \<open>acquire\<close>; it is not part of the program's state.\<close>

datatype 'c conn_use = Unused | Holds nat 'c | Works nat 'c

fun use_ticket :: "'c conn_use \<Rightarrow> nat option" where
  "use_ticket Unused = None"
| "use_ticket (Holds t c) = Some t"
| "use_ticket (Works t c) = Some t"

fun use_conn :: "'c conn_use \<Rightarrow> 'c option" where
  "use_conn Unused = None"
| "use_conn (Holds t c) = Some c"
| "use_conn (Works t c) = Some c"

fun works_on :: "'c \<Rightarrow> 'c conn_use \<Rightarrow> bool" where
  "works_on c (Works t c') \<longleftrightarrow> c = c'"
| "works_on c _ \<longleftrightarrow> False"

record 'c pool_users =
  pu_pool :: "'c postgres_pool"
  pu_threads :: "'c conn_use list"
  pu_calls :: nat
  pu_thrown :: "(nat \<times> exn) list"

datatype use_label =
    UAcquire nat
  | UWork nat
  | UEnd nat

text \<open>
  The constructor of \<open>pqxx::work\<close> may throw, and its outcome depends on whether a transaction is
  open on the connection; it is the argument \<open>W\<close>. \<open>libpqxx\<close> documents that a second one is refused.
\<close>

definition one_transaction :: "(bool \<Rightarrow> exn option) \<Rightarrow> bool" where
  "one_transaction W \<longleftrightarrow> W True \<noteq> None"

fun use_exec :: "(bool \<Rightarrow> exn option) \<Rightarrow> use_label \<Rightarrow> 'c pool_users \<Rightarrow> 'c pool_users option" where
  "use_exec W (UAcquire i) s =
     (if i < length (pu_threads s) \<and> pu_threads s ! i = Unused
      then case PostgresPool_acquire (pu_pool s) of (connection, pool') \<Rightarrow>
        Some (s\<lparr>pu_pool := pool', pu_threads := (pu_threads s)[i := Holds (pu_calls s) connection],
                pu_calls := Suc (pu_calls s)\<rparr>)
      else None)"
| "use_exec W (UWork i) s =
     (if i < length (pu_threads s)
      then case pu_threads s ! i of
          Holds t c \<Rightarrow>
            (case W (list_ex (works_on c) (pu_threads s)) of
               None \<Rightarrow> Some (s\<lparr>pu_threads := (pu_threads s)[i := Works t c]\<rparr>)
             | Some e \<Rightarrow> Some (s\<lparr>pu_threads := (pu_threads s)[i := Unused], pu_thrown := pu_thrown s @ [(i, e)]\<rparr>))
        | _ \<Rightarrow> None
      else None)"
| "use_exec W (UEnd i) s =
     (if i < length (pu_threads s)
      then case pu_threads s ! i of
          Works t c \<Rightarrow> Some (s\<lparr>pu_threads := (pu_threads s)[i := Unused]\<rparr>)
        | _ \<Rightarrow> None
      else None)"

fun use_run :: "(bool \<Rightarrow> exn option) \<Rightarrow> use_label list \<Rightarrow> 'c pool_users \<Rightarrow> 'c pool_users option" where
  "use_run W [] s = Some s"
| "use_run W (l # ls) s = (case use_exec W l s of None \<Rightarrow> None | Some s' \<Rightarrow> use_run W ls s')"

definition users_init :: "'c postgres_pool \<Rightarrow> nat \<Rightarrow> 'c pool_users" where
  "users_init p k = \<lparr>pu_pool = p, pu_threads = replicate k Unused, pu_calls = 0, pu_thrown = []\<rparr>"

text \<open>A run is prompt if no thread keeps a connection while as many others are acquired as the
  pool has.\<close>

fun prompt_run :: "(bool \<Rightarrow> exn option) \<Rightarrow> use_label list \<Rightarrow> 'c pool_users \<Rightarrow> bool" where
  "prompt_run W [] s \<longleftrightarrow> True"
| "prompt_run W (l # ls) s \<longleftrightarrow>
     (case l of
        UAcquire _ \<Rightarrow> list_all (\<lambda>u. case use_ticket u of None \<Rightarrow> True
                              | Some t \<Rightarrow> pu_calls s < t + length (pool (pu_pool s))) (pu_threads s)
      | _ \<Rightarrow> True) \<and>
     (case use_exec W l s of None \<Rightarrow> True | Some s' \<Rightarrow> prompt_run W ls s')"

section \<open>The invariant of prompt runs\<close>

definition ticket_ok :: "'c pool_users \<Rightarrow> 'c conn_use \<Rightarrow> bool" where
  "ticket_ok s u \<longleftrightarrow>
     (\<forall>t. use_ticket u = Some t \<longrightarrow>
        t < pu_calls s \<and> pu_calls s \<le> t + length (pool (pu_pool s)) \<and>
        use_conn u = Some (pool (pu_pool s) ! (t mod length (pool (pu_pool s)))))"

definition sharing_inv :: "(bool \<Rightarrow> exn option) \<Rightarrow> 'c pool_users \<Rightarrow> bool" where
  "sharing_inv W s \<longleftrightarrow>
     pool (pu_pool s) \<noteq> [] \<and> length (pool (pu_pool s)) < 2 ^ 64 \<and> distinct (pool (pu_pool s)) \<and>
     next_conn (pu_pool s) = of_nat (pu_calls s) \<and>
     (\<forall>u \<in> set (pu_threads s). ticket_ok s u) \<and>
     (\<forall>i j t. i < length (pu_threads s) \<longrightarrow> j < length (pu_threads s) \<longrightarrow>
        use_ticket (pu_threads s ! i) = Some t \<longrightarrow> use_ticket (pu_threads s ! j) = Some t \<longrightarrow> i = j) \<and>
     (\<forall>x \<in> set (pu_thrown s). W False = Some (snd x))"

lemma use_conn_ticket: "use_conn u = None \<longleftrightarrow> use_ticket u = None"
  by (cases u) simp_all

lemma works_on_conn: "works_on c u \<Longrightarrow> use_conn u = Some c"
  by (cases u) simp_all

text \<open>Tickets that are less than a round apart give different connections.\<close>

lemma round_distinct:
  assumes "distinct cs" and "cs \<noteq> []" and "t < m" and "m \<le> t + length cs" and "t' < m" and "m \<le> t' + length cs"
    and "cs ! (t mod length cs) = cs ! (t' mod length cs)"
  shows "t = t'"
proof -
  have "t mod length cs = t' mod length cs"
    using assms(1,2,7) by (simp add: nth_eq_iff_index_eq)
  moreover have "t < t' + length cs" "t' < t + length cs" using assms(3-6) by linarith+
  ultimately show ?thesis
    using mod_eq_dvd_iff_nat [of t t' "length cs"] mod_eq_dvd_iff_nat [of t' t "length cs"]
    by (metis add_diff_inverse_nat add_less_cancel_left dvd_imp_le leD linorder_neqE_nat nat_less_le not_less zero_less_diff)
qed

lemma sharing_exclusive:
  assumes "sharing_inv W s" and "i < length (pu_threads s)" and "j < length (pu_threads s)" and "i \<noteq> j"
    and "use_conn (pu_threads s ! i) = Some c"
  shows "use_conn (pu_threads s ! j) \<noteq> Some c"
proof
  assume j: "use_conn (pu_threads s ! j) = Some c"
  let ?cs = "pool (pu_pool s)"
  obtain t t' where t: "use_ticket (pu_threads s ! i) = Some t" "use_ticket (pu_threads s ! j) = Some t'"
    using assms(5) j use_conn_ticket by (metis not_Some_eq)
  have "ticket_ok s (pu_threads s ! i)" "ticket_ok s (pu_threads s ! j)"
    using assms(1-3) by (auto simp: sharing_inv_def)
  then have "t = t'"
    using round_distinct [of ?cs t "pu_calls s" t'] assms(1,5) j t
    by (simp add: ticket_ok_def sharing_inv_def)
  with t assms(1-4) show False unfolding sharing_inv_def by blast
qed

lemma sharing_inv_update:
  assumes "sharing_inv W s" and "i < length (pu_threads s)"
    and "use_ticket u = None \<or> use_ticket u = use_ticket (pu_threads s ! i) \<and> use_conn u = use_conn (pu_threads s ! i)"
    and "\<forall>x \<in> set th. W False = Some (snd x)"
  shows "sharing_inv W (s\<lparr>pu_threads := (pu_threads s)[i := u], pu_thrown := th\<rparr>)"
proof -
  let ?s = "s\<lparr>pu_threads := (pu_threads s)[i := u], pu_thrown := th\<rparr>"
  have ok: "ticket_ok ?s v = ticket_ok s v" for v by (simp add: ticket_ok_def)
  have "ticket_ok s (pu_threads s ! i)" using assms(1,2) by (auto simp: sharing_inv_def)
  with assms(3) have "ticket_ok s u" by (auto simp: ticket_ok_def)
  moreover have "a = b" if "a < length (pu_threads s)" "b < length (pu_threads s)"
    "use_ticket ((pu_threads s)[i := u] ! a) = Some t" "use_ticket ((pu_threads s)[i := u] ! b) = Some t" for a b t
  proof -
    have "use_ticket (pu_threads s ! a) = Some t" "use_ticket (pu_threads s ! b) = Some t"
      using that assms(2,3) by (auto simp: nth_list_update split: if_splits)
    with that assms(1) show ?thesis unfolding sharing_inv_def by blast
  qed
  ultimately show ?thesis
    using assms(1,4) set_update_subset_insert [of "pu_threads s" i u]
    unfolding sharing_inv_def by (auto simp: ok)
qed

lemma sharing_inv_acquire:
  assumes "sharing_inv W s" and "i < length (pu_threads s)" and "pu_threads s ! i = Unused"
    and "Suc (pu_calls s) < 2 ^ 64" and "prompt_run W [UAcquire i] s"
    and "PostgresPool_acquire (pu_pool s) = (c, p')"
  shows "sharing_inv W (s\<lparr>pu_pool := p', pu_threads := (pu_threads s)[i := Holds (pu_calls s) c],
    pu_calls := Suc (pu_calls s)\<rparr>)"
proof -
  let ?s = "s\<lparr>pu_pool := p', pu_threads := (pu_threads s)[i := Holds (pu_calls s) c], pu_calls := Suc (pu_calls s)\<rparr>"
  let ?cs = "pool (pu_pool s)" and ?ts = "(pu_threads s)[i := Holds (pu_calls s) c]"
  have n: "unat (next_conn (pu_pool s)) = pu_calls s"
    using assms(1,4) by (simp add: sharing_inv_def unat_of_nat)
  have p': "p' = (pu_pool s)\<lparr>next_conn := next_conn (pu_pool s) + 1\<rparr>"
    using assms(6) by (simp add: PostgresPool_acquire_def Let_def)
  have c: "c = ?cs ! (pu_calls s mod length ?cs)"
    using acquire_index [of "pu_pool s"] assms(1,6) n by (simp add: sharing_inv_def)
  have prompt: "pu_calls s < t + length ?cs" if "u \<in> set (pu_threads s)" "use_ticket u = Some t" for u t
    using assms(5) that by (force simp: list_all_iff)
  have old: "ticket_ok s u" if "u \<in> set (pu_threads s)" for u using assms(1) that by (simp add: sharing_inv_def)
  have fresh: "use_ticket (pu_threads s ! a) \<noteq> Some (pu_calls s)" if "a < length (pu_threads s)" for a
    using old [of "pu_threads s ! a"] that by (auto simp: ticket_ok_def)
  have "ticket_ok ?s u" if "u \<in> set (pu_threads s)" for u
    using old [OF that] prompt [OF that] by (auto simp: ticket_ok_def p' less_Suc_eq Suc_le_eq)
  moreover have "ticket_ok ?s (Holds (pu_calls s) c)"
    using assms(1) by (simp add: ticket_ok_def p' c sharing_inv_def Suc_le_eq)
  moreover have "a = b" if "a < length ?ts" "b < length ?ts" "use_ticket (?ts ! a) = Some t" "use_ticket (?ts ! b) = Some t" for a b t
    using that fresh assms(1,2) unfolding sharing_inv_def
    by (cases "a = i"; cases "b = i") (auto simp: nth_list_update)
  ultimately show ?thesis
    using assms(1) set_update_subset_insert [of "pu_threads s" i "Holds (pu_calls s) c"]
    unfolding sharing_inv_def by (auto simp: p')
qed

lemma sharing_inv_exec:
  assumes "sharing_inv W s" and "use_exec W l s = Some s'" and "Suc (pu_calls s) < 2 ^ 64" and "prompt_run W [l] s"
  shows "sharing_inv W s' \<and> pu_calls s' \<le> Suc (pu_calls s)"
proof (cases l)
  case (UAcquire i)
  obtain c p' where a: "PostgresPool_acquire (pu_pool s) = (c, p')" by fastforce
  with assms(2) UAcquire have i: "i < length (pu_threads s)" "pu_threads s ! i = Unused"
    "s' = s\<lparr>pu_pool := p', pu_threads := (pu_threads s)[i := Holds (pu_calls s) c], pu_calls := Suc (pu_calls s)\<rparr>"
    by (auto split: if_splits)
  from sharing_inv_acquire [OF assms(1) i(1,2) assms(3) _ a] assms(4) UAcquire i(3) show ?thesis by simp
next
  case (UWork i)
  with assms(2) obtain t c where i: "i < length (pu_threads s)" "pu_threads s ! i = Holds t c"
    by (auto split: if_splits conn_use.splits)
  have "\<not> works_on c u" if "u \<in> set (pu_threads s)" for u
  proof
    assume w: "works_on c u"
    from that obtain j where j: "j < length (pu_threads s)" "u = pu_threads s ! j" by (metis in_set_conv_nth)
    with w i have "i \<noteq> j" by auto
    from sharing_exclusive [OF assms(1) i(1) j(1) this, of c] works_on_conn [OF w] i j show False by simp
  qed
  then have f: "list_ex (works_on c) (pu_threads s) = False" by (auto simp: list_ex_iff)
  have th: "\<forall>x \<in> set (pu_thrown s). W False = Some (snd x)" using assms(1) by (simp add: sharing_inv_def)
  show ?thesis
  proof (cases "W False")
    case None
    with assms(2) UWork i f have "s' = s\<lparr>pu_threads := (pu_threads s)[i := Works t c], pu_thrown := pu_thrown s\<rparr>" by auto
    with sharing_inv_update [OF assms(1) i(1) _ th, of "Works t c"] i show ?thesis by simp
  next
    case (Some e)
    with assms(2) UWork i f have "s' = s\<lparr>pu_threads := (pu_threads s)[i := Unused], pu_thrown := pu_thrown s @ [(i, e)]\<rparr>" by simp
    with sharing_inv_update [OF assms(1) i(1), of Unused "pu_thrown s @ [(i, e)]"] th Some show ?thesis by simp
  qed
next
  case (UEnd i)
  with assms(2) have i: "i < length (pu_threads s)"
    "s' = s\<lparr>pu_threads := (pu_threads s)[i := Unused], pu_thrown := pu_thrown s\<rparr>"
    by (auto split: if_splits conn_use.splits)
  with sharing_inv_update [OF assms(1) i(1), of Unused "pu_thrown s"] assms(1) show ?thesis
    by (simp add: sharing_inv_def)
qed

lemma sharing_inv_run:
  assumes "sharing_inv W s" and "use_run W ls s = Some s'" and "pu_calls s + length ls < 2 ^ 64" and "prompt_run W ls s"
  shows "sharing_inv W s'"
  using assms
proof (induction ls arbitrary: s)
  case (Cons l ls)
  then obtain s1 where s1: "use_exec W l s = Some s1" "use_run W ls s1 = Some s'"
    by (auto split: option.splits)
  have "prompt_run W [l] s" "prompt_run W ls s1" using Cons.prems(4) s1(1) by auto
  with sharing_inv_exec [OF Cons.prems(1) s1(1)] Cons.prems(3) Cons.IH [OF _ s1(2)] show ?case by force
qed simp

lemma new_pool:
  assumes "PostgresPool_new connect n = Inr p"
  shows "length (pool p) = unat n \<and> 0 < unat n \<and> next_conn p = 0 \<and> pool p \<noteq> [] \<and> length (pool p) < 2 ^ 64"
proof -
  from assms obtain cs where c: "n \<noteq> 0" "pool_fill connect 0 (unat n) [] = Inr cs"
    "p = \<lparr>pool = cs, next_conn = 0\<rparr>"
    by (auto simp: PostgresPool_new_def rbind_eq_Inr split: if_splits)
  have "unat n < 2 ^ LENGTH(64)" by (rule unsigned_less)
  moreover have "0 < unat n" using c(1) by (simp add: unat_gt_0)
  ultimately show ?thesis using pool_fill_length [OF c(2)] c(3) by auto
qed

lemma sharing_inv_init:
  assumes "PostgresPool_new connect n = Inr p" and "distinct (pool p)"
  shows "sharing_inv W (users_init p k)"
  using new_pool [OF assms(1)] assms(2)
  by (auto simp: sharing_inv_def users_init_def ticket_ok_def)

section \<open>A long transaction\<close>

definition quick :: "use_label list" where
  "quick = [UAcquire 1, UWork 1, UEnd 1]"

lemma use_run_append:
  "use_run W (ls @ ls') s = (case use_run W ls s of None \<Rightarrow> None | Some s' \<Rightarrow> use_run W ls' s')"
  by (induction ls arbitrary: s) (auto split: option.splits)

abbreviation two_users :: "'c list \<Rightarrow> nat \<Rightarrow> 'c pool_users" where
  "two_users cs k \<equiv> \<lparr>pu_pool = \<lparr>pool = cs, next_conn = of_nat k\<rparr>,
     pu_threads = [Works 0 (cs ! 0), Unused], pu_calls = k, pu_thrown = []\<rparr>"

lemma acquire_nth:
  assumes "cs \<noteq> []" and "length cs < 2 ^ 64" and "k \<le> length cs"
  shows "PostgresPool_acquire \<lparr>pool = cs, next_conn = of_nat k\<rparr> =
    (cs ! (k mod length cs), \<lparr>pool = cs, next_conn = of_nat (Suc k)\<rparr>)"
proof -
  have "unat (of_nat k :: size_t) = k" using assms(2,3) by (simp add: unat_of_nat)
  with acquire_index [of "\<lparr>pool = cs, next_conn = of_nat k\<rparr>"] assms(2)
  have "fst (PostgresPool_acquire \<lparr>pool = cs, next_conn = of_nat k\<rparr>) = cs ! (k mod length cs)" by simp
  then show ?thesis by (simp add: PostgresPool_acquire_def Let_def add.commute)
qed

lemma quick_run:
  assumes "distinct cs" and "length cs < 2 ^ 64" and "0 < k" and "k < length cs" and "W False = None"
  shows "use_run W quick (two_users cs k) = Some (two_users cs (Suc k))"
proof -
  have "PostgresPool_acquire \<lparr>pool = cs, next_conn = of_nat k\<rparr> = (cs ! k, \<lparr>pool = cs, next_conn = of_nat (Suc k)\<rparr>)"
    using acquire_nth [of cs k] assms(2,4) by (cases cs) auto
  moreover have "cs ! k \<noteq> cs ! 0" using nth_eq_iff_index_eq [OF assms(1,4), of 0] assms(3,4) by (cases cs) auto
  ultimately show ?thesis using assms(5) by (simp add: quick_def del: of_nat_Suc)
qed

lemma quick_rounds:
  assumes "distinct cs" and "length cs < 2 ^ 64" and "W False = None" and "m < length cs"
  shows "use_run W (concat (replicate m quick)) (two_users cs 1) = Some (two_users cs (Suc m))"
  using assms(4)
proof (induction m)
  case (Suc m)
  have "concat (replicate (Suc m) quick) = concat (replicate m quick) @ quick"
    by (metis append_Nil2 concat.simps concat_append replicate_Suc replicate_append_same)
  with Suc quick_run [of cs "Suc m" W] assms(1-3) show ?case
    by (simp add: use_run_append del: of_nat_Suc)
qed simp

section \<open>Properties\<close>

text \<open>
  C35. Prompt use is exclusive. Take any number of threads and any interleaving of their repository
  calls in which nobody keeps a connection while the pool hands out as many connections as it has.
  Then no two threads ever hold the same connection, and the constructor of a transaction throws
  only where it would throw on an idle connection.
\<close>

theorem pool_exclusive:
  assumes "PostgresPool_new connect n = Inr p" and "distinct (pool p)" and "length ls < 2 ^ 64"
    and "use_run W ls (users_init p k) = Some s" and "prompt_run W ls (users_init p k)"
  shows "(\<forall>i < length (pu_threads s). \<forall>j < length (pu_threads s). i \<noteq> j \<longrightarrow>
      use_conn (pu_threads s ! i) \<noteq> None \<longrightarrow> use_conn (pu_threads s ! i) \<noteq> use_conn (pu_threads s ! j)) \<and>
    (\<forall>x \<in> set (pu_thrown s). W False = Some (snd x))"
proof -
  have "pu_calls (users_init p k) + length ls < 2 ^ 64" using assms(3) by (simp add: users_init_def)
  from sharing_inv_run [OF sharing_inv_init [OF assms(1,2)] assms(4) this assms(5)]
  have inv: "sharing_inv W s" .
  have "use_conn (pu_threads s ! i) \<noteq> use_conn (pu_threads s ! j)"
    if "i < length (pu_threads s)" "j < length (pu_threads s)" "i \<noteq> j" "use_conn (pu_threads s ! i) \<noteq> None" for i j
    using sharing_exclusive [OF inv that(1-3)] that(4) by fastforce
  with inv show ?thesis unfolding sharing_inv_def by blast
qed

theorem pool_exclusive_witness:
  "\<exists>p s. PostgresPool_new (\<lambda>i. Inr (i * 10, True)) 2 = Inr p \<and>
     use_run (\<lambda>b. if b then Some (SqlError ''busy'') else None) [UAcquire 0, UAcquire 1, UWork 1, UWork 0, UEnd 0, UEnd 1, UAcquire 1]
       (users_init p 2) = Some s \<and>
     use_conn (pu_threads s ! 1) = Some (0 :: nat) \<and> use_conn (pu_threads s ! 0) \<noteq> Some 0"
proof -
  let ?p = "\<lparr>pool = [0, 10 :: nat], next_conn = 0\<rparr>" and ?W = "\<lambda>b. if b then Some (SqlError ''busy'') else None"
  let ?ls = "[UAcquire 0, UAcquire 1, UWork 1, UWork 0, UEnd 0, UEnd 1, UAcquire 1]"
  have n: "PostgresPool_new (\<lambda>i. Inr (i * 10, True)) 2 = Inr ?p" by code_simp
  have "case use_run ?W ?ls (users_init ?p 2) of None \<Rightarrow> False
      | Some s \<Rightarrow> length (pu_threads s) = 2 \<and> use_conn (pu_threads s ! 1) = Some 0" by code_simp
  then obtain s where s: "use_run ?W ?ls (users_init ?p 2) = Some s" "length (pu_threads s) = 2"
    "use_conn (pu_threads s ! 1) = Some 0" by (auto split: option.splits)
  have "prompt_run ?W ?ls (users_init ?p 2)" by code_simp
  note x = pool_exclusive [OF n _ _ s(1) this, THEN conjunct1, rule_format, of 1 0]
  have "use_conn (pu_threads s ! 0) \<noteq> Some 0" using x s(2,3) by simp
  with n s show ?thesis by blast
qed

text \<open>
  C36. No pool size makes the pool safe. However many connections the pool has, two threads are enough:
  while one is inside a transaction, the other completes calls one after the other until the
  counter has gone round, is handed the first thread's connection, and the constructor of its
  transaction throws.
\<close>

theorem pool_overlap:
  assumes "PostgresPool_new connect n = Inr p" and "distinct (pool p)"
    and "W False = None" and "one_transaction W"
  shows "\<exists>ls s s'. use_run W ls (users_init p 2) = Some s \<and>
    use_conn (pu_threads s ! 0) = Some (pool p ! 0) \<and> use_conn (pu_threads s ! 1) = Some (pool p ! 0) \<and>
    use_exec W (UWork 1) s = Some s' \<and> pu_thrown s' = [(1, the (W True))]"
proof -
  let ?cs = "pool p" and ?n = "length (pool p)"
  let ?s = "\<lparr>pu_pool = \<lparr>pool = ?cs, next_conn = of_nat (Suc ?n)\<rparr>,
     pu_threads = [Works 0 (?cs ! 0), Holds ?n (?cs ! 0)], pu_calls = Suc ?n, pu_thrown = []\<rparr>"
  note p = new_pool [OF assms(1)]
  obtain e where e: "W True = Some e" using assms(4) by (auto simp: one_transaction_def)
  have "p = \<lparr>pool = ?cs, next_conn = of_nat 0\<rparr>" using p by simp
  then have "PostgresPool_acquire p = (?cs ! 0, \<lparr>pool = ?cs, next_conn = of_nat 1\<rparr>)"
    using acquire_nth [of ?cs 0] p by (metis One_nat_def mod_0 zero_le)
  then have "use_run W [UAcquire 0, UWork 0] (users_init p 2) = Some (two_users ?cs 1)"
    using assms(3) by (simp add: users_init_def numeral_2_eq_2)
  moreover have "use_run W (concat (replicate (?n - 1) quick)) (two_users ?cs 1) = Some (two_users ?cs ?n)"
    using quick_rounds [of ?cs W "?n - 1"] assms(2,3) p by (simp del: of_nat_Suc)
  moreover have "use_exec W (UAcquire 1) (two_users ?cs ?n) = Some ?s"
    using acquire_nth [of ?cs ?n] p by (simp del: of_nat_Suc)
  ultimately have run: "use_run W ([UAcquire 0, UWork 0] @ concat (replicate (?n - 1) quick) @ [UAcquire 1]) (users_init p 2) = Some ?s"
    by (simp only: use_run_append option.simps use_run.simps)
  have work: "use_exec W (UWork 1) ?s = Some (?s\<lparr>pu_threads := [Works 0 (?cs ! 0), Unused], pu_thrown := [(1, e)]\<rparr>)"
    using e by simp
  show ?thesis by (intro exI conjI, rule run, simp, simp, rule work, simp add: e)
qed

theorem pool_overlap_witness:
  "\<exists>p ls s. PostgresPool_new (\<lambda>i. Inr (i * 10, True)) 3 = Inr p \<and>
     use_run (\<lambda>b. if b then Some (SqlError ''busy'') else None) ls (users_init p 2) = Some s \<and>
     use_conn (pu_threads s ! 0) = use_conn (pu_threads s ! 1) \<and> use_conn (pu_threads s ! 0) = Some (0 :: nat)"
proof -
  let ?p = "\<lparr>pool = [0, 10, 20 :: nat], next_conn = 0\<rparr>" and ?W = "\<lambda>b. if b then Some (SqlError ''busy'') else None"
  have n: "PostgresPool_new (\<lambda>i. Inr (i * 10, True)) 3 = Inr ?p" by code_simp
  have "one_transaction ?W" by (simp add: one_transaction_def)
  from pool_overlap [OF n _ _ this] n show ?thesis by fastforce
qed

end
