(* ===== verification/Message_Order.thy ===== *)
theory Message_Order
  imports Use_Cases
begin

text \<open>
  The order of a chat's history. The statements of
  \<open>infrastructure/repositories/postgres_message_repository.cpp\<close> stamp a message with \<open>NOW()\<close> and
  list a chat by \<open>ORDER BY created_at DESC LIMIT $2\<close>. Here the message table is a list of rows
  with their stamps, in the order of their commits. The repository lists a chat by falling stamp;
  this is the reverse order of the inserts when their transactions do not overlap and the
  database's clock advances from one transaction to the next.
\<close>

section \<open>Sorting by a key\<close>

text \<open>A list in increasing order of distinct keys, sorted the other way round, is reversed.\<close>

definition increasing :: "('k::linorder \<times> 'a) list \<Rightarrow> bool" where
  "increasing xs \<longleftrightarrow> sorted_wrt (\<lambda>x y. fst x < fst y) xs"

definition newest_first :: "('k::linorder \<times> 'a) list \<Rightarrow> bool" where
  "newest_first xs \<longleftrightarrow> sorted_wrt (\<lambda>x y. fst y \<le> fst x) xs"

lemma increasing_filter: "increasing xs \<Longrightarrow> increasing (filter p xs)"
  unfolding increasing_def by (rule sorted_wrt_filter)

lemma increasing_keys:
  assumes "increasing xs"
  shows "sorted (map fst xs)" and "distinct (map fst xs)"
proof -
  from assms have "sorted_wrt (<) (map fst xs)" by (simp add: increasing_def sorted_wrt_map)
  then show "sorted (map fst xs)" "distinct (map fst xs)" by (simp_all add: strict_sorted_iff)
qed

lemma newest_first_rev:
  assumes "increasing xs" and "mset ys = mset xs" and "newest_first ys"
  shows "ys = rev xs"
proof -
  have sets: "set ys = set xs" using assms(2) by (rule mset_eq_setD)
  have "distinct (map fst ys)"
    using increasing_keys(2) [OF assms(1)] assms(2) by (metis mset_eq_imp_distinct_iff mset_map)
  moreover have "sorted (map fst (rev ys))"
    using assms(3) by (simp add: newest_first_def sorted_wrt_map sorted_wrt_rev flip: rev_map)
  moreover have "inj_on fst (set xs)" using increasing_keys(2) [OF assms(1)] by (simp add: distinct_map)
  ultimately have "rev ys = xs"
    using increasing_keys [OF assms(1)] sets
    by (intro map_sorted_distinct_set_unique [of fst]) (simp_all add: distinct_map)
  then show ?thesis by (metis rev_rev_ident)
qed

section \<open>What the statements mean\<close>

text \<open>
  \<open>rows\<close> is the message table in the order of the commits, each row with its \<open>created_at\<close>. An
  insert appends a row with some stamp. The query sorts the rows of the chat by falling
  stamp, rows with equal stamps in any order, and returns the first \<open>$2\<close> of them.
\<close>

type_synonym stamped_table = "(time_point \<times> string list) list"

definition postgres_order :: "('c, 'd, 'r) pg_lib \<Rightarrow> ('d \<Rightarrow> stamped_table) \<Rightarrow> bool" where
  "postgres_order P rows \<longleftrightarrow>
     pg_transactions P rows \<and>
     (\<forall>c row d rs v. pg_exec_params P c insert_message_sql row d = Inr (rs, v) \<longrightarrow>
        (\<exists>t. rows v = rows d @ [(t, row)])) \<and>
     (\<forall>c chat n d rs v. pg_exec_params P c select_messages_sql [chat, to_string n] d = Inr (rs, v) \<longrightarrow>
        (\<exists>xs. mset xs = mset (filter (\<lambda>x. snd x ! 1 = chat) (rows d)) \<and> newest_first xs \<and>
           list_all2 (\<lambda>r x. row_is P [''id'', ''chat_id'', ''sender_id'', ''content''] r (snd x)) rs (take n xs)))"

text \<open>
  \<open>NOW()\<close> is the time at which its transaction started, \<open>clock v\<close> for the view \<open>v\<close> a transaction
  works on, and the clock advances: a transaction starts later than every transaction that has
  committed before it starts did. (A transaction that starts while others are open may still
  commit before them; nothing is assumed about their order.)
\<close>

definition transaction_time ::
  "('c, 'd, 'r) pg_lib \<Rightarrow> ('d \<Rightarrow> stamped_table) \<Rightarrow> ('d \<Rightarrow> time_point) \<Rightarrow> bool" where
  "transaction_time P rows clock \<longleftrightarrow>
     (\<forall>c d v. pg_work P c d = Inr v \<longrightarrow> (\<forall>x \<in> set (rows d). fst x < clock v)) \<and>
     (\<forall>c row v rs v'. pg_exec_params P c insert_message_sql row v = Inr (rs, v') \<longrightarrow>
        rows v' = rows v @ [(clock v, row)])"

abbreviation table_of :: "('d \<Rightarrow> stamped_table) \<Rightarrow> 'd \<Rightarrow> pg_table" where
  "table_of rows d \<equiv> map snd (rows d)"

definition ordered_inv ::
  "('c, 'd, 'r) pg_lib \<Rightarrow> uuid_lib \<Rightarrow> ('d \<Rightarrow> stamped_table) \<Rightarrow> ('d \<Rightarrow> time_point) \<Rightarrow> ('c, 'd) pg_state \<Rightarrow> bool" where
  "ordered_inv P U rows clock s \<longleftrightarrow>
     boost_uuid U \<and> postgres_order P rows \<and> transaction_time P rows clock \<and> increasing (rows (pg_db s)) \<and>
     (\<forall>row \<in> set (table_of rows (pg_db s)). message_row U row)"

text \<open>With the stamps left out, this is the contract of the messages table.\<close>

lemma filter_table: "filter p (map snd xs) = map snd (filter (\<lambda>x. p (snd x)) xs)"
  by (simp add: filter_map comp_def)

lemma order_transactions: "pg_transactions P rows \<Longrightarrow> pg_transactions P (table_of rows)"
  unfolding pg_transactions_def by (metis insert_iff singletonD)

lemma order_messages:
  assumes "postgres_order P rows"
  shows "postgres_messages P (table_of rows)"
  unfolding postgres_messages_def
proof (intro conjI allI impI)
  show "pg_inserts P insert_message_sql (table_of rows)"
    using assms order_transactions unfolding postgres_order_def pg_inserts_def by fastforce
next
  fix c chat n d rs v
  assume "pg_exec_params P c select_messages_sql [chat, to_string n] d = Inr (rs, v)"
  with assms obtain xs where xs: "mset xs = mset (filter (\<lambda>x. snd x ! 1 = chat) (rows d))"
    and l: "list_all2 (\<lambda>r x. row_is P [''id'', ''chat_id'', ''sender_id'', ''content''] r (snd x)) rs (take n xs)"
    unfolding postgres_order_def by metis
  have m: "mset (map snd xs) = mset (filter (\<lambda>row. row ! 1 = chat) (table_of rows d))"
    by (simp only: filter_table mset_map xs)
  then show "length rs = min n (length (filter (\<lambda>row. row ! 1 = chat) (table_of rows d)))"
    using list_all2_lengthD [OF l] by (metis length_map length_take min.commute size_mset)
  have "mset (map snd (take n xs)) \<subseteq># mset (map snd xs)"
    by (metis append_take_drop_id map_append mset_append mset_subset_eq_add_left)
  with l m show "\<exists>ys. mset ys \<subseteq># mset (filter (\<lambda>row. row ! 1 = chat) (table_of rows d)) \<and>
      list_all2 (row_is P [''id'', ''chat_id'', ''sender_id'', ''content'']) rs ys"
    by (intro exI [of _ "map snd (take n xs)"]) (simp add: list_all2_map2)
qed

lemma ordered_messages: "ordered_inv P U rows clock s \<Longrightarrow> messages_inv P U (table_of rows) s"
  by (simp add: ordered_inv_def messages_inv_def order_messages)

section \<open>The repository lists the newest first\<close>

lemma history_sorted:
  assumes P: "postgres_order P rows" and inv: "messages_inv P U (table_of rows) s"
    and g: "PostgresMessageRepository_getByChat P U c n now s = (Inr ms, s')"
  obtains xs where "mset xs = mset (filter (\<lambda>x. snd x ! 1 = uuid_to_string U c) (rows (pg_db s)))"
    "newest_first xs" "map stored ms = map (row_stored U) (map snd (take (unat n) xs))"
proof -
  from inv have U: "boost_uuid U" and ok: "\<forall>row \<in> set (table_of rows (pg_db s)). message_row U row"
    by (auto simp: messages_inv_def)
  from P have "pg_transactions P rows" by (simp add: postgres_order_def)
  from history_select [OF this g] obtain k v w rs where
    e: "pg_exec_params P k select_messages_sql [uuid_to_string U c, to_string (unat n)] v = Inr (rs, w)"
    and v: "rows v = rows (pg_db s)" and ms: "rows_messages P U now rs = Inr ms" .
  from P e v obtain xs where xs: "mset xs = mset (filter (\<lambda>x. snd x ! 1 = uuid_to_string U c) (rows (pg_db s)))"
    "newest_first xs"
    and l: "list_all2 (\<lambda>r x. row_is P [''id'', ''chat_id'', ''sender_id'', ''content''] r (snd x)) rs (take (unat n) xs)"
    unfolding postgres_order_def by metis
  have "set xs \<subseteq> set (rows (pg_db s))" using mset_eq_setD [OF xs(1)] by auto
  then have "\<forall>x \<in> set (map snd (take (unat n) xs)). message_row U x" using ok by (auto dest!: in_set_takeD)
  from rows_messages_stored [OF U this ms] l have "map stored ms = map (row_stored U) (map snd (take (unat n) xs))"
    by (simp add: list_all2_map2)
  with xs that show thesis by blast
qed

lemma history_newest:
  assumes inv: "ordered_inv P U rows clock s"
    and g: "PostgresMessageRepository_getByChat P U c n now s = (Inr ms, s')"
  shows "map stored ms = take (unat n) (rev (filter (in_chat c) (pg_messages U (table_of rows) s)))"
proof -
  from inv have U: "boost_uuid U" and P: "postgres_order P rows" and up: "increasing (rows (pg_db s))"
    and ok: "\<forall>row \<in> set (table_of rows (pg_db s)). message_row U row" by (auto simp: ordered_inv_def)
  let ?chat = "filter (\<lambda>x. snd x ! 1 = uuid_to_string U c) (rows (pg_db s))"
  from history_sorted [OF P ordered_messages [OF inv] g] obtain xs where xs: "mset xs = mset ?chat" "newest_first xs"
    and ms: "map stored ms = map (row_stored U) (map snd (take (unat n) xs))" .
  have "xs = rev ?chat" by (rule newest_first_rev [OF increasing_filter [OF up] xs])
  with ms show ?thesis
    by (simp only: pg_messages_def filter_rows_chat [OF U ok] filter_table take_map rev_map)
qed

lemma insert_ordered:
  assumes "ordered_inv P U rows clock s" and "PostgresMessageRepository_create P U m s = (r, s')"
  shows "ordered_inv P U rows clock s'"
proof -
  have "messages_inv P U (table_of rows) s'"
    using pgm.create_adds [OF ordered_messages [OF assms(1)] assms(2)] by blast
  moreover have "increasing (rows (pg_db s'))"
  proof -
    from assms(1) have t: "pg_transactions P rows" and c: "transaction_time P rows clock"
      and up: "increasing (rows (pg_db s))" by (auto simp: ordered_inv_def postgres_order_def)
    from pg_insert_view [OF t assms(2) [unfolded PostgresMessageRepository_create_def]] show ?thesis
    proof (elim disjE exE conjE)
      fix k d rs v
      assume "pg_work P k (pg_db s) = Inr d" "rows d = rows (pg_db s)" "rows (pg_db s') = rows v"
        "pg_exec_params P k insert_message_sql [uuid_to_string U (msg_id m), uuid_to_string U (msg_chatId m),
           uuid_to_string U (msg_senderId m), msg_content m] d = Inr (rs, v)"
      with c up show ?thesis unfolding transaction_time_def increasing_def by (fastforce simp: sorted_wrt_append)
    qed (use up in simp)
  qed
  ultimately show ?thesis using assms(1) by (simp add: ordered_inv_def messages_inv_def)
qed

interpretation pgo: ordered_message_store
  "PostgresMessageRepository_create P U" "PostgresMessageRepository_getByChat P U"
  "pg_messages U (table_of rows)" "ordered_inv P U rows clock"
  for P U rows clock
proof (unfold_locales, goal_cases)
  case (1 d m r d')
  then show ?case
    using insert_ordered [OF 1] pgm.create_adds [OF ordered_messages [OF 1(1)] 1(2)] by blast
next
  case (2 d c n now res d')
  have "pg_db d' = pg_db d"
    using 2(2) pg_select_db by (fastforce simp: PostgresMessageRepository_getByChat_def split: prod.splits)
  then show ?case
    using 2(1) pgm.history [OF ordered_messages [OF 2(1)] 2(2)] by (simp add: ordered_inv_def)
next
  case (3 m d b d')
  then show ?case by (rule pgl.create_reports)
next
  case (4 d c n now ms d')
  then show ?case by (rule history_newest)
qed

section \<open>The database in memory\<close>

text \<open>Its rows are stamped with their numbers.\<close>

definition mem_rows :: "mem_db \<Rightarrow> stamped_table" where
  "mem_rows d = zip (map int [0..<length (mem_messages d)]) (mem_messages d)"

lemma mem_rows_table [simp]: "table_of mem_rows d = mem_messages d"
  by (simp add: mem_rows_def)

lemma mem_rows_increasing: "increasing (mem_rows d)"
  by (simp add: increasing_def mem_rows_def sorted_wrt_iff_nth_less)

lemma memory_pg_order: "postgres_order memory_pg mem_rows"
  unfolding postgres_order_def
proof (intro conjI allI impI)
  show "pg_transactions memory_pg mem_rows" by (simp add: pg_transactions_def memory_pg_def)
next
  fix c row d rs v
  assume "pg_exec_params memory_pg c insert_message_sql row d = Inr (rs, v)"
  with memory_pg_inserts(1) have "mem_messages v = mem_messages d @ [row]" unfolding pg_inserts_def by blast
  then show "\<exists>t. mem_rows v = mem_rows d @ [(t, row)]" by (simp add: mem_rows_def)
next
  fix c chat n d rs v
  let ?cols = "[''id'', ''chat_id'', ''sender_id'', ''content'']" and ?chat = "filter (\<lambda>x. snd x ! 1 = chat) (mem_rows d)"
  assume "pg_exec_params memory_pg c select_messages_sql [chat, to_string n] d = Inr (rs, v)"
  then have "rs = map (zip ?cols) (take n (rev (filter (\<lambda>row. row ! 1 = chat) (table_of mem_rows d))))"
    using sql_distinct by (cases d) (auto simp: memory_pg_def mem_exec_def to_string_value)
  then have rs: "rs = map (\<lambda>x. zip ?cols (snd x)) (take n (rev ?chat))"
    by (simp only: filter_table rev_map take_map map_map comp_def)
  have "row_is memory_pg ?cols (zip ?cols (snd x)) (snd x)" if "x \<in> set (take n (rev ?chat))" for x
  proof -
    have "snd x \<in> set (mem_messages d)" using that by (auto simp flip: mem_rows_table dest!: in_set_takeD)
    then obtain a b e f where "snd x = [a, b, e, f]" by (auto simp: mem_messages_def length_four)
    then show ?thesis by (simp add: row_is_def memory_pg_def)
  qed
  then have "list_all2 (\<lambda>r x. row_is memory_pg ?cols r (snd x)) rs (take n (rev ?chat))"
    unfolding rs by (simp add: list_all2_map1 list.rel_refl_strong)
  moreover have "newest_first (rev ?chat)"
    using increasing_filter [OF mem_rows_increasing, of "\<lambda>x. snd x ! 1 = chat" d]
    by (auto simp: newest_first_def increasing_def sorted_wrt_rev elim: sorted_wrt_mono_rel [rotated])
  ultimately show "\<exists>xs. mset xs = mset ?chat \<and> newest_first xs \<and>
      list_all2 (\<lambda>r x. row_is memory_pg ?cols r (snd x)) rs (take n xs)"
    by (intro exI [of _ "rev ?chat"]) simp
qed

definition mem_clock :: "mem_db \<Rightarrow> time_point" where
  "mem_clock d = int (length (mem_messages d))"

lemma memory_time: "transaction_time memory_pg mem_rows mem_clock"
  unfolding transaction_time_def
proof (intro conjI allI impI ballI)
  fix c d v x
  assume "pg_work memory_pg c d = Inr v" "x \<in> set (mem_rows d)"
  then show "fst x < mem_clock v"
    by (cases x) (auto simp: memory_pg_def mem_rows_def mem_clock_def dest!: set_zip_leftD)
next
  fix c row v rs v'
  assume "pg_exec_params memory_pg c insert_message_sql row v = Inr (rs, v')"
  with memory_pg_inserts(1) have "mem_messages v' = mem_messages v @ [row]" unfolding pg_inserts_def by blast
  then show "mem_rows v' = mem_rows v @ [(mem_clock v, row)]" by (simp add: mem_rows_def mem_clock_def)
qed

end
