(* ===== verification/Transactions.thy ===== *)
theory Transactions
  imports Message_Order "HOL-Library.Sublist"
begin

text \<open>
  Repository methods that run at the same time. In the other theories a call of a repository is one
  step; in the program it acquires a connection, opens a transaction, executes a statement and, when
  it writes, commits, and other threads run in between. Here a call is a machine with these steps.
  Any interleaving of any number of calls leaves the table as some sequence of the calls would, and
  every query is answered from a state that such a sequence goes through.
\<close>

section \<open>A call in steps\<close>

text \<open>
  \<open>THas\<close>: the connection is acquired; \<open>TOpen\<close>: the \<open>pqxx::work\<close> is constructed; \<open>TExec\<close>: the
  statement was executed, with its rows and the transaction's view.
\<close>

datatype ('c, 'd, 'r) tx_pc = TCall | THas 'c | TOpen 'c | TExec 'c "'r list" 'd | TDone "'r list result"

record ('c, 'd, 'r) tx_call =
  tx_sql :: string
  tx_params :: "string list"
  tx_commits :: bool
  tx_pc :: "('c, 'd, 'r) tx_pc"

fun pc_open_on :: "'c \<Rightarrow> ('c, 'd, 'r) tx_pc \<Rightarrow> bool" where
  "pc_open_on c (TOpen c') \<longleftrightarrow> c = c'"
| "pc_open_on c (TExec c' rs v) \<longleftrightarrow> c = c'"
| "pc_open_on c _ \<longleftrightarrow> False"

text \<open>
  One step. \<open>busy\<close> says on which connections other calls have a transaction, where the constructor
  of \<open>pqxx::work\<close> throws \<open>in_use\<close>. Under the isolation level of these transactions a statement sees
  what is committed when it is executed.
\<close>

definition tx_step ::
  "('c, 'd, 'r) pg_lib \<Rightarrow> exn \<Rightarrow> ('c \<Rightarrow> bool) \<Rightarrow> ('c, 'd, 'r) tx_call \<Rightarrow> ('c, 'd) pg_state
     \<Rightarrow> ('c, 'd, 'r) tx_pc \<times> ('c, 'd) pg_state" where
  "tx_step P in_use busy call s =
     (case tx_pc call of
        TCall \<Rightarrow> (case PostgresPool_acquire (pg_pool s) of (connection, pool') \<Rightarrow> (THas connection, s\<lparr>pg_pool := pool'\<rparr>))
      | THas connection \<Rightarrow>
          if busy connection then (TDone (Inl in_use), s)
          else (case pg_work P connection (pg_db s) of Inl e \<Rightarrow> (TDone (Inl e), s) | Inr _ \<Rightarrow> (TOpen connection, s))
      | TOpen connection \<Rightarrow>
          (case rbind (pg_work P connection (pg_db s)) (pg_exec_params P connection (tx_sql call) (tx_params call)) of
             Inl e \<Rightarrow> (TDone (Inl e), s)
           | Inr (rs, view) \<Rightarrow> (TExec connection rs view, s))
      | TExec connection rs view \<Rightarrow>
          if tx_commits call
          then (case pg_commit P connection (pg_db s) view of
                  (Inl e, d') \<Rightarrow> (TDone (Inl e), s\<lparr>pg_db := d'\<rparr>)
                | (Inr _, d') \<Rightarrow> (TDone (Inr rs), s\<lparr>pg_db := d'\<rparr>))
          else (TDone (Inr rs), s)
      | TDone r \<Rightarrow> (TDone r, s))"

text \<open>A schedule names, step by step, the call that moves.\<close>

fun tx_run ::
  "('c, 'd, 'r) pg_lib \<Rightarrow> exn \<Rightarrow> nat list \<Rightarrow> ('c, 'd, 'r) tx_call list \<Rightarrow> ('c, 'd) pg_state
     \<Rightarrow> ('c, 'd, 'r) tx_call list \<times> ('c, 'd) pg_state" where
  "tx_run P in_use [] calls s = (calls, s)"
| "tx_run P in_use (i # is) calls s =
     (if i < length calls
      then case tx_step P in_use (\<lambda>c. list_ex (\<lambda>call. pc_open_on c (tx_pc call)) calls) (calls ! i) s of
             (p, s') \<Rightarrow> tx_run P in_use is (calls[i := (calls ! i)\<lparr>tx_pc := p\<rparr>]) s'
      else tx_run P in_use is calls s)"

definition tx_insert :: "string \<Rightarrow> string list \<Rightarrow> ('c, 'd, 'r) tx_call" where
  "tx_insert sql row = \<lparr>tx_sql = sql, tx_params = row, tx_commits = True, tx_pc = TCall\<rparr>"

definition tx_query :: "string \<Rightarrow> string list \<Rightarrow> ('c, 'd, 'r) tx_call" where
  "tx_query sql params = \<lparr>tx_sql = sql, tx_params = params, tx_commits = False, tx_pc = TCall\<rparr>"

text \<open>Without anyone in between, the steps are the two shapes of the repositories' methods.\<close>

lemma tx_insert_alone:
  "\<exists>r. tx_run P in_use [0, 0, 0, 0] [tx_insert sql row] s =
      ([(tx_insert sql row)\<lparr>tx_pc := TDone r\<rparr>], snd (pg_insert P sql row s)) \<and>
    map_sum id (\<lambda>_. True) r = fst (pg_insert P sql row s)"
  by (auto simp: tx_step_def tx_insert_def pg_insert_def Let_def split: prod.splits sum.splits)

lemma tx_query_alone:
  "tx_run P in_use [0, 0, 0, 0] [tx_query sql params] s =
     (case pg_select P sql params s of (r, s') \<Rightarrow> ([(tx_query sql params)\<lparr>tx_pc := TDone r\<rparr>], s'))"
  by (auto simp: tx_step_def tx_query_def pg_select_def Let_def split: prod.splits sum.splits)

section \<open>What the database promises\<close>

text \<open>
  \<open>added\<close> has the rows a transaction's view holds beyond what was committed when its statement was
  executed. A commit adds these to the table as it is by then; when it reports an error it
  may have done so or not.
\<close>

definition pg_concurrent ::
  "('c, 'd, 'r) pg_lib \<Rightarrow> string \<Rightarrow> ('d \<Rightarrow> pg_table) \<Rightarrow> ('d \<Rightarrow> pg_table) \<Rightarrow> bool" where
  "pg_concurrent P sql tbl added \<longleftrightarrow>
     (\<forall>c d v. pg_work P c d = Inr v \<longrightarrow> tbl v = tbl d) \<and>
     (\<forall>c row d rs v. pg_exec_params P c sql row d = Inr (rs, v) \<longrightarrow> added v = [row]) \<and>
     (\<forall>c d v r d'. pg_commit P c d v = (r, d') \<longrightarrow>
        tbl d' \<in> {tbl d, tbl d @ added v} \<and> (r = Inr () \<longrightarrow> tbl d' = tbl d @ added v))"

section \<open>The invariant\<close>

text \<open>A query's rows are those of a table between the one at the start and the present one.\<close>

definition answered ::
  "('c, 'd, 'r) pg_lib \<Rightarrow> ('d \<Rightarrow> pg_table) \<Rightarrow> pg_table \<Rightarrow> pg_table \<Rightarrow> ('c, 'd, 'r) tx_call \<Rightarrow> 'r list \<Rightarrow> bool" where
  "answered P tbl t0 t call rs \<longleftrightarrow>
     (\<exists>c d v. pg_exec_params P c (tx_sql call) (tx_params call) d = Inr (rs, v) \<and> prefix t0 (tbl d) \<and> prefix (tbl d) t)"

definition call_ok ::
  "('c, 'd, 'r) pg_lib \<Rightarrow> string \<Rightarrow> ('d \<Rightarrow> pg_table) \<Rightarrow> ('d \<Rightarrow> pg_table) \<Rightarrow> pg_table \<Rightarrow> pg_table \<Rightarrow> ('c, 'd, 'r) tx_call \<Rightarrow> bool" where
  "call_ok P sql tbl added t0 t call \<longleftrightarrow>
     (tx_commits call \<longrightarrow> tx_sql call = sql) \<and>
     (case tx_pc call of
        TExec c rs v \<Rightarrow> if tx_commits call then added v = [tx_params call] else answered P tbl t0 t call rs
      | TDone (Inr rs) \<Rightarrow> tx_commits call \<or> answered P tbl t0 t call rs
      | _ \<Rightarrow> True)"

definition finished :: "('c, 'd, 'r) tx_call \<Rightarrow> bool" where
  "finished call \<longleftrightarrow> (\<exists>r. tx_pc call = TDone r)"

definition succeeded :: "('c, 'd, 'r) tx_call \<Rightarrow> bool" where
  "succeeded call \<longleftrightarrow> (\<exists>rs. tx_pc call = TDone (Inr rs))"

text \<open>\<open>order\<close> numbers the writing calls whose rows are in the table, in the order of their commits.\<close>

definition committed :: "('c, 'd, 'r) tx_call list \<Rightarrow> nat list \<Rightarrow> bool" where
  "committed calls order \<longleftrightarrow>
     distinct order \<and>
     (\<forall>i \<in> set order. i < length calls \<and> tx_commits (calls ! i) \<and> finished (calls ! i)) \<and>
     (\<forall>i < length calls. tx_commits (calls ! i) \<longrightarrow> succeeded (calls ! i) \<longrightarrow> i \<in> set order)"

lemma answered_pc [simp]: "answered P tbl t0 t (call\<lparr>tx_pc := p\<rparr>) rs = answered P tbl t0 t call rs"
  by (simp add: answered_def)

lemma answered_mono: "answered P tbl t0 t call rs \<Longrightarrow> answered P tbl t0 (t @ xs) call rs"
  unfolding answered_def using prefix_order.trans by (metis prefixI)

lemma call_ok_mono: "call_ok P sql tbl added t0 t call \<Longrightarrow> call_ok P sql tbl added t0 (t @ xs) call"
  by (auto simp: call_ok_def answered_mono split: tx_pc.splits sum.splits)

text \<open>A step commits one row of a call that had not finished, or it leaves the table alone.\<close>

lemma tx_step_cases:
  assumes P: "pg_concurrent P sql tbl added" and s: "tx_step P in_use busy call s = (p, s')"
    and ok: "call_ok P sql tbl added t0 (tbl (pg_db s)) call" and t0: "prefix t0 (tbl (pg_db s))"
  shows "call_ok P sql tbl added t0 (tbl (pg_db s')) (call\<lparr>tx_pc := p\<rparr>) \<and>
    (tbl (pg_db s') = tbl (pg_db s) \<and>
       (finished call \<longrightarrow> p = tx_pc call) \<and> (tx_commits call \<longrightarrow> \<not> finished call \<longrightarrow> \<not> (\<exists>rs. p = TDone (Inr rs))) \<or>
     tbl (pg_db s') = tbl (pg_db s) @ [tx_params call] \<and> tx_commits call \<and> \<not> finished call \<and> (\<exists>r. p = TDone r))"
proof (cases "tx_pc call")
  case (TOpen c)
  then show ?thesis
  proof (cases "rbind (pg_work P c (pg_db s)) (pg_exec_params P c (tx_sql call) (tx_params call))")
    case (Inl e)
    with s ok TOpen show ?thesis by (auto simp: tx_step_def call_ok_def finished_def)
  next
    case (Inr x)
    then obtain v0 rs v where v0: "pg_work P c (pg_db s) = Inr v0" and v: "x = (rs, v)"
      "pg_exec_params P c (tx_sql call) (tx_params call) v0 = Inr (rs, v)"
      by (cases x) (auto simp: rbind_eq_Inr)
    with s TOpen Inr have p: "p = TExec c rs v" "s' = s" by (auto simp: tx_step_def)
    have "tbl v0 = tbl (pg_db s)" using P v0 by (auto simp: pg_concurrent_def)
    then have "answered P tbl t0 (tbl (pg_db s)) call rs" using v(2) t0 unfolding answered_def by fastforce
    moreover have "added v = [tx_params call]" if "tx_sql call = sql"
      using P v(2) that unfolding pg_concurrent_def by blast
    ultimately show ?thesis using ok p TOpen by (auto simp: call_ok_def finished_def)
  qed
next
  case (TExec c rs v)
  show ?thesis
  proof (cases "tx_commits call")
    case True
    obtain cr d' where k: "pg_commit P c (pg_db s) v = (cr, d')" by fastforce
    have "added v = [tx_params call]" using ok TExec True by (simp add: call_ok_def)
    with P k have "tbl d' \<in> {tbl (pg_db s), tbl (pg_db s) @ [tx_params call]}"
      "cr = Inr () \<longrightarrow> tbl d' = tbl (pg_db s) @ [tx_params call]"
      unfolding pg_concurrent_def by metis+
    with s TExec True k ok show ?thesis
      by (cases cr) (auto simp: tx_step_def call_ok_def finished_def)
  next
    case False
    with s TExec ok show ?thesis by (auto simp: tx_step_def call_ok_def finished_def)
  qed
qed (use s ok in \<open>auto simp: tx_step_def call_ok_def finished_def split: if_splits sum.splits prod.splits\<close>)

definition serialised ::
  "('c, 'd, 'r) pg_lib \<Rightarrow> string \<Rightarrow> ('d \<Rightarrow> pg_table) \<Rightarrow> ('d \<Rightarrow> pg_table) \<Rightarrow> pg_table
     \<Rightarrow> ('c, 'd, 'r) tx_call list \<Rightarrow> ('c, 'd) pg_state \<Rightarrow> bool" where
  "serialised P sql tbl added t0 calls s \<longleftrightarrow>
     (\<forall>call \<in> set calls. call_ok P sql tbl added t0 (tbl (pg_db s)) call) \<and>
     (\<exists>order. committed calls order \<and> tbl (pg_db s) = t0 @ map (\<lambda>i. tx_params (calls ! i)) order)"

text \<open>The calls after the \<open>i\<close>-th has moved to \<open>p\<close>.\<close>

abbreviation moved :: "nat \<Rightarrow> ('c, 'd, 'r) tx_pc \<Rightarrow> ('c, 'd, 'r) tx_call list \<Rightarrow> ('c, 'd, 'r) tx_call list" where
  "moved i p calls \<equiv> calls[i := (calls ! i)\<lparr>tx_pc := p\<rparr>]"

lemma moved_nth:
  assumes "i < length calls"
  shows "tx_params (moved i p calls ! j) = tx_params (calls ! j)" "tx_commits (moved i p calls ! j) = tx_commits (calls ! j)"
    "tx_pc (moved i p calls ! j) = (if j = i then p else tx_pc (calls ! j))"
  using assms by (simp_all add: nth_list_update)

lemma committed_same:
  assumes "committed calls order" and i: "i < length calls"
    and "finished (calls ! i) \<longrightarrow> p = tx_pc (calls ! i)"
    and "tx_commits (calls ! i) \<longrightarrow> \<not> finished (calls ! i) \<longrightarrow> \<not> (\<exists>rs. p = TDone (Inr rs))"
  shows "committed (moved i p calls) order"
proof -
  have "finished (moved i p calls ! j)" if "finished (calls ! j)" for j
    using that assms(3) by (auto simp: finished_def moved_nth [OF i])
  moreover have "succeeded (calls ! j)" if "succeeded (moved i p calls ! j)" "tx_commits (calls ! j)" for j
    using that assms(3,4) by (cases "j = i") (auto simp: succeeded_def finished_def moved_nth [OF i])
  ultimately show ?thesis using assms(1) by (simp add: committed_def moved_nth [OF i])
qed

lemma committed_add:
  assumes c: "committed calls order" and i: "i < length calls" and "tx_commits (calls ! i)" and "\<not> finished (calls ! i)"
  shows "committed (moved i (TDone r) calls) (order @ [i])"
  unfolding committed_def
proof (intro conjI ballI allI impI)
  show "distinct (order @ [i])" using c assms(4) by (auto simp: committed_def)
next
  fix j assume j: "j \<in> set (order @ [i])"
  then show "j < length (moved i (TDone r) calls)" "tx_commits (moved i (TDone r) calls ! j)"
    using c i assms(3) by (auto simp: committed_def moved_nth)
  from j show "finished (moved i (TDone r) calls ! j)"
    using c by (auto simp: committed_def finished_def moved_nth [OF i])
next
  fix j assume "j < length (moved i (TDone r) calls)" "tx_commits (moved i (TDone r) calls ! j)"
    "succeeded (moved i (TDone r) calls ! j)"
  then show "j \<in> set (order @ [i])"
    using c by (cases "j = i") (simp_all add: committed_def succeeded_def moved_nth [OF i])
qed

lemma serialised_step:
  assumes P: "pg_concurrent P sql tbl added" and inv: "serialised P sql tbl added t0 calls s" and i: "i < length calls"
    and s: "tx_step P in_use busy (calls ! i) s = (p, s')"
  shows "serialised P sql tbl added t0 (calls[i := (calls ! i)\<lparr>tx_pc := p\<rparr>]) s'"
proof -
  let ?calls = "calls[i := (calls ! i)\<lparr>tx_pc := p\<rparr>]" and ?t = "tbl (pg_db s)"
  from inv obtain order where all: "\<forall>call \<in> set calls. call_ok P sql tbl added t0 ?t call"
    and order: "committed calls order" "?t = t0 @ map (\<lambda>i. tx_params (calls ! i)) order"
    by (auto simp: serialised_def)
  have "call_ok P sql tbl added t0 ?t (calls ! i)" using all i by simp
  note c = tx_step_cases [OF P s this prefixI [OF order(2)]]
  have "\<exists>xs. tbl (pg_db s') = ?t @ xs" using c by auto
  then have "call_ok P sql tbl added t0 (tbl (pg_db s')) call" if "call \<in> set ?calls" for call
    using that c all call_ok_mono i set_update_subset_insert [of calls i] by fastforce
  moreover have "\<exists>order'. committed ?calls order' \<and> tbl (pg_db s') = t0 @ map (\<lambda>j. tx_params (?calls ! j)) order'"
    using c
  proof (elim conjE disjE exE)
    fix r assume "tbl (pg_db s') = ?t @ [tx_params (calls ! i)]" "tx_commits (calls ! i)" "\<not> finished (calls ! i)" "p = TDone r"
    then show ?thesis
      using committed_add [OF order(1) i, of r] order(2) by (intro exI [of _ "order @ [i]"]) (simp add: moved_nth [OF i])
  next
    assume "tbl (pg_db s') = ?t" "finished (calls ! i) \<longrightarrow> p = tx_pc (calls ! i)"
      "tx_commits (calls ! i) \<longrightarrow> \<not> finished (calls ! i) \<longrightarrow> \<not> (\<exists>rs. p = TDone (Inr rs))"
    then show ?thesis
      using committed_same [OF order(1) i, of p] order(2) by (intro exI [of _ order]) (simp add: moved_nth [OF i])
  qed
  ultimately show ?thesis by (auto simp: serialised_def)
qed

lemma serialised_run:
  assumes "pg_concurrent P sql tbl added" and "serialised P sql tbl added t0 calls s"
    and "tx_run P in_use is calls s = (calls', s')"
  shows "serialised P sql tbl added t0 calls' s'"
  using assms(2,3)
proof (induction "is" arbitrary: calls s)
  case (Cons i "is")
  show ?case
  proof (cases "i < length calls")
    case True
    obtain p s1 where s: "tx_step P in_use (\<lambda>c. list_ex (\<lambda>call. pc_open_on c (tx_pc call)) calls) (calls ! i) s = (p, s1)"
      by fastforce
    with Cons.prems(2) True have "tx_run P in_use is (moved i p calls) s1 = (calls', s')" by simp
    with Cons.IH [OF serialised_step [OF assms(1) Cons.prems(1) True s]] show ?thesis .
  next
    case False
    with Cons show ?thesis by simp
  qed
qed simp

lemma serialised_start:
  assumes "\<forall>call \<in> set calls. tx_pc call = TCall \<and> (tx_commits call \<longrightarrow> tx_sql call = sql)"
  shows "serialised P sql tbl added (tbl (pg_db s)) calls s"
proof -
  have "committed calls []" using assms by (auto simp: committed_def succeeded_def)
  moreover have "\<forall>call \<in> set calls. call_ok P sql tbl added (tbl (pg_db s)) (tbl (pg_db s)) call"
    using assms by (simp add: call_ok_def)
  ultimately show ?thesis by (auto simp: serialised_def)
qed

lemma tx_run_frame:
  assumes "tx_run P in_use is calls s = (calls', s')"
  shows "length calls' = length calls \<and> (\<forall>i. tx_sql (calls' ! i) = tx_sql (calls ! i) \<and>
    tx_params (calls' ! i) = tx_params (calls ! i) \<and> tx_commits (calls' ! i) = tx_commits (calls ! i))"
  using assms
proof (induction "is" arbitrary: calls s)
  case (Cons i "is")
  show ?case
  proof (cases "i < length calls")
    case True
    obtain p s1 where s: "tx_step P in_use (\<lambda>c. list_ex (\<lambda>call. pc_open_on c (tx_pc call)) calls) (calls ! i) s = (p, s1)"
      by fastforce
    with Cons.prems True have "tx_run P in_use is (moved i p calls) s1 = (calls', s')" by simp
    from Cons.IH [OF this] True show ?thesis by (simp add: nth_list_update)
  next
    case False
    with Cons show ?thesis by simp
  qed
qed simp

text \<open>A prefix of the table beyond the start is the part the first of the commits account for.\<close>

lemma prefix_commits:
  assumes "prefix t0 t" and "prefix t (t0 @ map f order)"
  shows "\<exists>k. t = t0 @ map f (take k order)"
proof -
  from assms(1) obtain xs where t: "t = t0 @ xs" by (auto simp: prefix_def)
  with assms(2) have "prefix xs (map f order)" by simp
  then have "xs = map f (take (length xs) order)" by (metis append_eq_conv_conj prefix_def take_map)
  with t show ?thesis by blast
qed

section \<open>A database for concurrent transactions\<close>

text \<open>One table of rows, and in a view the rows not yet committed. A query lists the whole table.\<close>

definition cell_pg :: "(nat, pg_table \<times> pg_table, string list) pg_lib" where
  "cell_pg =
     \<lparr>pg_work = (\<lambda>c d. Inr (fst d, [])),
      pg_exec_params = (\<lambda>c sql row v. if sql = insert_message_sql then Inr ([], fst v, [row]) else Inr (fst v, v)),
      pg_commit = (\<lambda>c d v. (Inr (), fst d @ snd v, [])),
      pg_as_string = (\<lambda>r k. Inl (SqlError k)),
      pg_as_int32 = (\<lambda>r k. Inl (SqlError k))\<rparr>"

lemma cell_pg_concurrent: "pg_concurrent cell_pg insert_message_sql fst snd"
  by (simp add: pg_concurrent_def cell_pg_def)

section \<open>Properties\<close>

text \<open>
  C14. Repository calls that overlap behave as if they ran one after another. Take any number of
  calls, writing ones that insert with the statement \<open>sql\<close> and reading ones, and any interleaving of
  their steps: acquiring a connection, opening the transaction, executing the statement and
  committing, with connections that the pool hands out twice. Then the table is the one at the
  start followed by the rows of some of the writing calls, each once, in an order that all
  reads agree with: every writing call that returned is among them and only calls that have
  ended are, and every query that returned was answered from the table as the first of
  these calls had left it.
\<close>

theorem transactions_serialise:
  assumes "pg_concurrent P sql tbl added"
    and "\<forall>call \<in> set calls. tx_pc call = TCall \<and> (tx_commits call \<longrightarrow> tx_sql call = sql)"
    and "tx_run P in_use is calls s = (calls', s')"
  shows "\<exists>order. distinct order \<and>
    tbl (pg_db s') = tbl (pg_db s) @ map (\<lambda>i. tx_params (calls ! i)) order \<and>
    (\<forall>i \<in> set order. i < length calls \<and> tx_commits (calls ! i) \<and> finished (calls' ! i)) \<and>
    (\<forall>i < length calls. tx_commits (calls ! i) \<longrightarrow> succeeded (calls' ! i) \<longrightarrow> i \<in> set order) \<and>
    (\<forall>i < length calls. \<forall>rs. \<not> tx_commits (calls ! i) \<longrightarrow> tx_pc (calls' ! i) = TDone (Inr rs) \<longrightarrow>
       (\<exists>k c d v. pg_exec_params P c (tx_sql (calls ! i)) (tx_params (calls ! i)) d = Inr (rs, v) \<and>
          tbl d = tbl (pg_db s) @ map (\<lambda>i. tx_params (calls ! i)) (take k order)))"
proof -
  let ?t0 = "tbl (pg_db s)"
  note frame = tx_run_frame [OF assms(3)]
  from serialised_run [OF assms(1) serialised_start [OF assms(2)] assms(3)] frame
  obtain order where ok: "\<forall>call \<in> set calls'. call_ok P sql tbl added ?t0 (tbl (pg_db s')) call"
    and order: "committed calls' order" "tbl (pg_db s') = ?t0 @ map (\<lambda>i. tx_params (calls ! i)) order"
    by (auto simp: serialised_def)
  have "\<exists>k c d v. pg_exec_params P c (tx_sql (calls ! i)) (tx_params (calls ! i)) d = Inr (rs, v) \<and>
      tbl d = ?t0 @ map (\<lambda>i. tx_params (calls ! i)) (take k order)"
    if "i < length calls" "\<not> tx_commits (calls ! i)" "tx_pc (calls' ! i) = TDone (Inr rs)" for i rs
  proof -
    have "call_ok P sql tbl added ?t0 (tbl (pg_db s')) (calls' ! i)" using ok that(1) frame by simp
    then have "answered P tbl ?t0 (tbl (pg_db s')) (calls' ! i) rs" using that frame by (simp add: call_ok_def)
    then obtain c d v where "pg_exec_params P c (tx_sql (calls ! i)) (tx_params (calls ! i)) d = Inr (rs, v)"
      "prefix ?t0 (tbl d)" "prefix (tbl d) (tbl (pg_db s'))"
      using frame by (auto simp: answered_def)
    with prefix_commits order(2) show ?thesis by metis
  qed
  with order frame show ?thesis unfolding committed_def by (intro exI [of _ order]) simp
qed

definition demo_calls :: "(nat, pg_table \<times> pg_table, string list) tx_call list" where
  "demo_calls = [tx_insert insert_message_sql [''a''], tx_insert insert_message_sql [''b''],
     tx_query select_messages_sql [], tx_insert insert_message_sql [''c'']]"

definition demo_cells :: "(nat, pg_table \<times> pg_table) pg_state" where
  "demo_cells = \<lparr>pg_pool = \<lparr>pool = [0, 1, 2], next_conn = 0\<rparr>, pg_db = ([], [])\<rparr>"

definition demo_schedule :: "nat list" where
  "demo_schedule = [0, 1, 2, 0, 1, 2, 0, 1, 1, 2, 2, 3, 3, 0]"

theorem transactions_serialise_witness:
  "\<exists>calls s order k. tx_run cell_pg (SqlError ''in use'') demo_schedule demo_calls demo_cells = (calls, s) \<and>
     map (\<lambda>i. tx_params (demo_calls ! i)) order = [[''b''], [''a'']] \<and> distinct order \<and>
     tx_pc (calls ! 2) = TDone (Inr [[''b'']]) \<and> map (\<lambda>i. tx_params (demo_calls ! i)) (take k order) = [[''b'']] \<and>
     tx_pc (calls ! 3) = TDone (Inl (SqlError ''in use''))"
proof -
  let ?run = "tx_run cell_pg (SqlError ''in use'') demo_schedule demo_calls demo_cells"
  have "fst (pg_db (snd ?run)) = [[''b''], [''a'']] \<and> tx_pc (fst ?run ! 2) = TDone (Inr [[''b'']]) \<and>
      tx_pc (fst ?run ! 3) = TDone (Inl (SqlError ''in use''))"
    by code_simp
  then obtain calls s where run: "?run = (calls, s)" and v: "fst (pg_db s) = [[''b''], [''a'']]"
    "tx_pc (calls ! 2) = TDone (Inr [[''b'']])" "tx_pc (calls ! 3) = TDone (Inl (SqlError ''in use''))"
    by (metis prod.collapse)
  have start: "\<forall>call \<in> set demo_calls. tx_pc call = TCall \<and> (tx_commits call \<longrightarrow> tx_sql call = insert_message_sql)"
    by (simp add: demo_calls_def tx_insert_def tx_query_def)
  have q: "2 < length demo_calls" "\<not> tx_commits (demo_calls ! 2)" "tx_sql (demo_calls ! 2) = select_messages_sql"
    "fst (pg_db demo_cells) = []"
    by (simp_all add: demo_calls_def tx_query_def demo_cells_def)
  from transactions_serialise [OF cell_pg_concurrent start run] v q
  obtain order k c d w where order: "distinct order" "map (\<lambda>i. tx_params (demo_calls ! i)) order = [[''b''], [''a'']]"
    and k: "fst d = map (\<lambda>i. tx_params (demo_calls ! i)) (take k order)"
    and e: "pg_exec_params cell_pg c select_messages_sql (tx_params (demo_calls ! 2)) d = Inr ([[''b'']], w)"
    by (metis append_Nil)
  have "fst d = [[''b'']]" using e sql_distinct by (auto simp: cell_pg_def)
  with run v order k show ?thesis by metis
qed

end
