(* ===== verification/Network.thy ===== *)
theory Network
  imports Guarantees
begin

text \<open>
  The actor runtime together with its WebSocket connections: the listener creates sessions, the
  completion handlers of a session call the session actor and the dispatcher, and the session
  actor's deliveries end in the write queues of the sessions. A run is a list of labels, each of
  them one atomic action of a worker or one completion handler; the order of labels is the
  interleaving the theorems quantify over.
\<close>

section \<open>The connected server\<close>

text \<open>
  Session objects are numbered in the order of their creation. For each of them \<open>n_peers\<close> has
  the session id and the texts its client has received.
\<close>

record ('q, 'd) net =
  n_config :: "('q, 'd) config"
  n_listener :: ws_listener
  n_peers :: "(string \<times> string list) list"

abbreviation n_world :: "('q, 'd) net \<Rightarrow> ('q, 'd) world" where
  "n_world n \<equiv> c_world (n_config n)"

abbreviation peer_id :: "('q, 'd) net \<Rightarrow> nat \<Rightarrow> string" where
  "peer_id n i \<equiv> fst (n_peers n ! i)"

abbreviation received :: "('q, 'd) net \<Rightarrow> nat \<Rightarrow> string list" where
  "received n i \<equiv> snd (n_peers n ! i)"

text \<open>
  The handlers of the outstanding operations own the session (\<open>shared_from_this\<close>); the session
  actor only has a weak pointer. The object dies with the last of them.
\<close>

definition ws_outstanding :: "ws_session \<Rightarrow> bool" where
  "ws_outstanding s \<longleftrightarrow> ws_accepting s \<or> ws_reading s \<or> ws_posted s \<noteq> [] \<or> ws_writes s \<noteq> []"

definition put_session :: "nat \<Rightarrow> ws_session \<Rightarrow> ('q, 'd) config \<Rightarrow> ('q, 'd) config" where
  "put_session i s c = c\<lparr>c_world := (c_world c)\<lparr>w_sessions :=
     (w_sessions (c_world c))(i := if ws_outstanding s then Some s else None)\<rparr>\<rparr>"

fun perform :: "('q, 'd) libs \<Rightarrow> nat \<Rightarrow> ws_effect \<Rightarrow> ('q, 'd) config \<Rightarrow> ('q, 'd) config option" where
  "perform L i (BindTransport sid) c =
     Some (c\<lparr>c_world := (c_world c)\<lparr>w_transports := SessionActor_bindTransport sid i (w_transports (c_world c))\<rparr>\<rparr>)"
| "perform L i (UnbindTransport sid) c =
     Some (c\<lparr>c_world := (c_world c)\<lparr>w_transports := SessionActor_unbindTransport sid (w_transports (c_world c))\<rparr>\<rparr>)"
| "perform L i (Dispatch sid raw) c = exec_label L (LFrame sid raw) c"

fun performs :: "('q, 'd) libs \<Rightarrow> nat \<Rightarrow> ws_effect list \<Rightarrow> ('q, 'd) config \<Rightarrow> ('q, 'd) config option" where
  "performs L i [] c = Some c"
| "performs L i (x # xs) c =
     (case perform L i x c of None \<Rightarrow> None | Some c' \<Rightarrow> performs L i xs c')"

text \<open>A completion handler of session \<open>i\<close> that ends in \<open>s\<close>, makes the calls \<open>effs\<close> and whose
  completion means that the client received \<open>ts\<close>.\<close>

definition net_handler ::
  "('q, 'd) libs \<Rightarrow> nat \<Rightarrow> ws_session \<times> ws_effect list \<Rightarrow> string list \<Rightarrow> ('q, 'd) net
     \<Rightarrow> ('q, 'd) net option" where
  "net_handler L i r ts n =
     (case performs L i (snd r) (put_session i (fst r) (n_config n)) of
        None \<Rightarrow> None
      | Some c \<Rightarrow> Some (n\<lparr>n_config := c,
                         n_peers := (n_peers n)[i := (peer_id n i, received n i @ ts)]\<rparr>))"

datatype net_label =
    NWorker label           \<comment> \<open>an atomic action of a worker\<close>
  | NConnect bool           \<comment> \<open>\<open>WebSocketListener::onAccept\<close>\<close>
  | NAccept nat bool        \<comment> \<open>\<open>WebSocketSession::onAccept\<close>\<close>
  | NRead nat bool string   \<comment> \<open>\<open>WebSocketSession::onRead\<close>\<close>
  | NStrand nat             \<comment> \<open>the next handler posted by \<open>WebSocketSession::send\<close>\<close>
  | NWrite nat bool         \<comment> \<open>\<open>WebSocketSession::onWrite\<close>\<close>

fun is_worker :: "label \<Rightarrow> bool" where
  "is_worker (LFrame _ _) = False"
| "is_worker _ = True"

definition net_session :: "('q, 'd) net \<Rightarrow> nat \<Rightarrow> ws_session option" where
  "net_session n i = (if c_crashed (n_config n) = None then w_sessions (n_world n) i else None)"

definition net_connect :: "bool \<Rightarrow> ('q, 'd) net \<Rightarrow> ('q, 'd) net" where
  "net_connect ec n =
     (case WebSocketListener_onAccept ec (n_listener n) of
        (None, l) \<Rightarrow> n\<lparr>n_listener := l\<rparr>
      | (Some s, l) \<Rightarrow> n\<lparr>n_config := put_session (length (n_peers n)) s (n_config n),
                         n_listener := l, n_peers := n_peers n @ [(ws_sessionId s, [])]\<rparr>)"

fun net_exec :: "('q, 'd) libs \<Rightarrow> net_label \<Rightarrow> ('q, 'd) net \<Rightarrow> ('q, 'd) net option" where
  "net_exec L (NWorker l) n =
     (if is_worker l then map_option (\<lambda>c. n\<lparr>n_config := c\<rparr>) (exec_label L l (n_config n)) else None)"
| "net_exec L (NConnect ec) n =
     (if c_crashed (n_config n) = None then Some (net_connect ec n) else None)"
| "net_exec L (NAccept i ec) n =
     (case net_session n i of
        None \<Rightarrow> None
      | Some s \<Rightarrow> if ws_accepting s then net_handler L i (WebSocketSession_onAccept ec s) [] n else None)"
| "net_exec L (NRead i ec raw) n =
     (case net_session n i of
        None \<Rightarrow> None
      | Some s \<Rightarrow> if ws_reading s then net_handler L i (WebSocketSession_onRead ec raw s) [] n else None)"
| "net_exec L (NStrand i) n =
     (case net_session n i of
        None \<Rightarrow> None
      | Some s \<Rightarrow> (case WebSocketSession_posted s of
          None \<Rightarrow> None
        | Some s' \<Rightarrow> net_handler L i (s', []) [] n))"
| "net_exec L (NWrite i ec) n =
     (case net_session n i of
        None \<Rightarrow> None
      | Some s \<Rightarrow> (case WebSocketSession_onWrite ec s of
          None \<Rightarrow> None
        | Some r \<Rightarrow> net_handler L i r (if ec then [] else [hd (ws_writes s)]) n))"

fun net_run :: "('q, 'd) libs \<Rightarrow> net_label list \<Rightarrow> ('q, 'd) net \<Rightarrow> ('q, 'd) net option" where
  "net_run L [] n = Some n"
| "net_run L (l # ls) n =
     (case net_exec L l n of None \<Rightarrow> None | Some n' \<Rightarrow> net_run L ls n')"

definition net_init :: "('q, 'd) libs \<Rightarrow> size_t \<Rightarrow> nat \<Rightarrow> 'd \<Rightarrow> ('q, 'd) net" where
  "net_init L mailboxSize threads d =
     \<lparr>n_config = init_config L mailboxSize threads d, n_listener = WebSocketListener_init,
      n_peers = []\<rparr>"

section \<open>Runs of the connected server are runs of the runtime\<close>

lemma transport_steps:
  "c_crashed c = None \<Longrightarrow> steps L c (c\<lparr>c_world := (c_world c)\<lparr>w_transports := tr, w_sessions := ss\<rparr>\<rparr>)"
  by (rule r_into_rtranclp) (rule step.transport)

lemma put_session_steps: "c_crashed c = None \<Longrightarrow> steps L c (put_session i s c)"
  using transport_steps [of c, where tr = "w_transports (c_world c)"] by (simp add: put_session_def)

lemma perform_steps:
  assumes "perform L i x c = Some c'" and "c_crashed c = None"
  shows "steps L c c'"
proof (cases x)
  case (Dispatch sid raw)
  with assms show ?thesis by (simp add: exec_label_sound del: exec_label.simps)
qed (use assms transport_steps [OF assms(2), where ss = "w_sessions (c_world c)"] in auto)

lemma put_session_simps [simp]:
  "c_crashed (put_session i s c) = c_crashed c" "c_done (put_session i s c) = c_done c"
  "w_transports (c_world (put_session i s c)) = w_transports (c_world c)"
  "w_sessions (c_world (put_session i s c)) =
     (w_sessions (c_world c))(i := if ws_outstanding s then Some s else None)"
  by (simp_all add: put_session_def)

lemma net_session_Some:
  "net_session n i = Some s \<longleftrightarrow> c_crashed (n_config n) = None \<and> w_sessions (n_world n) i = Some s"
  by (simp add: net_session_def)

text \<open>A session handler makes at most one call, for its own session id.\<close>

definition own_call :: "ws_session \<Rightarrow> ws_effect list \<Rightarrow> bool" where
  "own_call s effs \<longleftrightarrow> effs = [] \<or>
     (\<exists>raw. effs \<in> {[BindTransport (ws_sessionId s)], [UnbindTransport (ws_sessionId s)],
                    [Dispatch (ws_sessionId s) raw]})"

text \<open>
  Every label other than a worker's or the listener's is a completion handler of a live session:
  \<open>s'\<close> is the session afterwards, and what it has written, queued and posted is unchanged.
\<close>

lemma handler_cases:
  assumes "net_exec L l n = Some n'" and "\<And>w. l \<noteq> NWorker w" and "\<And>ec. l \<noteq> NConnect ec"
  obtains i s s' effs ts where "net_session n i = Some s" "net_handler L i (s', effs) ts n = Some n'"
    "own_call s effs" "ws_sessionId s' = ws_sessionId s"
    "ws.one_write s \<Longrightarrow> ws.one_write s' \<and>
       ts @ ws_writeQueue s' @ ws_posted s' = ws_writeQueue s @ ws_posted s"
proof (cases l)
  case (NAccept i ec)
  with assms obtain s where "net_session n i = Some s"
    "net_handler L i (WebSocketSession_onAccept ec s) [] n = Some n'"
    by (auto split: option.splits if_splits)
  with that [of i s "fst (WebSocketSession_onAccept ec s)" "snd (WebSocketSession_onAccept ec s)" "[]"]
  show thesis
    by (simp add: WebSocketSession_onAccept_def WebSocketSession_doRead_def own_call_def
        ws.one_write_def Let_def split: if_splits)
next
  case (NRead i ec raw)
  with assms obtain s where "net_session n i = Some s"
    "net_handler L i (WebSocketSession_onRead ec raw s) [] n = Some n'"
    by (auto split: option.splits if_splits)
  with that [of i s "fst (WebSocketSession_onRead ec raw s)" "snd (WebSocketSession_onRead ec raw s)" "[]"]
  show thesis
    by (simp add: WebSocketSession_onRead_def WebSocketSession_doRead_def own_call_def
        ws.one_write_def Let_def split: if_splits)
next
  case (NStrand i)
  with assms obtain s s' where s: "net_session n i = Some s" and p: "WebSocketSession_posted s = Some s'"
    and h: "net_handler L i (s', []) [] n = Some n'"
    by (auto split: option.splits)
  from p have "ws_writeQueue s' @ ws_posted s' = ws_writeQueue s @ ws_posted s"
    by (auto elim: ws.run_cases)
  moreover from p have "ws_sessionId s' = ws_sessionId s"
    by (auto simp: WebSocketSession_posted_def WebSocketSession_doWrite_def Let_def split: list.splits)
  ultimately show thesis
    using that [OF s h] ws.one_write_run [OF _ p] by (simp add: own_call_def)
next
  case (NWrite i ec)
  with assms obtain s s' effs where s: "net_session n i = Some s"
    and p: "WebSocketSession_onWrite ec s = Some (s', effs)"
    and h: "net_handler L i (s', effs) (if ec then [] else [hd (ws_writes s)]) n = Some n'"
    by (auto split: option.splits)
  from p have f: "ws_write_done ec s = Some s'" by simp
  from p have "ws_sessionId s' = ws_sessionId s \<and> own_call s effs"
    by (auto simp: WebSocketSession_onWrite_def WebSocketSession_doWrite_def own_call_def Let_def
        split: list.splits if_splits)
  moreover from f have "ws.one_write s \<Longrightarrow>
      (if ec then [] else [hd (ws_writes s)]) @ ws_writeQueue s' @ ws_posted s' =
      ws_writeQueue s @ ws_posted s"
    by (elim ws.fin_cases) (auto simp: ws.one_write_def)
  ultimately show thesis
    using that [OF s h] ws.one_write_fin [OF _ f] by simp
qed (use assms in blast)+

text \<open>What the calls of a handler leave alone.\<close>

lemma performs_frame:
  assumes "own_call s effs" and "performs L i effs c = Some c'"
  shows "w_sessions (c_world c') = w_sessions (c_world c)" and "c_done c' = c_done c"
    and "w_transports (c_world c') sid \<in> {w_transports (c_world c) sid, None} \<or>
         sid = ws_sessionId s \<and> w_transports (c_world c') sid = Some i"
  using assms
  by (auto simp: own_call_def SessionActor_bindTransport_def SessionActor_unbindTransport_def
      split: option.splits if_splits sum.splits prod.splits)

lemma performs_steps:
  assumes "own_call s effs" and "performs L i effs c = Some c'" and "c_crashed c = None"
  shows "steps L c c'"
  using assms perform_steps [OF _ assms(3), of L i]
  by (auto simp: own_call_def simp del: perform.simps split: option.splits)

lemma net_exec_steps:
  assumes "net_exec L l n = Some n'"
  shows "steps L (n_config n) (n_config n')"
proof (cases "(\<exists>w. l = NWorker w) \<or> (\<exists>ec. l = NConnect ec)")
  case True
  then show ?thesis
    using assms put_session_steps [of "n_config n" L] exec_label_sound [of L _ "n_config n"]
    by (auto simp: net_connect_def simp del: exec_label.simps
        split: if_splits option.splits prod.splits)
next
  case False
  then obtain i s s' effs ts where h: "net_session n i = Some s"
    "net_handler L i (s', effs) ts n = Some n'" "own_call s effs"
    using handler_cases [OF assms] by metis
  then have c: "c_crashed (n_config n) = None" by (simp add: net_session_Some)
  from h(2) obtain c' where p: "performs L i effs (put_session i s' (n_config n)) = Some c'"
    and n': "n_config n' = c'"
    by (auto simp: net_handler_def split: option.splits)
  from performs_steps [OF h(3) p] c have "steps L (put_session i s' (n_config n)) c'" by simp
  with put_session_steps [OF c, of L i s'] n' show ?thesis by (simp add: rtranclp_trans)
qed

lemma net_run_steps: "net_run L ls n = Some n' \<Longrightarrow> steps L (n_config n) (n_config n')"
proof (induction ls arbitrary: n)
  case (Cons l ls)
  then obtain n1 where "net_exec L l n = Some n1" "net_run L ls n1 = Some n'"
    by (auto split: option.splits)
  with Cons.IH net_exec_steps show ?case by (metis rtranclp_trans)
qed simp

lemma net_run_append:
  "net_run L (ls @ ls') n = (case net_run L ls n of None \<Rightarrow> None | Some n' \<Rightarrow> net_run L ls' n')"
  by (induction ls arbitrary: n) (auto split: option.splits)

section \<open>What the session actor hands over\<close>

text \<open>The texts of the outgoing events handled so far that are addressed to a session id.\<close>

fun effect_texts :: "json_lib \<Rightarrow> string \<Rightarrow> effect \<Rightarrow> string list" where
  "effect_texts J sid (Handed out) =
     (if so_sessionId out = sid then (case dump J (so_payload out) of Inr t \<Rightarrow> [t] | Inl _ \<Rightarrow> []) else [])"
| "effect_texts J sid (Persisted _) = []"

definition texts_for :: "json_lib \<Rightarrow> string \<Rightarrow> effect list \<Rightarrow> string list" where
  "texts_for J sid es = concat (map (effect_texts J sid) es)"

lemma texts_for_append [simp]: "texts_for J sid (es @ es') = texts_for J sid es @ texts_for J sid es'"
  by (simp add: texts_for_def)

text \<open>A worker action changes at most one session, by the delivery of one event to it.\<close>

definition delivers ::
  "json_lib \<Rightarrow> SessionOutgoingEvent \<Rightarrow> nat \<Rightarrow> ws_session \<Rightarrow> string \<Rightarrow> ('q, 'd) world \<Rightarrow> bool" where
  "delivers J out i s t w \<longleftrightarrow> w_transports w (so_sessionId out) = Some i \<and> w_sessions w i = Some s \<and>
     dump J (so_payload out) = Inr t"

lemma exec_act_sessions:
  assumes "exec_act L rid now x w = (r, w')"
  shows "w_transports w' = w_transports w" and
    "w_sessions w' = w_sessions w \<or>
     (\<exists>out i s t. x = ADeliver out \<and> r = Inr () \<and> delivers (lib_json L) out i s t w \<and>
        w_sessions w' = (w_sessions w)(i \<mapsto> WebSocketSession_send t s))"
  using assms
  by (cases x; auto simp: SessionActor_deliver_def SessionActor_find_def delivers_def
      split: option.splits sum.splits if_splits prod.splits)+

lemma worker_sessions:
  assumes "exec_label L l c = Some c'" and "is_worker l"
  shows "w_transports (c_world c') = w_transports (c_world c)" and "\<exists>xs. c_done c' = c_done c @ xs"
    and "w_sessions (c_world c') = w_sessions (c_world c) \<or>
      (\<exists>out i s t. c_done c' = c_done c @ [Handed out] \<and> delivers (lib_json L) out i s t (c_world c) \<and>
         w_sessions (c_world c') = (w_sessions (c_world c))(i \<mapsto> WebSocketSession_send t s))"
proof -
  have "w_transports (c_world c') = w_transports (c_world c) \<and> (\<exists>xs. c_done c' = c_done c @ xs) \<and>
    (w_sessions (c_world c') = w_sessions (c_world c) \<or>
      (\<exists>out i s t. c_done c' = c_done c @ [Handed out] \<and> delivers (lib_json L) out i s t (c_world c) \<and>
         w_sessions (c_world c') = (w_sessions (c_world c))(i \<mapsto> WebSocketSession_send t s)))"
  proof (cases l)
    case (LTake i t)
    with assms show ?thesis by (auto split: option.splits prod.splits)
  next
    case (LFinish i)
    with assms show ?thesis by (auto split: option.splits prod.splits list.splits)
  next
    case (LAct i rid now)
    with assms(1) obtain a x xs r w' where x: "exec_act L rid now x (c_world c) = (r, w')"
      and c': "c_world c' = w'" "c_done c' = c_done c @ (if is_ok r then act_effect x else [])"
      by (auto split: option.splits prod.splits list.splits sum.splits)
    from exec_act_sessions [OF x] c' show ?thesis by fastforce
  qed (use assms in simp)
  then show "w_transports (c_world c') = w_transports (c_world c)" "\<exists>xs. c_done c' = c_done c @ xs"
    "w_sessions (c_world c') = w_sessions (c_world c) \<or>
      (\<exists>out i s t. c_done c' = c_done c @ [Handed out] \<and> delivers (lib_json L) out i s t (c_world c) \<and>
         w_sessions (c_world c') = (w_sessions (c_world c))(i \<mapsto> WebSocketSession_send t s))"
    by blast+
qed

section \<open>The connection invariant\<close>

definition nth_id :: "nat \<Rightarrow> string" where
  "nth_id i = to_string (unat (of_nat i :: 64 word))"

definition session_ok :: "json_lib \<Rightarrow> ('q, 'd) net \<Rightarrow> nat \<Rightarrow> ws_session \<Rightarrow> bool" where
  "session_ok J n i s \<longleftrightarrow> i < length (n_peers n) \<and> ws_sessionId s = peer_id n i \<and> ws.one_write s \<and>
     subseq (received n i @ ws_writeQueue s @ ws_posted s) (texts_for J (peer_id n i) (c_done (n_config n)))"

definition net_inv :: "json_lib \<Rightarrow> ('q, 'd) net \<Rightarrow> bool" where
  "net_inv J n \<longleftrightarrow>
     wl_nextSessionId (n_listener n) = of_nat (length (n_peers n)) \<and>
     map fst (n_peers n) = map nth_id [1 ..< Suc (length (n_peers n))] \<and>
     (\<forall>sid i. w_transports (n_world n) sid = Some i \<longrightarrow> i < length (n_peers n) \<and> peer_id n i = sid) \<and>
     (\<forall>i s. w_sessions (n_world n) i = Some s \<longrightarrow> session_ok J n i s) \<and>
     (\<forall>i < length (n_peers n). subseq (received n i) (texts_for J (peer_id n i) (c_done (n_config n))))"

lemma net_inv_init: "net_inv J (net_init L cap m d)"
  by (simp add: net_inv_def net_init_def init_config_def WebSocketListener_init_def)

text \<open>What happens to a session that is not the one a step is about.\<close>

lemma session_ok_mono:
  assumes "session_ok J n i s" and "n_peers n' ! i = n_peers n ! i"
    and "length (n_peers n) \<le> length (n_peers n')" and "c_done (n_config n') = c_done (n_config n) @ xs"
  shows "session_ok J n' i s"
  using assms by (auto simp: session_ok_def)

lemma session_ok_send:
  assumes "session_ok J n i s" and "peer_id n i = so_sessionId out" and "dump J (so_payload out) = Inr t"
    and "n_peers n' = n_peers n" and "c_done (n_config n') = c_done (n_config n) @ [Handed out]"
  shows "session_ok J n' i (WebSocketSession_send t s)"
proof -
  have "subseq ((received n i @ ws_writeQueue s @ ws_posted s) @ [t])
      (texts_for J (so_sessionId out) (c_done (n_config n)) @ [t])"
    using assms(1,2) by (intro list_emb_append_mono) (simp_all add: session_ok_def)
  then show ?thesis
    using assms by (simp add: session_ok_def texts_for_def ws.send_view ws.one_write_def)
      (simp add: WebSocketSession_send_def)
qed

lemma net_inv_worker:
  assumes "net_inv J n" and "J = lib_json L" and "exec_label L l (n_config n) = Some c'" and "is_worker l"
  shows "net_inv J (n\<lparr>n_config := c'\<rparr>)"
proof -
  note w = worker_sessions [OF assms(3,4)]
  from w(2) obtain xs where xs: "c_done c' = c_done (n_config n) @ xs" by blast
  have old: "session_ok J (n\<lparr>n_config := c'\<rparr>) i s" if "w_sessions (n_world n) i = Some s" for i s
    using assms(1) that xs session_ok_mono [of J n i s "n\<lparr>n_config := c'\<rparr>" xs] by (simp add: net_inv_def)
  have new: "session_ok J (n\<lparr>n_config := c'\<rparr>) i s" if "w_sessions (c_world c') i = Some s" for i s
    using w(3)
  proof
    assume "w_sessions (c_world c') = w_sessions (n_world n)"
    with old that show ?thesis by simp
  next
    assume "\<exists>out i s t. c_done c' = c_done (n_config n) @ [Handed out] \<and>
      delivers (lib_json L) out i s t (n_world n) \<and>
      w_sessions (c_world c') = (w_sessions (n_world n))(i \<mapsto> WebSocketSession_send t s)"
    then obtain out j s0 t where d: "c_done c' = c_done (n_config n) @ [Handed out]"
      "delivers J out j s0 t (n_world n)"
      "w_sessions (c_world c') = (w_sessions (n_world n))(j \<mapsto> WebSocketSession_send t s0)"
      unfolding assms(2) by blast
    then have "session_ok J (n\<lparr>n_config := c'\<rparr>) j (WebSocketSession_send t s0)"
      using assms(1) by (intro session_ok_send [of J n j s0 out t]) (auto simp: net_inv_def delivers_def)
    with d(3) old that show ?thesis by (cases "i = j") auto
  qed
  then show ?thesis
    using assms(1) w(1) xs by (auto simp: net_inv_def)
qed

lemma nth_id_Suc: "nth_id (Suc k) = to_string (unat (of_nat k + 1 :: 64 word))"
  by (simp add: nth_id_def add.commute)

lemma net_inv_connect:
  assumes "net_inv J n"
  shows "net_inv J (net_connect ec n)"
proof (cases ec)
  case True
  then have "net_connect ec n = n" by (simp add: net_connect_def WebSocketListener_onAccept_def)
  with assms show ?thesis by simp
next
  case False
  let ?k = "length (n_peers n)"
  let ?s = "WebSocketSession_run (WebSocketSession_new (nth_id (Suc ?k)))"
  let ?n = "net_connect ec n"
  have l: "wl_nextSessionId (n_listener n) = of_nat ?k" using assms by (simp add: net_inv_def)
  have n': "n_config ?n = put_session ?k ?s (n_config n)" "n_peers ?n = n_peers n @ [(nth_id (Suc ?k), [])]"
    "wl_nextSessionId (n_listener ?n) = of_nat (Suc ?k)"
    using False l
    by (simp_all add: net_connect_def WebSocketListener_onAccept_def nth_id_Suc Let_def add.commute
        WebSocketSession_run_def WebSocketSession_new_def)
  have new: "session_ok J ?n ?k ?s"
    by (simp add: session_ok_def n' WebSocketSession_run_def WebSocketSession_new_def ws.one_write_def)
  have old: "session_ok J ?n i s" if "w_sessions (n_world n) i = Some s" for i s
  proof -
    have s: "session_ok J n i s" using assms that by (simp add: net_inv_def)
    then show ?thesis
      by (rule session_ok_mono [where xs = "[]"]) (use s in \<open>simp_all add: n' session_ok_def nth_append\<close>)
  qed
  show ?thesis
    using assms new old
    by (auto simp: net_inv_def n' nth_append less_Suc_eq split: if_splits)
qed

lemma net_inv_handler:
  assumes "net_inv J n" and "net_session n i = Some s" and "net_handler L i (s', effs) ts n = Some n'"
    and "own_call s effs" and "ws_sessionId s' = ws_sessionId s" and "ws.one_write s'"
    and "ts @ ws_writeQueue s' @ ws_posted s' = ws_writeQueue s @ ws_posted s"
  shows "net_inv J n'"
proof -
  have s: "session_ok J n i s" using assms(1,2) by (simp add: net_inv_def net_session_Some)
  from assms(3) obtain c where p: "performs L i effs (put_session i s' (n_config n)) = Some c"
    and n': "n' = n\<lparr>n_config := c, n_peers := (n_peers n)[i := (peer_id n i, received n i @ ts)]\<rparr>"
    by (auto simp: net_handler_def split: option.splits)
  note f = performs_frame [OF assms(4) p, simplified]
  have i: "i < length (n_peers n)" "peer_id n i = ws_sessionId s" using s by (auto simp: session_ok_def)
  have whole: "subseq (received n i @ ts @ ws_writeQueue s' @ ws_posted s')
      (texts_for J (peer_id n i) (c_done (n_config n)))"
    using s assms(7) by (simp add: session_ok_def)
  have here: "session_ok J n' i s'"
    using i whole assms(5,6) by (simp add: session_ok_def n' f(2))
  have other: "session_ok J n' j s0" if "j \<noteq> i" "w_sessions (n_world n) j = Some s0" for j s0
    using assms(1) that
    by (intro session_ok_mono [of J n j s0 n' "[]"]) (simp_all add: net_inv_def n' f(2))
  have "subseq (received n i @ ts) (texts_for J (peer_id n i) (c_done (n_config n)))"
    using whole by (metis append_assoc list_emb_append_mono list_emb_Nil append_Nil2 subseq_order.trans subseq_order.order_refl)
  then have recv: "subseq (received n' j) (texts_for J (peer_id n' j) (c_done (n_config n')))"
    if "j < length (n_peers n)" for j
    using assms(1) that i by (cases "j = i") (simp_all add: net_inv_def n' f(2))
  have ids: "map fst (n_peers n') = map fst (n_peers n)"
    using i(1) by (simp add: n' map_update list_update_same_conv)
  have tr: "j < length (n_peers n) \<and> peer_id n' j = sid" if "w_transports (c_world c) sid = Some j" for sid j
  proof -
    from f(3) [of sid] that have "w_transports (n_world n) sid = Some j \<or> sid = ws_sessionId s \<and> j = i" by auto
    with assms(1) i show ?thesis by (cases "j = i") (auto simp: net_inv_def n')
  qed
  have "session_ok J n' j s0" if "w_sessions (c_world c) j = Some s0" for j s0
    using that here other f(1) by (cases "j = i") (auto split: if_splits)
  with tr ids recv show ?thesis
    using assms(1) by (auto simp: net_inv_def n')
qed

lemma net_inv_exec:
  assumes "net_inv (lib_json L) n" and "net_exec L l n = Some n'"
  shows "net_inv (lib_json L) n'"
proof (cases "(\<exists>w. l = NWorker w) \<or> (\<exists>ec. l = NConnect ec)")
  case True
  with assms show ?thesis
    by (auto intro: net_inv_connect net_inv_worker [OF assms(1) refl] simp del: exec_label.simps
        split: if_splits)
next
  case False
  then obtain i s s' effs ts where h: "net_session n i = Some s"
    "net_handler L i (s', effs) ts n = Some n'" "own_call s effs" "ws_sessionId s' = ws_sessionId s"
    "ws.one_write s \<Longrightarrow> ws.one_write s' \<and>
       ts @ ws_writeQueue s' @ ws_posted s' = ws_writeQueue s @ ws_posted s"
    using handler_cases [OF assms(2)] by metis
  moreover have "ws.one_write s"
    using assms(1) h(1) by (auto simp: net_inv_def net_session_Some session_ok_def)
  ultimately show ?thesis using net_inv_handler [OF assms(1) h(1-4)] by blast
qed

lemma net_inv_run: "net_run L ls n = Some n' \<Longrightarrow> net_inv (lib_json L) n \<Longrightarrow> net_inv (lib_json L) n'"
  by (induction ls arbitrary: n) (auto split: option.splits intro: net_inv_exec)

lemmas net_inv_reachable = net_inv_run [OF _ net_inv_init]

section \<open>Flushing a connection\<close>

lemma out_run_outstanding:
  assumes "out_run WebSocketSession_send WebSocketSession_posted ws_write_done ws_writes es s = Some r"
    and "\<forall>e \<in> set es. internal e" and "es \<noteq> []"
  shows "ws_outstanding s"
  using assms
  by (cases es)
    (auto simp: internal_def ws_outstanding_def WebSocketSession_posted_def WebSocketSession_onWrite_def
      split: option.splits list.splits)

text \<open>The label of an event of the write side.\<close>

fun write_label :: "nat \<Rightarrow> out_event \<Rightarrow> net_label" where
  "write_label i (ODone ec) = NWrite i ec"
| "write_label i _ = NStrand i"

lemma write_label_internal: "internal e \<Longrightarrow> write_label i e = NStrand i \<or> write_label i e = NWrite i False"
  by (cases e) (simp_all add: internal_def)

lemma net_write_event:
  assumes "net_session n i = Some s" and "internal e" and "i < length (n_peers n)"
    and "out_run WebSocketSession_send WebSocketSession_posted ws_write_done ws_writes [e] s = Some (w, s')"
  shows "net_exec L (write_label i e) n = Some (n\<lparr>n_config := put_session i s' (n_config n),
           n_peers := (n_peers n)[i := (peer_id n i, received n i @ w)]\<rparr>)"
proof (cases e)
  case (ODone ec)
  with assms(2) have "\<not> ec" by (simp add: internal_def)
  with ODone assms show ?thesis
    by (auto simp: net_handler_def WebSocketSession_onWrite_def Let_def split: option.splits list.splits)
qed (use assms in \<open>auto simp: internal_def net_handler_def split: option.splits\<close>)

lemma net_write_events:
  assumes "net_session n i = Some s" and "\<forall>e \<in> set es. internal e" and "i < length (n_peers n)"
    and "out_run WebSocketSession_send WebSocketSession_posted ws_write_done ws_writes es s = Some (w, s')"
  shows "\<exists>n'. net_run L (map (write_label i) es) n = Some n' \<and>
           n_peers n' = (n_peers n)[i := (peer_id n i, received n i @ w)]"
  using assms
proof (induction es arbitrary: n s w)
  case Nil
  then show ?case by simp
next
  case (Cons e es)
  from Cons.prems(4) ws.exec_append [of "[e]" es s] obtain w1 s1 w2 where
    e: "out_run WebSocketSession_send WebSocketSession_posted ws_write_done ws_writes [e] s = Some (w1, s1)"
    and es: "out_run WebSocketSession_send WebSocketSession_posted ws_write_done ws_writes es s1 = Some (w2, s')"
    and w: "w = w1 @ w2"
    by (auto split: option.splits simp del: out_run.simps dest!: sym [of "Some (w, s')"])
  let ?n = "n\<lparr>n_config := put_session i s1 (n_config n),
              n_peers := (n_peers n)[i := (peer_id n i, received n i @ w1)]\<rparr>"
  have x: "net_exec L (write_label i e) n = Some ?n"
    using Cons.prems by (intro net_write_event [OF _ _ _ e]) simp_all
  show ?case
  proof (cases "es = []")
    case True
    with x es w show ?thesis by simp
  next
    case False
    with out_run_outstanding [OF es] Cons.prems have "net_session ?n i = Some s1"
      by (simp add: net_session_Some)
    from Cons.IH [OF this _ _ es] Cons.prems obtain n' where
      "net_run L (map (write_label i) es) ?n = Some n'"
      "n_peers n' = (n_peers n)[i := (peer_id n i, received n i @ w)]"
      by (auto simp: w)
    with x show ?thesis by auto
  qed
qed

lemma worker_hands_over:
  assumes "exec_label L l c = Some c'" and "is_worker l" and "c_done c' = c_done c @ [Handed out]"
    and "delivers (lib_json L) out i s t (c_world c)"
  shows "w_sessions (c_world c') i = Some (WebSocketSession_send t s)" and "c_crashed c' = None"
proof -
  have "w_sessions (c_world c') i = Some (WebSocketSession_send t s) \<and> c_crashed c' = None"
  proof (cases l)
    case (LAct k rid now)
    with assms(1,3) obtain x w' where x: "exec_act L rid now x (c_world c) = (Inr (), w')"
      and c': "c_world c' = w'" "act_effect x = [Handed out]" "c_crashed c' = None"
      by (auto simp: worker_state_def split: option.splits prod.splits list.splits sum.splits if_splits)
    then have "x = ADeliver out" by (cases x) auto
    with x c' assms(4) show ?thesis
      by (auto simp: SessionActor_deliver_def SessionActor_find_def delivers_def)
  qed (use assms in \<open>auto split: option.splits prod.splits list.splits\<close>)
  then show "w_sessions (c_world c') i = Some (WebSocketSession_send t s)" "c_crashed c' = None" by auto
qed

end
