(* ===== verification/Net_History.thy ===== *)
theory Net_History
  imports Network
begin

text \<open>
  Two histories of a run of the connected server, and what the sessions' handlers make of them: the
  frames its labels read, which are the events the dispatcher posts, and the texts the session
  actor handed to a session object, which are what that session has written, queued and posted.
\<close>

section \<open>Peers\<close>

text \<open>Connections keep their number and their session id.\<close>

definition peers_kept :: "('q, 'd) net \<Rightarrow> ('q, 'd) net \<Rightarrow> bool" where
  "peers_kept n n' \<longleftrightarrow> length (n_peers n) \<le> length (n_peers n') \<and>
     (\<forall>i < length (n_peers n). peer_id n' i = peer_id n i)"

lemma peers_kept_refl [simp]: "peers_kept n n"
  by (simp add: peers_kept_def)

lemma peers_kept_trans: "peers_kept n n1 \<Longrightarrow> peers_kept n1 n2 \<Longrightarrow> peers_kept n n2"
  by (simp add: peers_kept_def)

lemma peers_kept_handler:
  assumes "net_handler L i r ts n = Some n'"
  shows "peers_kept n n'"
proof -
  have n': "n_peers n' = (n_peers n)[i := (peer_id n i, received n i @ ts)]"
    using assms by (auto simp: net_handler_def split: option.splits)
  have "peer_id n' j = peer_id n j" if "j < length (n_peers n)" for j
    using that n' by (cases "j = i") simp_all
  with n' show ?thesis by (simp add: peers_kept_def)
qed

lemma peers_kept_exec:
  assumes "net_exec L l n = Some n'"
  shows "peers_kept n n'"
proof (cases "(\<exists>w. l = NWorker w) \<or> (\<exists>ec. l = NConnect ec)")
  case True
  with assms show ?thesis
    by (auto simp: peers_kept_def net_connect_def nth_append simp del: exec_label.simps
        split: if_splits option.splits prod.splits)
next
  case False
  then obtain i r ts where "net_handler L i r ts n = Some n'"
    using handler_cases [OF assms] by metis
  then show ?thesis by (rule peers_kept_handler)
qed

lemma peers_kept_run: "net_run L ls n = Some n' \<Longrightarrow> peers_kept n n'"
  by (induction ls arbitrary: n) (auto split: option.splits intro: peers_kept_trans peers_kept_exec)

section \<open>Frames\<close>

text \<open>The frames that the completed reads of a run brought, each with the id of its session.\<close>

fun label_frames :: "('q, 'd) net \<Rightarrow> net_label \<Rightarrow> (string \<times> string) list" where
  "label_frames n (NRead i ec raw) = (if ec then [] else [(peer_id n i, raw)])"
| "label_frames n _ = []"

definition frames_read :: "('q, 'd) net \<Rightarrow> net_label list \<Rightarrow> (string \<times> string) list" where
  "frames_read n ls = concat (map (label_frames n) ls)"

text \<open>The envelopes the dispatcher makes of frames.\<close>

definition frame_events :: "json_lib \<Rightarrow> (string \<times> string) list \<Rightarrow> ActorEnvelope list" where
  "frame_events J fs = concat (map (\<lambda>(sid, raw).
     case dispatch_event J sid raw of Inr (Some e) \<Rightarrow> [e] | _ \<Rightarrow> []) fs)"

lemma frames_simps [simp]:
  "frames_read n [] = []" "frames_read n (l # ls) = label_frames n l @ frames_read n ls"
  "frame_events J [] = []" "frame_events J (fs @ fs') = frame_events J fs @ frame_events J fs'"
  by (simp_all add: frames_read_def frame_events_def)

lemma shuffles_append:
  "zs \<in> shuffles xs ys \<Longrightarrow> zs' \<in> shuffles xs' ys' \<Longrightarrow> zs @ zs' \<in> shuffles (xs @ xs') (ys @ ys')"
proof (induction zs arbitrary: xs ys)
  case (Cons z zs)
  from Cons.prems(1) consider xs1 where "xs = z # xs1" "zs \<in> shuffles xs1 ys"
    | ys1 where "ys = z # ys1" "zs \<in> shuffles xs ys1"
    by (auto elim: shufflesE)
  then show ?case
  proof cases
    case 1
    with Cons.IH [OF 1(2) Cons.prems(2)] show ?thesis by (simp add: Cons_in_shuffles_leftI)
  next
    case 2
    with Cons.IH [OF 2(2) Cons.prems(2)] show ?thesis by (simp add: Cons_in_shuffles_rightI)
  qed
qed simp

definition takes_in :: "ActorEnvelope list \<Rightarrow> ('q, 'd) config \<Rightarrow> ('q, 'd) config \<Rightarrow> bool" where
  "takes_in es c c' \<longleftrightarrow> (\<exists>A R. c_accepted c' = c_accepted c @ A \<and> c_refused c' = c_refused c @ R \<and> es \<in> shuffles A R)"

lemma takes_in_trans: "takes_in es c c1 \<Longrightarrow> takes_in es' c1 c2 \<Longrightarrow> takes_in (es @ es') c c2"
  unfolding takes_in_def using shuffles_append by (metis append_assoc)

lemma takes_in_none: "c_accepted c' = c_accepted c \<Longrightarrow> c_refused c' = c_refused c \<Longrightarrow> takes_in [] c c'"
  by (simp add: takes_in_def)

lemma takes_in_frame:
  assumes "exec_label L (LFrame sid raw) c = Some c'"
  shows "takes_in (frame_events (lib_json L) [(sid, raw)]) c c'"
proof (cases "dispatch_event (lib_json L) sid raw")
  case (Inl x)
  with assms show ?thesis by (auto simp: frame_events_def takes_in_def split: if_splits)
next
  case (Inr eo)
  obtain b sys' where "post (lib_queue L) (the eo) (c_sys c) = (b, sys')" by fastforce
  with Inr assms show ?thesis
    by (cases eo; cases b) (auto simp: frame_events_def takes_in_def split: if_splits)
qed

lemma takes_in_worker:
  assumes "exec_label L l c = Some c'" and "is_worker l"
  shows "takes_in [] c c'"
  using assms
  by (cases l)
    (auto intro!: takes_in_none split: option.splits prod.splits list.splits sum.splits)

lemma takes_in_handler:
  assumes "net_handler L i (s, effs) ts n = Some n'"
    and "effs = [] \<or> (\<exists>sid. effs \<in> {[BindTransport sid], [UnbindTransport sid]})"
  shows "takes_in [] (n_config n) (n_config n')"
  using assms by (auto simp: net_handler_def put_session_def takes_in_none)

lemma takes_in_exec:
  assumes "net_inv (lib_json L) n" and "net_exec L l n = Some n'"
  shows "takes_in (frame_events (lib_json L) (label_frames n l)) (n_config n) (n_config n')"
proof (cases l)
  case (NWorker w)
  with assms(2) show ?thesis by (auto intro: takes_in_worker simp del: exec_label.simps split: if_splits)
next
  case (NConnect ec)
  with assms(2) show ?thesis
    by (auto simp: net_connect_def put_session_def takes_in_none split: if_splits option.splits prod.splits)
next
  case (NAccept i ec)
  with assms(2) obtain s where "net_handler L i (WebSocketSession_onAccept ec s) [] n = Some n'"
    by (auto split: option.splits if_splits)
  with NAccept show ?thesis
    by (auto simp: WebSocketSession_onAccept_def Let_def intro: takes_in_handler split: if_splits)
next
  case (NRead i ec raw)
  with assms(2) obtain s where s: "net_session n i = Some s"
    and h: "net_handler L i (WebSocketSession_onRead ec raw s) [] n = Some n'"
    by (auto split: option.splits if_splits)
  have sid: "ws_sessionId s = peer_id n i"
    using assms(1) s by (auto simp: net_inv_def net_session_Some session_ok_def)
  show ?thesis
  proof (cases ec)
    case True
    with h NRead show ?thesis
      by (auto simp: WebSocketSession_onRead_def Let_def intro: takes_in_handler)
  next
    case False
    with h sid obtain s1 where "exec_label L (LFrame (peer_id n i) raw) (put_session i s1 (n_config n)) = Some (n_config n')"
      by (auto simp: WebSocketSession_onRead_def Let_def net_handler_def simp del: exec_label.simps
          split: option.splits)
    from takes_in_frame [OF this] NRead False show ?thesis by (simp add: takes_in_def put_session_def)
  qed
next
  case (NStrand i)
  with assms(2) obtain s where "net_handler L i (s, []) [] n = Some n'"
    by (auto split: option.splits)
  with NStrand show ?thesis by (auto intro: takes_in_handler)
next
  case (NWrite i ec)
  with assms(2) obtain s r ts where "WebSocketSession_onWrite ec s = Some r" "net_handler L i r ts n = Some n'"
    by (auto split: option.splits)
  with NWrite show ?thesis
    by (auto simp: WebSocketSession_onWrite_def Let_def intro: takes_in_handler split: list.splits if_splits)
qed

text \<open>A read completes on a session that exists, so the frame's session id does not depend on the moment.\<close>

lemma label_frames_kept:
  assumes "net_inv J n" and "net_exec L l n = Some n1" and "peers_kept n n'"
  shows "label_frames n' l = label_frames n l"
proof (cases l)
  case (NRead i ec raw)
  with assms(2) obtain s where "net_session n i = Some s" by (auto split: option.splits)
  with assms(1) have "i < length (n_peers n)" by (auto simp: net_inv_def net_session_Some session_ok_def)
  with NRead assms(3) show ?thesis by (simp add: peers_kept_def)
qed simp_all

lemma takes_in_run:
  "net_run L ls n = Some n' \<Longrightarrow> net_inv (lib_json L) n \<Longrightarrow>
     takes_in (frame_events (lib_json L) (frames_read n' ls)) (n_config n) (n_config n')"
proof (induction ls arbitrary: n)
  case Nil
  then show ?case by (simp add: takes_in_none)
next
  case (Cons l ls)
  then obtain n1 where e: "net_exec L l n = Some n1" and r: "net_run L ls n1 = Some n'"
    by (auto split: option.splits)
  have "peers_kept n n'" using peers_kept_run [OF Cons.prems(1)] .
  from label_frames_kept [OF Cons.prems(2) e this] takes_in_exec [OF Cons.prems(2) e]
    Cons.IH [OF r net_inv_exec [OF Cons.prems(2) e]]
  show ?case by (simp add: takes_in_trans)
qed

section \<open>Texts handed to a session\<close>

text \<open>What a label hands to session object \<open>i\<close>: only a delivery of the session actor does.\<close>

fun act_hands :: "json_lib \<Rightarrow> nat \<Rightarrow> act \<Rightarrow> ('q, 'd) world \<Rightarrow> string list" where
  "act_hands J i (ADeliver out) w =
     (if w_transports w (so_sessionId out) = Some i \<and> w_sessions w i \<noteq> None
      then (case dump J (so_payload out) of Inr t \<Rightarrow> [t] | Inl _ \<Rightarrow> []) else [])"
| "act_hands J i _ w = []"

definition label_hands :: "json_lib \<Rightarrow> nat \<Rightarrow> net_label \<Rightarrow> ('q, 'd) net \<Rightarrow> string list" where
  "label_hands J i l n =
     (case l of
        NWorker (LAct k rid now) \<Rightarrow>
          (case worker_state (n_config n) k of
             Some (Some (a, x # xs)) \<Rightarrow> act_hands J i x (n_world n)
           | _ \<Rightarrow> [])
      | _ \<Rightarrow> [])"

fun handed_to :: "('q, 'd) libs \<Rightarrow> nat \<Rightarrow> net_label list \<Rightarrow> ('q, 'd) net \<Rightarrow> string list" where
  "handed_to L i [] n = []"
| "handed_to L i (l # ls) n =
     label_hands (lib_json L) i l n @
     (case net_exec L l n of None \<Rightarrow> [] | Some n' \<Rightarrow> handed_to L i ls n')"

lemma act_hands_cases:
  assumes "exec_act L rid now x w = (r, w')"
  shows "w_sessions w' i = w_sessions w i \<and> act_hands (lib_json L) i x w = [] \<or>
    (\<exists>out s t. x = ADeliver out \<and> r = Inr () \<and> w_sessions w i = Some s \<and>
       w_sessions w' i = Some (WebSocketSession_send t s) \<and> act_hands (lib_json L) i x w = [t] \<and>
       w_transports w (so_sessionId out) = Some i \<and> dump (lib_json L) (so_payload out) = Inr t)"
proof (cases x)
  case (ADeliver out)
  show ?thesis
  proof (cases "w_transports w (so_sessionId out) = Some i \<and> w_sessions w i \<noteq> None")
    case True
    then obtain s where s: "w_sessions w i = Some s" by blast
    with True ADeliver assms show ?thesis
      by (cases "dump (lib_json L) (so_payload out)")
        (auto simp: SessionActor_deliver_def SessionActor_find_def)
  next
    case False
    with ADeliver assms have "w_sessions w' i = w_sessions w i"
      by (auto simp: SessionActor_deliver_def SessionActor_find_def split: option.splits sum.splits if_splits)
    with False ADeliver show ?thesis by auto
  qed
qed (use assms in \<open>auto split: prod.splits\<close>)

lemma label_hands_worker:
  assumes "exec_label L l (n_config n) = Some c'" and "is_worker l"
  shows "w_sessions (c_world c') i = w_sessions (n_world n) i \<and> label_hands (lib_json L) i (NWorker l) n = [] \<or>
    (\<exists>out s t. w_sessions (n_world n) i = Some s \<and> w_sessions (c_world c') i = Some (WebSocketSession_send t s) \<and>
       label_hands (lib_json L) i (NWorker l) n = [t] \<and> c_done c' = c_done (n_config n) @ [Handed out] \<and>
       w_transports (n_world n) (so_sessionId out) = Some i \<and> dump (lib_json L) (so_payload out) = Inr t)"
proof (cases l)
  case (LAct k rid now)
  with assms(1) obtain a x xs r w' where st: "worker_state (n_config n) k = Some (Some (a, x # xs))"
    and x: "exec_act L rid now x (n_world n) = (r, w')" and c': "c_world c' = w'"
    and ok: "r = Inr () \<longrightarrow> c_done c' = c_done (n_config n) @ act_effect x"
    by (auto split: option.splits prod.splits list.splits sum.splits)
  have h: "label_hands (lib_json L) i (NWorker l) n = act_hands (lib_json L) i x (n_world n)"
    by (simp add: label_hands_def LAct st)
  from act_hands_cases [OF x, of i] show ?thesis unfolding h c' using ok by fastforce
qed (use assms in \<open>auto simp: label_hands_def split: option.splits prod.splits list.splits\<close>)

text \<open>
  A session that exists has everything that was handed to it, in order, received by its client,
  queued or posted; what the client of any connection received is a prefix of that.
\<close>

definition handed_inv :: "json_lib \<Rightarrow> nat \<Rightarrow> string list \<Rightarrow> ('q, 'd) net \<Rightarrow> bool" where
  "handed_inv J i hs n \<longleftrightarrow>
     (\<forall>s. w_sessions (n_world n) i = Some s \<longrightarrow> received n i @ ws_writeQueue s @ ws_posted s = hs) \<and>
     (if i < length (n_peers n)
      then prefix (received n i) hs \<and> subseq hs (texts_for J (peer_id n i) (c_done (n_config n)))
      else hs = [])"

lemma handed_inv_worker:
  assumes "net_inv J n" and "J = lib_json L" and "handed_inv J i hs n"
    and "exec_label L l (n_config n) = Some c'" and "is_worker l"
  shows "handed_inv J i (hs @ label_hands J i (NWorker l) n) (n\<lparr>n_config := c'\<rparr>)"
proof -
  obtain xs where xs: "c_done c' = c_done (n_config n) @ xs" using worker_sessions(2) [OF assms(4,5)] by blast
  from label_hands_worker [OF assms(4,5), of i] show ?thesis
  proof (elim disjE exE conjE)
    assume "w_sessions (c_world c') i = w_sessions (n_world n) i" "label_hands (lib_json L) i (NWorker l) n = []"
    with assms(2,3) xs show ?thesis by (auto simp: handed_inv_def list_emb_append2)
  next
    fix out s t
    assume s: "w_sessions (n_world n) i = Some s" "w_sessions (c_world c') i = Some (WebSocketSession_send t s)"
      and h: "label_hands (lib_json L) i (NWorker l) n = [t]" and d: "c_done c' = c_done (n_config n) @ [Handed out]"
      and o: "w_transports (n_world n) (so_sessionId out) = Some i" "dump (lib_json L) (so_payload out) = Inr t"
    from assms(1) o(1) have i: "i < length (n_peers n)" "peer_id n i = so_sessionId out" by (auto simp: net_inv_def)
    have "texts_for J (peer_id n i) (c_done c') = texts_for J (peer_id n i) (c_done (n_config n)) @ [t]"
      using d o(2) i(2) assms(2) by (simp add: texts_for_def)
    moreover have "subseq (hs @ [t]) (texts_for J (peer_id n i) (c_done (n_config n)) @ [t])"
      using assms(3) i(1) by (intro list_emb_append_mono) (simp_all add: handed_inv_def)
    ultimately show ?thesis
      using assms(2,3) s h i(1) by (auto simp: handed_inv_def WebSocketSession_send_def)
  qed
qed

lemma handed_inv_connect:
  assumes "net_inv J n" and "handed_inv J i hs n"
  shows "handed_inv J i hs (net_connect ec n)"
proof (cases ec)
  case True
  then have "net_connect ec n = n" by (simp add: net_connect_def WebSocketListener_onAccept_def)
  with assms show ?thesis by simp
next
  case False
  then obtain sid l where n': "net_connect ec n = n\<lparr>n_config := put_session (length (n_peers n))
      (WebSocketSession_run (WebSocketSession_new sid)) (n_config n), n_listener := l,
      n_peers := n_peers n @ [(sid, [])]\<rparr>"
    by (auto simp: net_connect_def WebSocketListener_onAccept_def Let_def
        WebSocketSession_run_def WebSocketSession_new_def)
  consider "i < length (n_peers n)" | "i = length (n_peers n)" | "length (n_peers n) < i" by linarith
  then show ?thesis
    using assms
    by cases (auto simp: n' handed_inv_def nth_append WebSocketSession_run_def WebSocketSession_new_def
        net_inv_def session_ok_def split: if_splits)
qed

lemma handed_inv_handler:
  assumes "net_inv J n" and "handed_inv J i hs n" and "net_session n j = Some s"
    and "net_handler L j (s', effs) ts n = Some n'" and "own_call s effs"
    and "ts @ ws_writeQueue s' @ ws_posted s' = ws_writeQueue s @ ws_posted s"
  shows "handed_inv J i hs n'"
proof -
  from assms(4) obtain c where p: "performs L j effs (put_session j s' (n_config n)) = Some c"
    and n': "n' = n\<lparr>n_config := c, n_peers := (n_peers n)[j := (peer_id n j, received n j @ ts)]\<rparr>"
    by (auto simp: net_handler_def split: option.splits)
  note f = performs_frame(1,2) [OF assms(5) p, simplified]
  have j: "j < length (n_peers n)" "w_sessions (n_world n) j = Some s"
    using assms(1,3) by (auto simp: net_inv_def net_session_Some session_ok_def)
  show ?thesis
  proof (cases "i = j")
    case True
    with assms(2) j have hs: "hs = received n i @ ts @ ws_writeQueue s' @ ws_posted s'"
      and sub: "subseq hs (texts_for J (peer_id n i) (c_done (n_config n)))"
      by (auto simp: handed_inv_def assms(6))
    with True j(1) f show ?thesis by (auto simp: handed_inv_def n' split: if_splits)
  next
    case False
    with assms(2) f show ?thesis by (auto simp: handed_inv_def n')
  qed
qed

lemma handed_inv_exec:
  assumes "net_inv (lib_json L) n" and "handed_inv (lib_json L) i hs n" and "net_exec L l n = Some n'"
  shows "handed_inv (lib_json L) i (hs @ label_hands (lib_json L) i l n) n'"
proof (cases "(\<exists>w. l = NWorker w) \<or> (\<exists>ec. l = NConnect ec)")
  case True
  then show ?thesis
  proof
    assume "\<exists>w. l = NWorker w"
    then obtain w where "l = NWorker w" ..
    with assms(3) handed_inv_worker [OF assms(1) refl assms(2)] show ?thesis
      by (auto simp del: exec_label.simps split: if_splits)
  next
    assume "\<exists>ec. l = NConnect ec"
    then obtain ec where "l = NConnect ec" ..
    with assms(3) handed_inv_connect [OF assms(1,2)] show ?thesis by (auto simp: label_hands_def split: if_splits)
  qed
next
  case False
  then obtain j s s' effs ts where h: "net_session n j = Some s"
    "net_handler L j (s', effs) ts n = Some n'" "own_call s effs"
    "ws.one_write s \<Longrightarrow> ws.one_write s' \<and>
       ts @ ws_writeQueue s' @ ws_posted s' = ws_writeQueue s @ ws_posted s"
    using handler_cases [OF assms(3)] by metis
  have "ws.one_write s" using assms(1) h(1) by (auto simp: net_inv_def net_session_Some session_ok_def)
  moreover have "label_hands (lib_json L) i l n = []" using False by (cases l) (auto simp: label_hands_def)
  ultimately show ?thesis using handed_inv_handler [OF assms(1,2) h(1-3)] h(4) by simp
qed

lemma handed_inv_run:
  "net_run L ls n = Some n' \<Longrightarrow> net_inv (lib_json L) n \<Longrightarrow> handed_inv (lib_json L) i hs n \<Longrightarrow>
     handed_inv (lib_json L) i (hs @ handed_to L i ls n) n'"
proof (induction ls arbitrary: n hs)
  case (Cons l ls)
  then obtain n1 where e: "net_exec L l n = Some n1" and r: "net_run L ls n1 = Some n'"
    by (auto split: option.splits)
  from Cons.IH [OF r net_inv_exec [OF Cons.prems(2) e] handed_inv_exec [OF Cons.prems(2,3) e]] e
  show ?case by simp
qed simp

lemma handed_inv_reachable:
  "net_run L ls (net_init L cap k d) = Some n \<Longrightarrow>
     handed_inv (lib_json L) i (handed_to L i ls (net_init L cap k d)) n"
proof -
  assume r: "net_run L ls (net_init L cap k d) = Some n"
  have "handed_inv (lib_json L) i [] (net_init L cap k d)"
    by (simp add: handed_inv_def net_init_def init_config_def)
  from handed_inv_run [OF r net_inv_init this] show ?thesis by simp
qed

end
