(* ===== verification/Delivery.thy ===== *)
theory Delivery
  imports Net_History
begin

text \<open>
  What the connected server of \<open>Network\<close> guarantees to its clients: which texts reach a client, in
  which order and why, that texts handed to a working connection arrive, and the shape of these
  texts. The properties are evaluated on a server with two connections.
\<close>

section \<open>From a received text back to the frame that caused it\<close>

lemma effect_texts_handed:
  "t \<in> set (effect_texts J sid (Handed out)) \<Longrightarrow> so_sessionId out = sid \<and> dump J (so_payload out) = Inr t"
  by (cases "dump J (so_payload out)"; cases "so_sessionId out = sid"; simp)

lemma texts_for_member:
  assumes "t \<in> set (texts_for J sid es)"
  obtains out where "Handed out \<in> set es" "so_sessionId out = sid" "dump J (so_payload out) = Inr t"
proof -
  from assms obtain x where x: "x \<in> set es" "t \<in> set (effect_texts J sid x)"
    by (auto simp: texts_for_def)
  then obtain out where "x = Handed out"
    by (metis effect.exhaust effect_texts.simps(2) empty_iff list.set(1))
  with x effect_texts_handed that show thesis by blast
qed

lemma promised_list_member: "x \<in># promised_list J es \<Longrightarrow> \<exists>e \<in> set es. x \<in># promised_env J e"
proof (induction es)
  case (Cons e es)
  then show ?case by auto
qed simp

lemma handed_promised:
  assumes "Handed out \<in># promised_env J e" and "client_envelope sid e"
  shows "\<exists>ev. e = \<lparr>destination = message, payload = PSend ev\<rparr> \<and>
    (payload (chat_echo J ev) = POutgoing out \<or>
     sm_recipientId ev \<noteq> [] \<and> payload (chat_incoming J ev) = POutgoing out)"
  using assms
  by (cases "payload e"; cases e)
    (auto simp: client_envelope_def send_effects_def chat_echo_def chat_incoming_def split: if_splits)

lemma handed_origin:
  assumes "lockfree_queue (lib_queue L) cont nodes" and "steps L (init_config L cap k d) c"
    and "Handed out \<in> set (c_done c)"
  obtains ev where "\<lparr>destination = message, payload = PSend ev\<rparr> \<in> set (c_accepted c)"
    "payload (chat_echo (lib_json L) ev) = POutgoing out \<or>
     sm_recipientId ev \<noteq> [] \<and> payload (chat_incoming (lib_json L) ev) = POutgoing out"
proof -
  from run_inv_reachable [OF assms(1,2,1)] have "conserved (lib_json L) cont c" by (simp add: run_inv_def)
  with assms(3) have "Handed out \<in># promised_list (lib_json L) (c_accepted c)"
    unfolding conserved_def by (metis set_mset_mset union_iff)
  then obtain e where e: "e \<in> set (c_accepted c)" "Handed out \<in># promised_env (lib_json L) e"
    using promised_list_member by blast
  have "from_clients c"
    by (rule from_clients_steps [OF assms(2)]) (simp add: from_clients_def init_config_def)
  with e(1) obtain sid where "client_envelope sid e" by (auto simp: from_clients_def)
  from handed_promised [OF e(2) this] obtain ev where "e = \<lparr>destination = message, payload = PSend ev\<rparr>"
    "payload (chat_echo (lib_json L) ev) = POutgoing out \<or>
     sm_recipientId ev \<noteq> [] \<and> payload (chat_incoming (lib_json L) ev) = POutgoing out" by blast
  with e(1) show thesis by (intro that [of ev]) simp_all
qed

section \<open>The shape of what clients receive\<close>

definition string_member :: "json_lib \<Rightarrow> json \<Rightarrow> string \<Rightarrow> bool" where
  "string_member J j key = (case at_key J j key of Inr (JString _) \<Rightarrow> True | _ \<Rightarrow> False)"

definition outgoing_ok :: "json_lib \<Rightarrow> json \<Rightarrow> bool" where
  "outgoing_ok J j =
     (string_member J j ''chat_id'' \<and>
      (case at_key J j ''payload'' of
         Inl _ \<Rightarrow> False
       | Inr body \<Rightarrow> string_member J body ''text'' \<and>
           (at_key J j ''type'' = Inr (JString ''message_delivered'') \<or>
            at_key J j ''type'' = Inr (JString ''incoming_message'') \<and> string_member J body ''from'')))"

lemma init_list_object:
  assumes "nlohmann_json J"
  shows "init_list J [jpair J k v] = make_object [(k, v)]"
    and "init_list J [jpair J k v, jpair J k' v'] = make_object [(k, v), (k', v')]"
    and "init_list J [jpair J k v, jpair J k' v', jpair J k'' v''] = make_object [(k, v), (k', v'), (k'', v'')]"
  using init_list_pairs [OF assms, of "[(k, v)]"] init_list_pairs [OF assms, of "[(k, v), (k', v')]"]
    init_list_pairs [OF assms, of "[(k, v), (k', v'), (k'', v'')]"]
  by simp_all

lemma chat_outgoing_ok:
  assumes "nlohmann_json J"
    and "payload (chat_echo J ev) = POutgoing out \<or> payload (chat_incoming J ev) = POutgoing out"
  shows "outgoing_ok J (so_payload out)"
  using assms(2)
  by (auto simp: chat_echo_def chat_incoming_def outgoing_ok_def string_member_def
      init_list_object [OF assms(1)] at_key_make_object [OF assms(1)])

section \<open>A concrete server with two connections\<close>

definition net_table :: "(string \<times> json) list" where
  "net_table =
     [(''hello'', JObject [(''chat_id'', JString ''1''), (''payload'', JObject [(''text'', JString ''a'')]),
                         (''recipient_session_id'', JString ''2''), (''sender_id'', JString ''2''),
                         (''type'', JString ''send_message'')]),
      (''echo'', JObject [(''chat_id'', JString ''1''), (''payload'', JObject [(''text'', JString ''a'')]),
                        (''type'', JString ''message_delivered'')]),
      (''news'', JObject [(''chat_id'', JString ''1''),
                        (''payload'', JObject [(''from'', JString ''2''), (''text'', JString ''a'')]),
                        (''type'', JString ''incoming_message'')])]"

definition net_libs :: "(addr list \<times> nat, stored_message list) libs" where
  "net_libs = demo_libs\<lparr>lib_json := table_json net_table\<rparr>"

definition net_start :: "(addr list \<times> nat, stored_message list) net" where
  "net_start = net_init net_libs 4 1 []"

definition connect_two :: "net_label list" where
  "connect_two = [NConnect False, NAccept 0 False, NConnect True, NConnect False, NAccept 1 False]"

definition say_hello :: "net_label list" where
  "say_hello = NRead 0 False ''hello'' # map NWorker (visit 0 message 1 @ visit 0 chat 3 @ visit 0 session 1)"

lemma net_queue: "lockfree_queue (lib_queue net_libs) fst snd"
  by (simp add: net_libs_def demo_libs_def list_queue_ok)

lemma net_run_obtain:
  assumes "map_option f (net_run L ls n0) = Some v"
  obtains n where "net_run L ls n0 = Some n" and "f n = v"
  using assms by auto

section \<open>Properties\<close>

text \<open>
  C16. Every run of the server with its connections is a run of the actor runtime on exactly the
  frames its clients sent: whatever the listener, the sessions' completion handlers and the workers
  do, and in whatever order, the configuration they reach is one of those for which the runtime's
  guarantees are proved, and the events the dispatcher makes of the frames read, each once and under
  the id of its session, are the runtime's accepted and refused envelopes, both in the order in
  which the frames were read.
\<close>

theorem network_refines:
  assumes "net_run L ls (net_init L cap k d) = Some n"
  shows "steps L (init_config L cap k d) (n_config n) \<and>
    frame_events (lib_json L) (frames_read n ls) \<in> shuffles (c_accepted (n_config n)) (c_refused (n_config n))"
proof
  show "steps L (init_config L cap k d) (n_config n)"
    using net_run_steps [OF assms] by (simp add: net_init_def)
  show "frame_events (lib_json L) (frames_read n ls) \<in> shuffles (c_accepted (n_config n)) (c_refused (n_config n))"
    using takes_in_run [OF assms net_inv_init] by (simp add: takes_in_def net_init_def init_config_def)
qed

theorem network_refines_witness:
  "\<exists>n. net_run net_libs (connect_two @ say_hello) net_start = Some n \<and>
     c_refused (n_config n) = [] \<and> frames_read n (connect_two @ say_hello) = [(''1'', ''hello'')] \<and>
     c_accepted (n_config n) = frame_events (lib_json net_libs) [(''1'', ''hello'')] \<and>
     steps net_libs (init_config net_libs 4 1 []) (n_config n)"
proof -
  have "map_option (\<lambda>n. (c_refused (n_config n), frames_read n (connect_two @ say_hello)))
      (net_run net_libs (connect_two @ say_hello) net_start) = Some ([], [(''1'', ''hello'')])"
    by code_simp
  then obtain n where n: "net_run net_libs (connect_two @ say_hello) net_start = Some n"
    "(c_refused (n_config n), frames_read n (connect_two @ say_hello)) = ([], [(''1'', ''hello'')])"
    by (rule net_run_obtain)
  from network_refines [OF n(1) [unfolded net_start_def]] n show ?thesis by auto
qed

text \<open>
  C17. Texts reach the right client, in order and without loss or repetition. In every run, what the
  client of a connection has received is a prefix of the texts the session actor handed to that
  connection's session object, and as long as the object lives the rest are in its write queue
  and in the handlers it posted, in this order. The texts handed to it are, in order, among those
  the session actor handled for its session id (the others found no bound session), and no two of
  fewer than \<open>2^64\<close> connections share a session id.
\<close>

theorem received_in_order:
  assumes "net_run L ls (net_init L cap k d) = Some n" and "i < length (n_peers n)"
    and "handed_to L i ls (net_init L cap k d) = texts"
  shows "prefix (received n i) texts \<and>
    (\<forall>s. w_sessions (n_world n) i = Some s \<longrightarrow> received n i @ ws_writeQueue s @ ws_posted s = texts) \<and>
    subseq texts (texts_for (lib_json L) (peer_id n i) (c_done (n_config n))) \<and>
    (length (n_peers n) < 2 ^ 64 \<longrightarrow> distinct (map fst (n_peers n)))"
proof -
  have "map fst (n_peers n) = map nth_id [1 ..< Suc (length (n_peers n))]"
    using net_inv_reachable [OF assms(1)] by (simp add: net_inv_def)
  moreover have "distinct (map nth_id [1 ..< Suc m])" if "m < 2 ^ 64" for m
    unfolding distinct_map using that by (simp add: inj_on_def nth_id_def)
  ultimately have "length (n_peers n) < 2 ^ 64 \<longrightarrow> distinct (map fst (n_peers n))" by metis
  with handed_inv_reachable [OF assms(1), of i] assms(2,3) show ?thesis by (simp add: handed_inv_def)
qed

theorem received_in_order_witness:
  "\<exists>n. net_run net_libs (connect_two @ say_hello @ [NStrand 0, NWrite 0 False]) net_start = Some n \<and>
     n_peers n = [(''1'', [''echo'']), (''2'', [])] \<and>
     handed_to net_libs 0 (connect_two @ say_hello @ [NStrand 0, NWrite 0 False]) net_start = [''echo''] \<and>
     subseq [''echo''] (texts_for (lib_json net_libs) ''1'' (c_done (n_config n)))"
proof -
  have "map_option n_peers (net_run net_libs (connect_two @ say_hello @ [NStrand 0, NWrite 0 False]) net_start) =
      Some [(''1'', [''echo'']), (''2'', [])]"
    by code_simp
  then obtain n where n: "net_run net_libs (connect_two @ say_hello @ [NStrand 0, NWrite 0 False]) net_start = Some n"
    "n_peers n = [(''1'', [''echo'']), (''2'', [])]" by (rule net_run_obtain)
  have h: "handed_to net_libs 0 (connect_two @ say_hello @ [NStrand 0, NWrite 0 False]) net_start = [''echo'']"
    by code_simp
  from received_in_order [OF n(1) [unfolded net_start_def] _ h [unfolded net_start_def]] n h show ?thesis by auto
qed

text \<open>
  C18. Nothing else is ever sent to a client. Every text a client has received is either the
  confirmation of a \<open>send_message\<close> frame of its own session or the message of an accepted
  \<open>send_message\<close> frame that names its session as the recipient.
\<close>

theorem received_from_frames:
  assumes "lockfree_queue (lib_queue L) cont nodes"
    and "net_run L ls (net_init L cap k d) = Some n" and "i < length (n_peers n)"
    and "t \<in> set (received n i)"
  shows "\<exists>ev out. \<lparr>destination = message, payload = PSend ev\<rparr> \<in> set (c_accepted (n_config n)) \<and>
    (payload (chat_echo (lib_json L) ev) = POutgoing out \<and> sm_sessionId ev = peer_id n i \<or>
     payload (chat_incoming (lib_json L) ev) = POutgoing out \<and> sm_recipientId ev = peer_id n i) \<and>
    dump (lib_json L) (so_payload out) = Inr t"
proof -
  let ?J = "lib_json L"
  have s: "steps L (init_config L cap k d) (n_config n)"
    using net_run_steps [OF assms(2)] by (simp add: net_init_def)
  have "subseq (received n i) (texts_for ?J (peer_id n i) (c_done (n_config n)))"
    using net_inv_reachable [OF assms(2)] assms(3) by (simp add: net_inv_def)
  with assms(4) have "t \<in> set (texts_for ?J (peer_id n i) (c_done (n_config n)))"
    by (auto elim: list_emb_set)
  then obtain out where out: "Handed out \<in> set (c_done (n_config n))"
    "so_sessionId out = peer_id n i" "dump ?J (so_payload out) = Inr t"
    by (rule texts_for_member)
  from handed_origin [OF assms(1) s out(1)] obtain ev where
    "\<lparr>destination = message, payload = PSend ev\<rparr> \<in> set (c_accepted (n_config n))"
    "payload (chat_echo ?J ev) = POutgoing out \<or> payload (chat_incoming ?J ev) = POutgoing out" by blast
  with out(2,3) show ?thesis
    by (intro exI [of _ ev] exI [of _ out]) (auto simp: chat_echo_def chat_incoming_def)
qed

theorem received_from_frames_witness:
  "\<exists>n ev. net_run net_libs (connect_two @ say_hello @ [NStrand 0, NWrite 0 False]) net_start = Some n \<and>
     received n 0 = [''echo''] \<and>
     \<lparr>destination = message, payload = PSend ev\<rparr> \<in> set (c_accepted (n_config n)) \<and>
     (sm_sessionId ev = ''1'' \<or> sm_recipientId ev = ''1'')"
proof -
  have "map_option n_peers (net_run net_libs (connect_two @ say_hello @ [NStrand 0, NWrite 0 False]) net_start) =
      Some [(''1'', [''echo'']), (''2'', [])]"
    by code_simp
  then obtain n where n: "net_run net_libs (connect_two @ say_hello @ [NStrand 0, NWrite 0 False]) net_start = Some n"
    "n_peers n = [(''1'', [''echo'']), (''2'', [])]" by (rule net_run_obtain)
  from received_from_frames [OF net_queue n(1) [unfolded net_start_def], of 0 "''echo''"] n
  show ?thesis by auto
qed

text \<open>
  C19. What the session actor hands over arrives. When a worker handles an outgoing event for a
  session that is bound, alive and without a failed write, then from there on the session's own
  handlers (posted sends and successful writes) bring everything queued on the connection, with
  this text last, to the client, while the other clients receive nothing.
\<close>

theorem handed_text_arrives:
  assumes "net_run L ls (net_init L cap k d) = Some n" and "net_exec L (NWorker l) n = Some n1"
    and "c_done (n_config n1) = c_done (n_config n) @ [Handed out]"
    and "delivers (lib_json L) out i s t (n_world n)"
    and "ws_writes s = (if ws_writeQueue s = [] then [] else [hd (ws_writeQueue s)])"
  shows "\<exists>ls' n2. (\<forall>x \<in> set ls'. x = NStrand i \<or> x = NWrite i False) \<and> net_run L ls' n1 = Some n2 \<and>
    n_peers n2 = (n_peers n)[i := (so_sessionId out, received n i @ ws_writeQueue s @ ws_posted s @ [t])]"
proof -
  let ?s = "WebSocketSession_send t s"
  have "net_inv (lib_json L) n" by (rule net_inv_reachable [OF assms(1)])
  with assms(4) have i: "i < length (n_peers n)" "peer_id n i = so_sessionId out"
    by (auto simp: net_inv_def delivers_def)
  from assms(2) obtain c' where x: "exec_label L l (n_config n) = Some c'" "is_worker l"
    and n1: "n1 = n\<lparr>n_config := c'\<rparr>"
    by (auto simp del: exec_label.simps split: if_splits)
  have live: "net_session n1 i = Some ?s"
    using worker_hands_over [OF x _ assms(4)] assms(3) n1 by (simp add: net_session_Some)
  have "ws.writing ?s" using assms(5) by (simp add: ws.writing_def ws.send_view)
  then obtain es s' where e: "\<forall>e \<in> set es. internal e" and r:
    "out_run WebSocketSession_send WebSocketSession_posted ws_write_done ws_writes es ?s =
       Some (ws_writeQueue ?s @ ws_posted ?s, s')"
    using ws.flush by blast
  have "i < length (n_peers n1)" using i(1) n1 by simp
  from net_write_events [OF live e this r] obtain n2 where
    r2: "net_run L (map (write_label i) es) n1 = Some n2"
    and p2: "n_peers n2 = (n_peers n1)[i := (peer_id n1 i, received n1 i @ ws_writeQueue ?s @ ws_posted ?s)]"
    by blast
  have "\<forall>x \<in> set (map (write_label i) es). x = NStrand i \<or> x = NWrite i False"
    using e write_label_internal by fastforce
  moreover have "n_peers n2 = (n_peers n)[i := (so_sessionId out, received n i @ ws_writeQueue s @ ws_posted s @ [t])]"
    using i(2) by (simp add: p2 n1 ws.send_view)
  ultimately show ?thesis using r2 by blast
qed

theorem handed_text_arrives_witness:
  "\<exists>n1 ls' n2. net_run net_libs (connect_two @ butlast say_hello) net_start = Some n1 \<and>
     n_peers n1 = [(''1'', []), (''2'', [])] \<and> net_run net_libs ls' n1 = Some n2 \<and>
     n_peers n2 = [(''1'', [''echo'']), (''2'', [])]"
proof -
  let ?out = "\<lparr>so_sessionId = ''1'', so_payload = snd (net_table ! 1)\<rparr>"
  let ?s = "(WebSocketSession_new ''1'')\<lparr>ws_reading := True\<rparr>"
  have "map_option (\<lambda>n. (n_peers n, w_transports (n_world n) ''1'', w_sessions (n_world n) 0, c_done (n_config n),
        map_option (\<lambda>n1. (n_peers n1, c_done (n_config n1))) (net_exec net_libs (NWorker (LAct 0 9 100)) n)))
      (net_run net_libs (connect_two @ butlast (butlast say_hello)) net_start) =
    Some ([(''1'', []), (''2'', [])], Some 0, Some ?s, [],
      Some ([(''1'', []), (''2'', [])], [Handed ?out]))"
    by code_simp
  then obtain n where n: "net_run net_libs (connect_two @ butlast (butlast say_hello)) net_start = Some n"
    and v: "(n_peers n, w_transports (n_world n) ''1'', w_sessions (n_world n) 0, c_done (n_config n),
        map_option (\<lambda>n1. (n_peers n1, c_done (n_config n1))) (net_exec net_libs (NWorker (LAct 0 9 100)) n)) =
      ([(''1'', []), (''2'', [])], Some 0, Some ?s, [], Some ([(''1'', []), (''2'', [])], [Handed ?out]))"
    by (rule net_run_obtain)
  then obtain n1 where n1: "net_exec net_libs (NWorker (LAct 0 9 100)) n = Some n1"
    "c_done (n_config n1) = [Handed ?out]" "n_peers n1 = [(''1'', []), (''2'', [])]" by auto
  have d: "delivers (lib_json net_libs) ?out 0 ?s ''echo'' (n_world n)"
    using v by (simp add: delivers_def net_libs_def table_json_def net_table_def)
  have "butlast say_hello = butlast (butlast say_hello) @ [NWorker (LAct 0 9 100)]" by code_simp
  moreover have "net_run net_libs ((connect_two @ butlast (butlast say_hello)) @ [NWorker (LAct 0 9 100)]) net_start = Some n1"
    using n n1(1) by (subst net_run_append) (simp del: net_exec.simps)
  ultimately have r: "net_run net_libs (connect_two @ butlast say_hello) net_start = Some n1"
    by (metis append_assoc)
  from handed_text_arrives [OF n [unfolded net_start_def] n1(1) _ d] n1(2,3) v r show ?thesis
    by (auto simp: WebSocketSession_new_def)
qed

text \<open>
  C20. The shape of what clients receive. Every event handed to a session is a JSON object with a
  string \<open>chat_id\<close>, a \<open>payload\<close> object with a string \<open>text\<close>, and the type \<open>message_delivered\<close>, or the
  type \<open>incoming_message\<close> and then a string \<open>from\<close> in its payload.
\<close>

theorem outgoing_well_formed:
  assumes "lockfree_queue (lib_queue L) cont nodes" and "nlohmann_json (lib_json L)"
    and "steps L (init_config L cap k d) c" and "Handed out \<in> set (c_done c)"
  shows "outgoing_ok (lib_json L) (so_payload out)"
  using handed_origin [OF assms(1,3,4)] chat_outgoing_ok [OF assms(2)] by blast

theorem outgoing_well_formed_witness:
  "\<exists>c. steps net_libs (init_config net_libs 4 1 []) c \<and>
     Handed \<lparr>so_sessionId = ''1'', so_payload = snd (net_table ! 1)\<rparr> \<in> set (c_done c) \<and>
     outgoing_ok (lib_json net_libs) (snd (net_table ! 1))"
proof -
  let ?out = "\<lparr>so_sessionId = ''1'', so_payload = snd (net_table ! 1)\<rparr>"
  have "map_option (\<lambda>c. c_done c) (exec_labels net_libs
      (LFrame ''1'' ''hello'' # visit 0 message 1 @ visit 0 chat 3 @ visit 0 session 1)
      (init_config net_libs 4 1 [])) = Some [Handed ?out]"
    by code_simp
  then obtain c where c: "steps net_libs (init_config net_libs 4 1 []) c" "c_done c = [Handed ?out]"
    by (rule run_obtain)
  have "nlohmann_json (lib_json net_libs)" by (simp add: net_libs_def table_json_ok)
  from outgoing_well_formed [OF net_queue this c(1), of ?out] c show ?thesis by auto
qed

end
