(* ===== verification/Crash_Causes.thy ===== *)
theory Crash_Causes
  imports Delivery
begin

text \<open>
  Nothing in the program catches an exception of a worker or network thread, so one exception ends
  the process. Here every death of the actor runtime is traced back to a client: to a frame on
  which the dispatcher throws, or to an accepted \<open>send_message\<close> frame whose ids, texts or storage
  made a handler throw.
\<close>

section \<open>Work under way was asked for\<close>

lemma busy_promised:
  assumes "run_inv L cont c" and "i < length (c_busy c)" and "c_busy c ! i = Some (a, x # xs)"
    and "y \<in># promised_act (lib_json L) x"
  shows "y \<in># promised_list (lib_json L) (c_accepted c)"
proof -
  let ?J = "lib_json L"
  have "promised_busy ?J ((c_busy c)[i := None]) + promised_acts ?J (x # xs) = promised_busy ?J (c_busy c)"
    using promised_busy_update [OF assms(2), of ?J None] assms(3) by simp
  with assms(4) have "y \<in># pending ?J cont c" by (auto simp: pending_def dest: sym)
  moreover have "promised_list ?J (c_accepted c) = mset (c_done c) + pending ?J cont c + promised_list ?J (c_lost c)"
    using assms(1) by (simp add: run_inv_def conserved_def)
  ultimately show ?thesis by simp
qed

lemma promised_origin:
  assumes "steps L (init_config L cap k d) c" and "y \<in># promised_list (lib_json L) (c_accepted c)"
  obtains ev where "\<lparr>destination = message, payload = PSend ev\<rparr> \<in> set (c_accepted c)"
    and "y \<in># send_effects (lib_json L) ev"
proof -
  obtain e where e: "e \<in> set (c_accepted c)" "y \<in># promised_env (lib_json L) e"
    using promised_list_member assms(2) by blast
  have "from_clients c"
    by (rule from_clients_steps [OF assms(1)]) (simp add: from_clients_def init_config_def)
  with e(1) obtain sid where c: "client_envelope sid e" by (auto simp: from_clients_def)
  with e(2) obtain ev where ev: "destination e = message" "payload e = PSend ev"
    by (cases "payload e") (auto simp: client_envelope_def)
  then have "e = \<lparr>destination = message, payload = PSend ev\<rparr>" by simp
  with e ev show thesis by (intro that [of ev]) simp_all
qed

section \<open>Causes\<close>

text \<open>
  What can throw while the consequences of a \<open>send_message\<close> frame are handled: an id that is no
  UUID, the insert of its text into the database in the state \<open>d\<close>, or the printing of an answer.
\<close>

definition send_throws ::
  "('q, 'd) libs \<Rightarrow> uuid \<Rightarrow> time_point \<Rightarrow> SendMessageEvent \<Rightarrow> 'd \<Rightarrow> exn \<Rightarrow> bool" where
  "send_throws L rid now ev d x \<longleftrightarrow>
     string_generator (lib_uuid L) (sm_chatId ev) = Inl x \<or>
     string_generator (lib_uuid L) (sm_senderId ev) = Inl x \<or>
     (\<exists>c s d'. string_generator (lib_uuid L) (sm_chatId ev) = Inr c \<and>
        string_generator (lib_uuid L) (sm_senderId ev) = Inr s \<and>
        mr_create (lib_repo L) (Message_new rid c s (sm_text ev) now) d = (Inl x, d')) \<or>
     (\<exists>out. payload (chat_echo (lib_json L) ev) = POutgoing out \<and> dump (lib_json L) (so_payload out) = Inl x) \<or>
     (\<exists>out. sm_recipientId ev \<noteq> [] \<and> payload (chat_incoming (lib_json L) ev) = POutgoing out \<and>
        dump (lib_json L) (so_payload out) = Inl x)"

lemma store_throws:
  assumes "StorageActor_store U R rid now p d = (Inl x, d')"
  shows "string_generator U (pm_chatId p) = Inl x \<or> string_generator U (pm_senderId p) = Inl x \<or>
    (\<exists>c s. string_generator U (pm_chatId p) = Inr c \<and> string_generator U (pm_senderId p) = Inr s \<and>
       mr_create R (Message_new rid c s (pm_content p) now) d = (Inl x, d'))"
  using assms by (auto simp: StorageActor_store_def split: sum.splits prod.splits)

lemma effect_throws:
  assumes "y \<in># send_effects (lib_json L) ev" and "y \<in># promised_act (lib_json L) x"
    and "exec_act L rid now x w = (Inl e, w')"
  shows "send_throws L rid now ev (w_db w) e"
proof (cases x)
  case (APersist p)
  with assms(2) have "y = Persisted p" by simp
  with assms(1) have p: "p = persist_of ev"
    by (auto simp: send_effects_def persist_of_def chat_echo_def chat_incoming_def split: if_splits)
  from APersist assms(3) obtain d' where "StorageActor_store (lib_uuid L) (lib_repo L) rid now p (w_db w) = (Inl e, d')"
    by (auto split: prod.splits)
  from store_throws [OF this] show ?thesis unfolding send_throws_def by (auto simp: p persist_of_def)
next
  case (ADeliver out)
  with assms(2) have y: "y = Handed out" by simp
  from ADeliver assms(3) have "dump (lib_json L) (so_payload out) = Inl e"
    by (auto simp: SessionActor_deliver_def split: option.splits sum.splits)
  moreover from assms(1) y have "payload (chat_echo (lib_json L) ev) = POutgoing out \<or>
      sm_recipientId ev \<noteq> [] \<and> payload (chat_incoming (lib_json L) ev) = POutgoing out"
    by (auto simp: send_effects_def chat_echo_def chat_incoming_def split: if_splits)
  ultimately show ?thesis unfolding send_throws_def by blast
qed (use assms(3) in simp)

text \<open>The action of a worker that kills the process is caused by an accepted frame.\<close>

lemma worker_crash:
  assumes "lockfree_queue (lib_queue L) cont nodes" and "steps L (init_config L cap k d) c"
    and "exec_label L (LAct i rid now) c = Some c'" and "c_crashed c' = Some x"
  shows "\<exists>ev. \<lparr>destination = message, payload = PSend ev\<rparr> \<in> set (c_accepted c) \<and>
    send_throws L rid now ev (w_db (c_world c)) x"
proof -
  from assms(3,4) obtain a act xs w' where i: "i < length (c_busy c)" "c_busy c ! i = Some (a, act # xs)"
    and e: "exec_act L rid now act (c_world c) = (Inl x, w')"
    by (auto simp: worker_state_def split: option.splits prod.splits list.splits sum.splits if_splits)
  have "act \<noteq> APost env" for env using e by auto
  then obtain y where y: "y \<in># promised_act (lib_json L) act" by (cases act) auto
  from busy_promised [OF run_inv_reachable [OF assms(1,2,1)] i y] obtain ev where
    "\<lparr>destination = message, payload = PSend ev\<rparr> \<in> set (c_accepted c)" "y \<in># send_effects (lib_json L) ev"
    by (rule promised_origin [OF assms(2)])
  with effect_throws [OF _ y e] show ?thesis by blast
qed

text \<open>Which labels of the connected server can kill it, and with what.\<close>

lemma handler_alive:
  assumes "net_handler L i (s, effs) ts n = Some n'" and "c_crashed (n_config n) = None"
    and "effs = [] \<or> (\<exists>sid. effs \<in> {[BindTransport sid], [UnbindTransport sid]})"
  shows "c_crashed (n_config n') = None"
  using assms by (auto simp: net_handler_def)

lemma net_crash:
  assumes "net_inv (lib_json L) n" and "net_exec L l n = Some n'"
    and "c_crashed (n_config n) = None" and "c_crashed (n_config n') = Some x"
  shows "(\<exists>i raw. l = NRead i False raw \<and> dispatch_event (lib_json L) (peer_id n i) raw = Inl x) \<or>
    (\<exists>k rid now. l = NWorker (LAct k rid now) \<and> exec_label L (LAct k rid now) (n_config n) = Some (n_config n'))"
proof (cases l)
  case (NWorker w)
  with assms show ?thesis
    by (cases w) (auto simp: worker_state_def split: option.splits prod.splits list.splits sum.splits if_splits)
next
  case (NConnect ec)
  with assms show ?thesis by (auto simp: net_connect_def split: option.splits prod.splits)
next
  case (NAccept i ec)
  with assms(2) obtain s where "net_handler L i (WebSocketSession_onAccept ec s) [] n = Some n'"
    by (auto split: option.splits if_splits)
  with assms(3,4) show ?thesis
    by (auto simp: WebSocketSession_onAccept_def Let_def dest: handler_alive split: if_splits)
next
  case (NRead i ec raw)
  with assms(2) obtain s where s: "net_session n i = Some s"
    and h: "net_handler L i (WebSocketSession_onRead ec raw s) [] n = Some n'"
    by (auto split: option.splits if_splits)
  have sid: "ws_sessionId s = peer_id n i"
    using assms(1) s by (auto simp: net_inv_def net_session_Some session_ok_def)
  have ec: "\<not> ec" using h assms(3,4) by (auto simp: WebSocketSession_onRead_def Let_def net_handler_def)
  with h sid obtain s1 where f: "exec_label L (LFrame (peer_id n i) raw) (put_session i s1 (n_config n)) = Some (n_config n')"
    by (auto simp: WebSocketSession_onRead_def Let_def net_handler_def simp del: exec_label.simps split: option.splits)
  then have "map_option c_crashed (exec_label L (LFrame (peer_id n i) raw) (put_session i s1 (n_config n))) = Some (Some x)"
    using assms(4) by (simp del: exec_label.simps)
  then have "dispatch_event (lib_json L) (peer_id n i) raw = Inl x"
    using assms(3) by (auto split: sum.splits option.splits prod.splits)
  with NRead ec show ?thesis by simp
next
  case (NStrand i)
  with assms(2) obtain s where "net_handler L i (s, []) [] n = Some n'"
    by (auto split: option.splits)
  with assms(3,4) show ?thesis by (auto dest: handler_alive)
next
  case (NWrite i ec)
  with assms(2) obtain s r ts where "WebSocketSession_onWrite ec s = Some r" "net_handler L i r ts n = Some n'"
    by (auto split: option.splits)
  with assms(3,4) show ?thesis
    by (auto simp: WebSocketSession_onWrite_def Let_def dest: handler_alive split: list.splits if_splits)
qed

end
