(* ===== verification/Message_Log.thy ===== *)
theory Message_Log
  imports Guarantees Message_Order
begin

text \<open>
  The message table as the log of the actor pipeline. \<open>Actor_Run\<close> records which messages the
  storage actor has stored; here the record is compared with the contents of the repository,
  for every interleaving of storage calls with each other and with histories read over HTTP.
  The lemmas hold for any store that meets the contract of the port; the properties are stated
  for the Postgres repository.
\<close>

section \<open>Entries\<close>

text \<open>What a message to store becomes in the table, the random id aside.\<close>

definition log_entry :: "uuid_lib \<Rightarrow> StoragePersistMessage \<Rightarrow> uuid \<times> uuid \<times> string" where
  "log_entry U p = (text_uuid U (pm_chatId p), text_uuid U (pm_senderId p), pm_content p)"

definition ids_ok :: "uuid_lib \<Rightarrow> StoragePersistMessage \<Rightarrow> bool" where
  "ids_ok U p \<longleftrightarrow> is_ok (string_generator U (pm_chatId p)) \<and> is_ok (string_generator U (pm_senderId p))"

text \<open>
  The table holds what it held at the start, then one entry per stored message in the order of
  the storage calls; a call that ended the program with an exception may have left one more.
\<close>

definition logged ::
  "uuid_lib \<Rightarrow> ('d \<Rightarrow> stored_message list) \<Rightarrow> 'd \<Rightarrow> ('q, 'd) config \<Rightarrow> bool" where
  "logged U messages d0 c \<longleftrightarrow>
     (\<forall>p \<in> set (persisted (c_done c)). ids_ok U p) \<and>
     (\<exists>new. map snd (messages (w_db (c_world c))) =
          map snd (messages d0) @ map (log_entry U) (persisted (c_done c)) @ new \<and>
        length new \<le> (if c_crashed c = None then 0 else 1))"

lemma exec_act_db:
  "exec_act L rid now (APost e) w = (r, w') \<Longrightarrow> w_db w' = w_db w"
  "exec_act L rid now (ADeliver out) w = (r, w') \<Longrightarrow> w_db w' = w_db w"
  by (auto simp: SessionActor_deliver_def split: option.splits sum.splits)

lemma loggedI:
  assumes "logged U messages d0 c" and "c_crashed c = None"
    and "map snd (messages (w_db (c_world c'))) = map snd (messages (w_db (c_world c))) @ map (log_entry U) ps @ new"
    and "persisted (c_done c') = persisted (c_done c) @ ps" and "\<forall>p \<in> set ps. ids_ok U p"
    and "length new \<le> (if c_crashed c' = None then 0 else 1)"
  shows "logged U messages d0 c'"
  using assms unfolding logged_def by auto

section \<open>Stores that meet the contract\<close>

context reliable_message_store
begin

abbreviation message_port :: "'a message_repository" where
  "message_port \<equiv> \<lparr>mr_create = create, mr_getByChat = getByChat\<rparr>"

lemma store_logs:
  assumes "invar d" and "StorageActor_store U message_port rid now p d = (r, d')"
  shows "invar d'" and "r = Inr () \<Longrightarrow> ids_ok U p \<and> map snd (messages d') = map snd (messages d) @ [log_entry U p]"
    and "\<exists>new. map snd (messages d') = map snd (messages d) @ new \<and> length new \<le> 1"
proof -
  have "invar d' \<and> (r = Inr () \<longrightarrow> ids_ok U p \<and> map snd (messages d') = map snd (messages d) @ [log_entry U p]) \<and>
    (\<exists>new. map snd (messages d') = map snd (messages d) @ new \<and> length new \<le> 1)"
  proof (cases "ids_ok U p")
    case True
    then obtain c s where i: "string_generator U (pm_chatId p) = Inr c" "string_generator U (pm_senderId p) = Inr s"
      by (auto simp: ids_ok_def is_ok_iff)
    let ?m = "Message_new rid c s (pm_content p) now"
    obtain x where x: "create ?m d = (x, d')" and r: "r = Inr () \<longrightarrow> (\<exists>b. x = Inr b)"
      using assms(2) i by (auto simp: StorageActor_store_def split: sum.splits prod.splits)
    have e: "snd (stored ?m) = log_entry U p" using i by (simp add: stored_def Message_new_def log_entry_def text_uuid_def)
    have a: "invar d'" "messages d' \<in> {messages d, messages d @ [stored ?m]}"
      using create_adds [OF assms(1) x] by blast+
    have "map snd (messages d') = map snd (messages d) @ [log_entry U p]" if "r = Inr ()"
      using create_returns [OF assms(1)] x r that e by fastforce
    moreover from a(2) have "\<exists>new. map snd (messages d') = map snd (messages d) @ new \<and> length new \<le> 1"
    proof
      assume "messages d' = messages d"
      then show ?thesis by (intro exI [of _ "[]"]) simp
    next
      assume "messages d' \<in> {messages d @ [stored ?m]}"
      then show ?thesis by (intro exI [of _ "[log_entry U p]"]) (simp add: e)
    qed
    ultimately show ?thesis using a(1) True by blast
  next
    case False
    with assms show ?thesis
      by (auto simp: StorageActor_store_def ids_ok_def is_ok_def split: sum.splits prod.splits)
  qed
  then show "invar d'" "r = Inr () \<Longrightarrow> ids_ok U p \<and> map snd (messages d') = map snd (messages d) @ [log_entry U p]"
    "\<exists>new. map snd (messages d') = map snd (messages d) @ new \<and> length new \<le> 1" by blast+
qed

lemma act_logs:
  assumes "lib_repo L = message_port" and "invar (w_db w)" and "exec_act L rid now x w = (r, w')"
  shows "invar (w_db w')"
    and "r = Inr () \<Longrightarrow> (\<forall>p \<in> set (act_now x). ids_ok (lib_uuid L) p) \<and>
      map snd (messages (w_db w')) = map snd (messages (w_db w)) @ map (log_entry (lib_uuid L)) (act_now x)"
    and "\<exists>new. map snd (messages (w_db w')) = map snd (messages (w_db w)) @ new \<and> length new \<le> 1"
proof (atomize (full), cases x)
  case (APersist p)
  with assms obtain d' where "StorageActor_store (lib_uuid L) message_port rid now p (w_db w) = (r, d')" "w_db w' = d'"
    by (auto split: prod.splits)
  with store_logs [OF assms(2)] APersist
  show "invar (w_db w') \<and> (r = Inr () \<longrightarrow> (\<forall>p \<in> set (act_now x). ids_ok (lib_uuid L) p) \<and>
      map snd (messages (w_db w')) = map snd (messages (w_db w)) @ map (log_entry (lib_uuid L)) (act_now x)) \<and>
    (\<exists>new. map snd (messages (w_db w')) = map snd (messages (w_db w)) @ new \<and> length new \<le> 1)"
    by auto
qed (use assms exec_act_db in \<open>fastforce+\<close>)

lemma logged_wstep:
  assumes "lib_repo L = message_port" and "wstep L c c'" and "invar (w_db (c_world c))"
    and "logged (lib_uuid L) messages d0 c"
  shows "invar (w_db (c_world c')) \<and> logged (lib_uuid L) messages d0 c'"
  using assms(2)
proof (cases rule: wstep.cases)
  case (wact i a x xs rid now w')
  note l = act_logs [OF assms(1,3) wact(5)]
  have "logged (lib_uuid L) messages d0 c'"
    by (rule loggedI [OF assms(4) wact(2), of c' "act_now x" "[]"])
      (use l(2) wact(1) in \<open>simp_all add: persisted_act\<close>)
  with l(1) wact(1) show ?thesis by simp
qed (use assms(3,4) in \<open>simp_all add: logged_def\<close>)

lemma logged_step:
  assumes "lib_repo L = message_port" and "step L c c'" and "invar (w_db (c_world c))"
    and "logged (lib_uuid L) messages d0 c"
  shows "invar (w_db (c_world c')) \<and> logged (lib_uuid L) messages d0 c'"
  using assms(2)
proof (cases rule: step.cases)
  case worker
  then show ?thesis using logged_wstep [OF assms(1) _ assms(3,4)] by blast
next
  case (worker_throws i a x xs rid now e w')
  note l = act_logs [OF assms(1,3) worker_throws(5)]
  obtain new where n: "map snd (messages (w_db w')) = map snd (messages (w_db (c_world c))) @ new" "length new \<le> 1"
    using l(3) by blast
  have "logged (lib_uuid L) messages d0 c'"
    by (rule loggedI [OF assms(4) worker_throws(2), of c' "[]" new]) (use n worker_throws(1) in simp_all)
  with l(1) worker_throws(1) show ?thesis by simp
next
  case (query chatId limit now r d')
  then have "getByChat chatId limit now (w_db (c_world c)) = (r, d')" by (simp add: assms(1))
  from history [OF assms(3) this] query(1) assms(4) show ?thesis by (simp add: logged_def)
qed (use assms(3,4) in \<open>simp_all add: logged_def\<close>)

lemma logged_steps:
  assumes "lib_repo L = message_port" and "steps L (init_config L cap n d) c" and "invar d"
  shows "invar (w_db (c_world c)) \<and> logged (lib_uuid L) messages d c"
  using assms(2)
proof (induction rule: rtranclp_induct)
  case base
  show ?case using assms(3) by (simp add: logged_def init_config_def)
next
  case (step c1 c2)
  then show ?case using logged_step [OF assms(1) step(2)] by blast
qed

end

section \<open>What was asked for and what was stored\<close>

lemma count_persisted: "count (mset (persisted es)) p = count (mset es) (Persisted p)"
  by (induction es) (auto simp: persisted_def split: effect.splits)

lemma count_asked:
  assumes "\<forall>e \<in> set es. \<exists>sid. client_envelope sid e"
  shows "count (mset (asked es)) p = length (filter (asks_for p) es)"
  using assms
proof (induction es)
  case (Cons e es)
  then obtain sid where "client_envelope sid e" by auto
  then have "act_to message (APost e) = (case payload e of PSend ev \<Rightarrow> [persist_of ev] | _ \<Rightarrow> [])"
    by (cases "payload e") (auto simp: client_envelope_def)
  with Cons show ?case by (auto simp: asked_def asks_for_def split: ActorPayload.splits)
qed simp

lemma persisted_asked:
  assumes "lockfree_queue (lib_queue L) cont nodes" and "steps L (init_config L cap n d) c"
  shows "mset (persisted (c_done c)) \<subseteq># mset (asked (c_accepted c))"
    and "quiescent cont c \<Longrightarrow> c_lost c = [] \<Longrightarrow> mset (persisted (c_done c)) = mset (asked (c_accepted c))"
proof -
  let ?J = "lib_json L"
  have "from_clients c"
    by (rule from_clients_steps [OF assms(2)]) (simp add: from_clients_def init_config_def)
  then have a: "count (mset (asked (c_accepted c))) p = count (promised_list ?J (c_accepted c)) (Persisted p)" for p
    using count_asked count_promised_list by (simp add: from_clients_def)
  have c: "promised_list ?J (c_accepted c) = mset (c_done c) + pending ?J cont c + promised_list ?J (c_lost c)"
    using run_inv_reachable [OF assms(1,2,1)] by (simp add: run_inv_def conserved_def)
  show "mset (persisted (c_done c)) \<subseteq># mset (asked (c_accepted c))"
    by (simp add: subseteq_mset_def count_persisted a c)
  show "mset (persisted (c_done c)) = mset (asked (c_accepted c))" if "quiescent cont c" "c_lost c = []"
    using that pending_quiescent [of cont c] by (intro multiset_eqI) (simp add: count_persisted a c)
qed

section \<open>Properties\<close>

text \<open>
  C13. The message table is the log of the storage actor. In every reachable configuration of the
  runtime on the Postgres repository, whatever interleaves, the table holds what it held at the
  start followed by exactly one entry per message the storage actor stored, in the order of its
  calls, with chat, sender and text as the client's frame had them; only if the program has died
  may there be one entry more. Every stored message had well-formed ids and was asked for by an
  accepted frame, as often as it was stored.
\<close>

theorem message_log:
  assumes "lockfree_queue (lib_queue L) cont nodes" and "lib_repo L = pg_message_repository P (lib_uuid L)"
    and "messages_inv P (lib_uuid L) tbl s" and "steps L (init_config L cap n s) c"
  shows "\<exists>new. map snd (pg_messages (lib_uuid L) tbl (w_db (c_world c))) =
      map snd (pg_messages (lib_uuid L) tbl s) @ map (log_entry (lib_uuid L)) (persisted (c_done c)) @ new \<and>
    length new \<le> (if c_crashed c = None then 0 else 1) \<and>
    (\<forall>p \<in> set (persisted (c_done c)). ids_ok (lib_uuid L) p) \<and>
    mset (persisted (c_done c)) \<subseteq># mset (asked (c_accepted c)) \<and>
    messages_inv P (lib_uuid L) tbl (w_db (c_world c))"
  using pgl.logged_steps [OF assms(2) [unfolded pg_message_repository_def] assms(4,3)]
    persisted_asked(1) [OF assms(1,4)]
  unfolding logged_def by blast

definition log_libs :: "(addr list \<times> nat, (nat, mem_db) pg_state) libs" where
  "log_libs =
     \<lparr>lib_queue = list_queue,
      lib_json = table_json [(''m1'', demo_frame ''1'' ''a''), (''m2'', demo_frame ''1'' ''b''),
                             (''bad'', demo_frame ''?'' ''c'')],
      lib_uuid = hex_uuid, lib_repo = pg_message_repository memory_pg hex_uuid\<rparr>"

lemma log_queue: "lockfree_queue (lib_queue log_libs) fst snd"
  by (simp add: log_libs_def list_queue_ok)

lemma log_start: "messages_inv memory_pg hex_uuid mem_messages memory_state"
  by (simp add: messages_inv_def hex_uuid_ok memory_pg_messages memory_state_def mem_messages_def)

theorem message_log_witness:
  "\<exists>c. steps log_libs (init_config log_libs 4 1 memory_state) c \<and>
     map snd (pg_messages hex_uuid mem_messages (w_db (c_world c))) = [(1, 2, ''a'')]"
proof -
  have "map_option (\<lambda>c. (persisted (c_done c), c_crashed c))
      (exec_labels log_libs run_message (init_config log_libs 4 1 memory_state)) =
      Some ([demo_persist ''a''], None)"
    by code_simp
  then obtain c where c: "steps log_libs (init_config log_libs 4 1 memory_state) c"
    "(persisted (c_done c), c_crashed c) = ([demo_persist ''a''], None)"
    by (rule run_obtain)
  have u: "lib_uuid log_libs = hex_uuid" "lib_repo log_libs = pg_message_repository memory_pg (lib_uuid log_libs)"
    by (simp_all add: log_libs_def)
  have e: "log_entry hex_uuid (demo_persist ''a'') = (1, 2, ''a'')" by code_simp
  have "pg_messages hex_uuid mem_messages memory_state = []"
    by (simp add: pg_messages_def memory_state_def mem_messages_def)
  with message_log [OF log_queue u(2) log_start [folded u(1)] c(1)] c u(1) e show ?thesis
    by (intro exI [of _ c]) auto
qed

end
