(* ===== verification/Jwt_Service.thy ===== *)
theory Jwt_Service
  imports Json_Lib
begin

text \<open>
  \<open>core/security/jwt_service.{hpp,cpp}\<close>: issuing and checking the access tokens. The hash
  \<open>boost::uuids::detail::sha1\<close> and the JSON library are parameters; the clock is an argument.
\<close>

section \<open>The hash library\<close>

record 'h sha1_lib =
  sha1_init :: 'h
  process_bytes :: "string \<Rightarrow> 'h \<Rightarrow> 'h"
  get_digest :: "'h \<Rightarrow> 32 word list"

text \<open>Hashing a text in two pieces is hashing it at once; a digest has five words.\<close>

definition sha1_stream :: "'h sha1_lib \<Rightarrow> bool" where
  "sha1_stream H \<longleftrightarrow>
     (\<forall>a b h. process_bytes H b (process_bytes H a h) = process_bytes H (a @ b) h) \<and>
     (\<forall>h. length (get_digest H h) = 5)"

text \<open>A concrete streaming hash, to evaluate the service.\<close>

definition poly_hash :: "32 word sha1_lib" where
  "poly_hash =
     \<lparr>sha1_init = 7,
      process_bytes = (\<lambda>s h. fold (\<lambda>c h. 31 * h + of_nat (of_char c)) s h),
      get_digest = (\<lambda>h. [h, h + 1, h + 2, h + 3, h + 4])\<rparr>"

section \<open>JwtService\<close>

record JwtService =
  jwt_secret :: string

definition JwtService_new :: "string \<Rightarrow> JwtService" where
  "JwtService_new secret = \<lparr>jwt_secret = secret\<rparr>"

definition toHex :: "32 word \<Rightarrow> string" where
  "toHex value = to_hex (unat value)"

definition toCompactJson :: "json_lib \<Rightarrow> json \<Rightarrow> string" where
  "toCompactJson J value = dump_replace J value"

definition digest_text :: "32 word list \<Rightarrow> string" where
  "digest_text digest = concat (map toHex digest)"

definition JwtService_sign :: "'h sha1_lib \<Rightarrow> JwtService \<Rightarrow> string \<Rightarrow> string" where
  "JwtService_sign H svc data =
     (let hasher = process_bytes H (jwt_secret svc) (process_bytes H data (sha1_init H))
      in digest_text (get_digest H hasher))"

definition jwt_header :: "json_lib \<Rightarrow> json" where
  "jwt_header J = init_list J [jpair J ''alg'' (JString ''HS1''), jpair J ''typ'' (JString ''JWT'')]"

text \<open>
  \<open>now\<close> is a signed 64-bit count of seconds; in \<open>now + ttlSeconds\<close> it is converted to
  \<open>std::uint64_t\<close>, so the sum wraps.
\<close>

definition jwt_payload :: "json_lib \<Rightarrow> int \<Rightarrow> string \<Rightarrow> 64 word \<Rightarrow> json" where
  "jwt_payload J now userId ttlSeconds =
     init_list J [jpair J ''sub'' (JString userId), jpair J ''iat'' (JInt now),
                  jpair J ''exp'' (JInt (uint (word_of_int now + ttlSeconds)))]"

definition JwtService_issueToken ::
  "'h sha1_lib \<Rightarrow> json_lib \<Rightarrow> JwtService \<Rightarrow> int \<Rightarrow> string \<Rightarrow> 64 word \<Rightarrow> string" where
  "JwtService_issueToken H J svc now userId ttlSeconds =
     (let raw = toCompactJson J (jwt_header J) @ ''.'' @
                toCompactJson J (jwt_payload J now userId ttlSeconds)
      in raw @ ''.'' @ JwtService_sign H svc raw)"

definition JwtService_validateToken :: "'h sha1_lib \<Rightarrow> JwtService \<Rightarrow> string \<Rightarrow> bool result" where
  "JwtService_validateToken H svc token =
     (let lastDot = str_rfind token (CHR ''.'') in
      if lastDot = npos then Inr False
      else rbind (substr token 0 lastDot) (\<lambda>data.
           rbind (substr token (lastDot + 1) npos) (\<lambda>signature.
             Inr (JwtService_sign H svc data = signature))))"

definition JwtService_extractUserId :: "json_lib \<Rightarrow> string \<Rightarrow> string result" where
  "JwtService_extractUserId J token =
     (let firstDot = str_find token (CHR ''.''); lastDot = str_rfind token (CHR ''.'') in
      if firstDot = npos \<or> lastDot = npos \<or> firstDot = lastDot then Inr []
      else rbind (substr token (firstDot + 1) (lastDot - firstDot - 1)) (\<lambda>payloadRaw.
           let payload = parse_noexcept J payloadRaw in
           if \<not> is_object J payload then Inr []
           else value_str J payload ''sub'' []))"

section \<open>The token service interface\<close>

text \<open>
  What the HTTP routes rely on: a token issued under admissible circumstances validates and
  names its user. \<open>fits\<close> collects the circumstances.
\<close>

locale token_service =
  fixes issue :: "int \<Rightarrow> string \<Rightarrow> 64 word \<Rightarrow> string"
    and validate :: "string \<Rightarrow> bool result"
    and subject_of :: "string \<Rightarrow> string result"
    and fits :: "int \<Rightarrow> string \<Rightarrow> 64 word \<Rightarrow> bool"
  assumes issue_valid: "fits now u ttl \<Longrightarrow> validate (issue now u ttl) = Inr True"
    and issue_subject: "fits now u ttl \<Longrightarrow> subject_of (issue now u ttl) = Inr u"
begin

definition refresh :: "int \<Rightarrow> 64 word \<Rightarrow> string \<Rightarrow> string option result" where
  "refresh now ttl token =
     rbind (validate token) (\<lambda>ok.
       if \<not> ok then Inr None else rbind (subject_of token) (\<lambda>u. Inr (Some (issue now u ttl))))"

lemma refresh_issued: "fits now u ttl \<Longrightarrow> refresh now' ttl' (issue now u ttl) = Inr (Some (issue now' u ttl'))"
  by (simp add: refresh_def issue_valid issue_subject)

lemma refresh_subject:
  "fits now u ttl \<Longrightarrow> fits now' u ttl' \<Longrightarrow> refresh now' ttl' (issue now u ttl) = Inr (Some t) \<Longrightarrow>
     subject_of t = Inr u \<and> validate t = Inr True"
  by (simp add: refresh_issued) (auto simp: issue_valid issue_subject)

lemma issue_injective: "fits now u ttl \<Longrightarrow> fits now' u' ttl' \<Longrightarrow> issue now u ttl = issue now' u' ttl' \<Longrightarrow> u = u'"
  using issue_subject by (metis sum.inject(2))

end

section \<open>Splitting a text at a dot\<close>

lemma substr_before: "std_string (xs @ ys) \<Longrightarrow> substr (xs @ ys) 0 (of_nat (length xs)) = Inr xs"
  by (simp add: substr_def std_string_def)

lemma unat_Suc_index: "std_string (xs @ c # ys) \<Longrightarrow> unat (of_nat (length xs) + 1 :: size_t) = Suc (length xs)"
  using unat_of_nat64 [of "Suc (length xs)"] by (simp add: std_string_def add.commute)

lemma substr_after:
  "std_string (xs @ c # ys) \<Longrightarrow> substr (xs @ c # ys) (of_nat (length xs) + 1) npos = Inr ys"
  by (simp add: substr_def unat_Suc_index std_string_def)

lemma substr_between:
  assumes "std_string (xs @ c # ys @ d # zs)"
  shows "substr (xs @ c # ys @ d # zs) (of_nat (length xs) + 1)
           (of_nat (length xs + 1 + length ys) - of_nat (length xs) - 1) = Inr ys"
proof -
  have "(of_nat (length xs + 1 + length ys) - of_nat (length xs) - 1 :: size_t) = of_nat (length ys)"
    by simp
  moreover have "unat (of_nat (length ys) :: size_t) = length ys"
    using assms by (intro unat_of_nat64) (simp add: std_string_def)
  ultimately show ?thesis
    using unat_Suc_index [OF assms] by (simp add: substr_def del: of_nat_add)
qed

lemma str_rfind_last:
  "c \<notin> set ys \<Longrightarrow> str_rfind (xs @ c # ys) c = of_nat (length xs)"
  by (simp add: str_rfind_def)

lemma str_find_first:
  "c \<notin> set xs \<Longrightarrow> str_find (xs @ c # ys) c = of_nat (length xs)"
  by (simp add: str_find_def)

lemma index_neq_npos: "std_string (xs @ c # ys) \<Longrightarrow> (of_nat (length xs) :: size_t) \<noteq> npos"
  by (rule of_nat_neq_npos) (simp add: std_string_def)

section \<open>Signatures\<close>

lemma hex_no_dot: "CHR ''.'' \<notin> set (toHex w)"
  using radix_digits_set [of 16 "unat w"] by (auto simp: toHex_def to_hex_def)

lemma sign_no_dot: "CHR ''.'' \<notin> set (JwtService_sign H svc data)"
  by (auto simp: JwtService_sign_def digest_text_def hex_no_dot Let_def)

lemma toHex_length: "1 \<le> length (toHex w) \<and> length (toHex w) \<le> 8"
proof -
  have "unat w < 2 ^ LENGTH(32)" by (rule unsigned_less)
  then have "length (radix_digits 16 (unat w)) \<le> Suc 7" by (intro radix_digits_length) simp_all
  then show ?thesis by (simp add: toHex_def to_hex_def Suc_leI)
qed

lemma digest_text_length: "length ds \<le> length (digest_text ds) \<and> length (digest_text ds) \<le> 8 * length ds"
proof (induction ds)
  case (Cons w ds)
  with toHex_length [of w] show ?case by (simp add: digest_text_def)
qed (simp add: digest_text_def)

lemma sign_length:
  assumes "sha1_stream H"
  shows "5 \<le> length (JwtService_sign H svc data) \<and> length (JwtService_sign H svc data) \<le> 40"
proof -
  let ?d = "get_digest H (process_bytes H (jwt_secret svc) (process_bytes H data (sha1_init H)))"
  have "length ?d = 5" using assms by (simp add: sha1_stream_def)
  with digest_text_length [of ?d] show ?thesis by (simp add: JwtService_sign_def Let_def)
qed

lemma validate_split:
  assumes "std_string (xs @ CHR ''.'' # ys)" and "CHR ''.'' \<notin> set ys"
  shows "JwtService_validateToken H svc (xs @ CHR ''.'' # ys) = Inr (JwtService_sign H svc xs = ys)"
  using assms substr_before [OF assms(1)] substr_after [OF assms(1)] index_neq_npos [OF assms(1)]
  by (simp add: JwtService_validateToken_def str_rfind_last Let_def)

lemma validateToken_iff:
  assumes "std_string token"
  shows "JwtService_validateToken H svc token =
    Inr (\<exists>data. token = data @ ''.'' @ JwtService_sign H svc data)"
proof (cases "last_index_of (CHR ''.'') token")
  case None
  then have "\<nexists>data. token = data @ ''.'' @ JwtService_sign H svc data" by auto
  moreover from None have "str_rfind token (CHR ''.'') = npos" by (simp only: str_rfind_def option.case)
  ultimately show ?thesis by (simp add: JwtService_validateToken_def Let_def)
next
  case (Some i)
  define xs ys where "xs = take i token" and "ys = drop (Suc i) token"
  with last_index_of_split [OF Some] have t: "token = xs @ CHR ''.'' # ys" and ys: "CHR ''.'' \<notin> set ys"
    by auto
  have "(\<exists>data. token = data @ ''.'' @ JwtService_sign H svc data) \<longleftrightarrow> JwtService_sign H svc xs = ys"
  proof
    assume "\<exists>data. token = data @ ''.'' @ JwtService_sign H svc data"
    then obtain data where d: "token = data @ CHR ''.'' # JwtService_sign H svc data" by auto
    have "last_index_of (CHR ''.'') token = Some (length data)"
      unfolding d by (rule last_index_of_append [OF sign_no_dot])
    with Some d show "JwtService_sign H svc xs = ys" by (simp add: xs_def ys_def)
  qed (use t in auto)
  then show ?thesis using validate_split [of xs ys H svc] t ys assms by simp
qed

lemma poly_hash_ok: "sha1_stream poly_hash"
  by (simp add: sha1_stream_def poly_hash_def)

section \<open>JwtService provides the interface\<close>

text \<open>
  Circumstances under which a token works: the text of the header is the documented one, the
  payload's text reads back as the payload (the user id is valid UTF-8), and the token is no
  longer than a \<open>std::string\<close> can be.
\<close>

definition jwt_fits ::
  "'h sha1_lib \<Rightarrow> json_lib \<Rightarrow> JwtService \<Rightarrow> int \<Rightarrow> string \<Rightarrow> 64 word \<Rightarrow> bool" where
  "jwt_fits H J svc now u ttl \<longleftrightarrow>
     nlohmann_json J \<and> CHR ''.'' \<notin> set (dump_replace J (jwt_header J)) \<and>
     json_roundtrips J (jwt_payload J now u ttl) \<and> std_string (JwtService_issueToken H J svc now u ttl)"

lemma jwt_payload_object:
  "nlohmann_json J \<Longrightarrow> jwt_payload J now u ttl =
     make_object [(''sub'', JString u), (''iat'', JInt now), (''exp'', JInt (uint (word_of_int now + ttl)))]"
  using init_list_pairs [of J "[(''sub'', JString u), (''iat'', JInt now), (''exp'', JInt (uint (word_of_int now + ttl)))]"]
  by (simp add: jwt_payload_def)

lemma issue_valid_raw:
  assumes "std_string (JwtService_issueToken H J svc now u ttl)"
  shows "JwtService_validateToken H svc (JwtService_issueToken H J svc now u ttl) = Inr True"
proof -
  define raw where "raw = toCompactJson J (jwt_header J) @ ''.'' @ toCompactJson J (jwt_payload J now u ttl)"
  have t: "JwtService_issueToken H J svc now u ttl = raw @ CHR ''.'' # JwtService_sign H svc raw"
    by (simp add: JwtService_issueToken_def raw_def Let_def)
  show ?thesis using validate_split [OF _ sign_no_dot, of raw H svc raw H svc] assms by (simp add: t)
qed

lemma extract_issued:
  assumes "jwt_fits H J svc now u ttl"
  shows "JwtService_extractUserId J (JwtService_issueToken H J svc now u ttl) = Inr u"
proof -
  let ?h = "dump_replace J (jwt_header J)" and ?p = "dump_replace J (jwt_payload J now u ttl)"
  obtain sig where t: "JwtService_issueToken H J svc now u ttl = ?h @ CHR ''.'' # ?p @ CHR ''.'' # sig"
    and sig: "CHR ''.'' \<notin> set sig"
    using sign_no_dot by (fastforce simp: JwtService_issueToken_def toCompactJson_def Let_def)
  from assms have J: "nlohmann_json J" and h: "CHR ''.'' \<notin> set ?h"
    and p: "parse_noexcept J ?p = jwt_payload J now u ttl"
    and len: "std_string (?h @ CHR ''.'' # ?p @ CHR ''.'' # sig)"
    by (auto simp: jwt_fits_def json_roundtrips_def t)
  have first: "str_find (?h @ CHR ''.'' # ?p @ CHR ''.'' # sig) (CHR ''.'') = of_nat (length ?h)"
    by (rule str_find_first [OF h])
  have last: "str_rfind (?h @ CHR ''.'' # ?p @ CHR ''.'' # sig) (CHR ''.'') = of_nat (length ?h + 1 + length ?p)"
    using str_rfind_last [OF sig, of "?h @ CHR ''.'' # ?p"] by (simp add: add.commute)
  have "(of_nat (length ?h) :: size_t) \<noteq> npos" using len by (rule index_neq_npos)
  moreover have "(of_nat (length ?h + 1 + length ?p) :: size_t) \<noteq> npos"
    using index_neq_npos [of "?h @ CHR ''.'' # ?p" "CHR ''.''" sig] len by (simp add: add.commute)
  moreover have "(of_nat (length ?h) :: size_t) \<noteq> of_nat (length ?h + 1 + length ?p)"
    using len unat_of_nat64 [of "length ?h"] unat_of_nat64 [of "length ?h + 1 + length ?p"]
    by (auto simp: std_string_def simp del: of_nat_add unat_of_nat64)
  moreover have "value_str J (jwt_payload J now u ttl) ''sub'' [] = Inr u"
    using J by (simp add: jwt_payload_object value_str_make_object)
  moreover have "is_object J (jwt_payload J now u ttl)"
    using J by (simp add: jwt_payload_object is_object_make_object)
  ultimately show ?thesis
    using substr_between [OF len] p
    by (simp add: JwtService_extractUserId_def t first last Let_def del: of_nat_add)
qed

interpretation jwt: token_service
  "JwtService_issueToken H J svc" "JwtService_validateToken H svc" "JwtService_extractUserId J"
  "jwt_fits H J svc"
  for H J svc
  by unfold_locales (auto simp: jwt_fits_def issue_valid_raw intro: extract_issued [unfolded jwt_fits_def])

section \<open>Properties\<close>

text \<open>
  C26. Round trip of a token: a token issued for a user, at any time and with any lifetime,
  validates and gives back exactly that user id, dots, quotes and other separators in the id
  included.
\<close>

theorem jwt_roundtrip:
  assumes "nlohmann_json J" and "dump_replace J (jwt_header J) = ''{\"alg\":\"HS1\",\"typ\":\"JWT\"}''"
    and "json_roundtrips J (jwt_payload J now u ttl)"
    and "std_string (JwtService_issueToken H J svc now u ttl)"
  shows "JwtService_validateToken H svc (JwtService_issueToken H J svc now u ttl) = Inr True \<and>
         JwtService_extractUserId J (JwtService_issueToken H J svc now u ttl) = Inr u"
proof -
  have "jwt_fits H J svc now u ttl" using assms by (simp add: jwt_fits_def)
  then show ?thesis using jwt.issue_valid jwt.issue_subject by blast
qed

definition demo_jwt_json :: json_lib where
  "demo_jwt_json = table_json
     [(''{\"alg\":\"HS1\",\"typ\":\"JWT\"}'', JObject [(''alg'', JString ''HS1''), (''typ'', JString ''JWT'')]),
      (''{\"exp\":3700,\"iat\":100,\"sub\":\"a.b\"}'',
       JObject [(''exp'', JInt 3700), (''iat'', JInt 100), (''sub'', JString ''a.b'')])]"

lemma demo_jwt_json_ok:
  "nlohmann_json demo_jwt_json"
  "dump_replace demo_jwt_json (jwt_header demo_jwt_json) = ''{\"alg\":\"HS1\",\"typ\":\"JWT\"}''"
  "json_roundtrips demo_jwt_json (jwt_payload demo_jwt_json 100 ''a.b'' 3600)"
  "std_string (JwtService_issueToken poly_hash demo_jwt_json (JwtService_new ''key'') 100 ''a.b'' 3600)"
proof -
  show "nlohmann_json demo_jwt_json" by (simp add: demo_jwt_json_def table_json_ok)
  show h: "dump_replace demo_jwt_json (jwt_header demo_jwt_json) = ''{\"alg\":\"HS1\",\"typ\":\"JWT\"}''"
    by code_simp
  show "json_roundtrips demo_jwt_json (jwt_payload demo_jwt_json 100 ''a.b'' 3600)" by code_simp
  have p: "dump_replace demo_jwt_json (jwt_payload demo_jwt_json 100 ''a.b'' 3600) =
      ''{\"exp\":3700,\"iat\":100,\"sub\":\"a.b\"}''" by code_simp
  have "length (JwtService_sign poly_hash svc d) \<le> 40" for svc d by (simp add: sign_length poly_hash_ok)
  from order.strict_trans1 [OF this] show
    "std_string (JwtService_issueToken poly_hash demo_jwt_json (JwtService_new ''key'') 100 ''a.b'' 3600)"
    by (simp add: std_string_def JwtService_issueToken_def toCompactJson_def h p Let_def)
qed

theorem jwt_roundtrip_witness:
  "JwtService_extractUserId demo_jwt_json
     (JwtService_issueToken poly_hash demo_jwt_json (JwtService_new ''key'') 100 ''a.b'' 3600) = Inr ''a.b''"
  using jwt_roundtrip [OF demo_jwt_json_ok] by blast

text \<open>
  C27. What \<open>validateToken\<close> accepts: exactly the texts that consist of some data, a dot and the
  signature of the data. No other property of the data plays a role; in particular neither the
  \<open>exp\<close> member nor the shape of header and payload is looked at, so a token never expires.
\<close>

theorem validateToken_accepts:
  assumes "std_string token"
  shows "JwtService_validateToken H svc token =
    Inr (\<exists>data. token = data @ ''.'' @ JwtService_sign H svc data)"
  by (rule validateToken_iff [OF assms])

theorem validateToken_accepts_witness:
  "JwtService_validateToken poly_hash (JwtService_new ''key'')
     (''not json'' @ ''.'' @ JwtService_sign poly_hash (JwtService_new ''key'') ''not json'') = Inr True"
proof -
  have "std_string (''not json'' @ ''.'' @ JwtService_sign poly_hash (JwtService_new ''key'') ''not json'')"
    using sign_length [OF poly_hash_ok, of "JwtService_new ''key''" "''not json''"]
    by (simp add: std_string_def)
  from validateToken_accepts [OF this, of poly_hash "JwtService_new ''key''"] show ?thesis
    by (rule trans) (simp only: sum.inject, blast)
qed

text \<open>
  The signature hashes the data followed by the secret with nothing between them: only the
  concatenation matters, so a signature made with one secret is the signature of longer data
  with a secret whose beginning was moved into the data.
\<close>

lemma sign_boundary:
  assumes "sha1_stream H"
  shows "JwtService_sign H (JwtService_new (s @ t)) data = JwtService_sign H (JwtService_new t) (data @ s)"
  using assms by (simp add: JwtService_sign_def JwtService_new_def sha1_stream_def Let_def)

text \<open>
  The five words of a digest are printed in hexadecimal without leading zeros. The text has
  between 5 and 40 characters, and different digests can have the same text, so a signature does
  not determine the hash it stands for.
\<close>

theorem sign_text:
  assumes "sha1_stream H"
  shows "5 \<le> length (JwtService_sign H svc data) \<and> length (JwtService_sign H svc data) \<le> 40 \<and>
    (\<exists>d d'. length d = 5 \<and> length d' = 5 \<and> d \<noteq> d' \<and> digest_text d = digest_text d')"
proof -
  have "digest_text [0x1, 0x11, 0, 0, 0] = digest_text [0x11, 0x1, 0, 0, 0]" by code_simp
  then have "\<exists>d d'. length d = 5 \<and> length d' = 5 \<and> d \<noteq> d' \<and> digest_text d = digest_text d'"
    by (intro exI [of _ "[0x1, 0x11, 0, 0, 0]"] exI [of _ "[0x11, 0x1, 0, 0, 0]"]) simp
  with sign_length [OF assms] show ?thesis by blast
qed

theorem sign_text_witness: "5 \<le> length (JwtService_sign poly_hash (JwtService_new ''key'') ''data'')"
  using sign_text [OF poly_hash_ok, of "JwtService_new ''key''" "''data''"] by blast

end
