(* ===== verification/Http_Router.thy ===== *)
theory Http_Router
  imports Jwt_Service Use_Cases
begin

text \<open>
  \<open>infrastructure/network/http/http_router.{hpp,cpp}\<close>: the HTTP interface. A request has the
  parts the router looks at; a header field that is absent reads as the empty string. Clock
  readings are arguments: \<open>now\<close> for tokens, \<open>stamp\<close> for entities read from the repository.
\<close>

section \<open>Requests and responses\<close>

datatype verb = get_verb | post_verb | other_verb

record http_request =
  rq_method :: verb
  rq_target :: string
  rq_authorization :: string
  rq_body :: string

record http_response =
  rs_status :: nat
  rs_content_type :: string
  rs_body :: string

definition json_response :: "json_lib \<Rightarrow> nat \<Rightarrow> json \<Rightarrow> http_response result" where
  "json_response J status j =
     rbind (dump J j) (\<lambda>text.
       Inr \<lparr>rs_status = status, rs_content_type = ''application/json'', rs_body = text\<rparr>)"

definition jfield :: "json_lib \<Rightarrow> string \<Rightarrow> string \<Rightarrow> json" where
  "jfield J k v = init_list J [jpair J k (JString v)]"

section \<open>The routes\<close>

definition route_login ::
  "'h sha1_lib \<Rightarrow> json_lib \<Rightarrow> JwtService \<Rightarrow> int \<Rightarrow> http_request \<Rightarrow> http_response result" where
  "route_login H J svc now request =
     (let body = parse_noexcept J (rq_body request) in
      rbind (value_str J body ''user_id'' []) (\<lambda>userId.
        json_response J 200 (jfield J ''access_token'' (JwtService_issueToken H J svc now userId 3600))))"

definition bearer_token :: "string \<Rightarrow> string result" where
  "bearer_token auth = substr auth (str_find auth (CHR '' '') + 1) npos"

definition route_refresh ::
  "'h sha1_lib \<Rightarrow> json_lib \<Rightarrow> JwtService \<Rightarrow> int \<Rightarrow> http_request \<Rightarrow> http_response result" where
  "route_refresh H J svc now request =
     rbind (bearer_token (rq_authorization request)) (\<lambda>token.
     rbind (JwtService_validateToken H svc token) (\<lambda>valid.
       if \<not> valid then json_response J 401 (jfield J ''error'' ''invalid token'')
       else rbind (JwtService_extractUserId J token) (\<lambda>userId.
         json_response J 200 (JObject [(''access_token'', JString (JwtService_issueToken H J svc now userId 3600))]))))"

definition route_user :: "json_lib \<Rightarrow> http_request \<Rightarrow> http_response result" where
  "route_user J request =
     rbind (substr (rq_target request) 6 npos) (\<lambda>i. json_response J 200 (jfield J ''id'' i))"

definition history_chat_id :: "string \<Rightarrow> string result" where
  "history_chat_id full = substr full 6 (str_size full - 6 - 9)"

definition message_json :: "json_lib \<Rightarrow> uuid_lib \<Rightarrow> Message \<Rightarrow> json" where
  "message_json J U message =
     init_list J [jpair J ''id'' (JString (uuid_to_string U (msg_id message))),
                  jpair J ''text'' (JString (msg_content message))]"

definition route_history ::
  "json_lib \<Rightarrow> uuid_lib \<Rightarrow> 'd message_repository \<Rightarrow> time_point \<Rightarrow> http_request \<Rightarrow> 'd
     \<Rightarrow> http_response result \<times> 'd" where
  "route_history J U R stamp request d =
     (case rbind (history_chat_id (rq_target request)) (string_generator U) of
        Inl e \<Rightarrow> (Inl e, d)
      | Inr chatId \<Rightarrow>
          (case mr_getByChat R chatId 50 stamp d of
             (Inl e, d') \<Rightarrow> (Inl e, d')
           | (Inr messages, d') \<Rightarrow>
               (json_response J 200 (JArray (map (message_json J U) messages)), d')))"

definition HttpRouter_route ::
  "'h sha1_lib \<Rightarrow> json_lib \<Rightarrow> uuid_lib \<Rightarrow> 'd message_repository \<Rightarrow> JwtService \<Rightarrow> int \<Rightarrow> time_point
     \<Rightarrow> http_request \<Rightarrow> 'd \<Rightarrow> http_response result \<times> 'd" where
  "HttpRouter_route H J U R svc now stamp request d =
     (let m = rq_method request; t = rq_target request in
      if m = post_verb \<and> t = ''/register'' then (json_response J 200 (jfield J ''status'' ''ok''), d)
      else if m = post_verb \<and> t = ''/login'' then (route_login H J svc now request, d)
      else if m = post_verb \<and> t = ''/refresh'' then (route_refresh H J svc now request, d)
      else if m = get_verb \<and> starts_with t ''/user/'' then (route_user J request, d)
      else if m = get_verb \<and> starts_with t ''/chat/'' \<and> ends_with t ''/messages'' then
        route_history J U R stamp request d
      else if m = post_verb \<and> starts_with t ''/chat/'' \<and> ends_with t ''/message'' then
        (json_response J 202 (jfield J ''status'' ''queued''), d)
      else (json_response J 404 (jfield J ''error'' ''not found''), d))"

section \<open>Lemmas\<close>

lemma jfield_object: "nlohmann_json J \<Longrightarrow> jfield J k v = JObject [(k, JString v)]"
  using init_list_pairs [of J "[(k, JString v)]"] by (simp add: jfield_def make_object_def)

lemma json_response_ok: "json_response J status j = Inr r \<Longrightarrow> rs_status r = status \<and> dump J j = Inr (rs_body r)"
  by (auto simp: json_response_def rbind_eq_Inr)

lemma bearer_token_scheme:
  assumes "std_string (scheme @ CHR '' '' # token)" and "CHR '' '' \<notin> set scheme"
  shows "bearer_token (scheme @ CHR '' '' # token) = Inr token"
  using assms by (simp add: bearer_token_def str_find_first substr_after)

text \<open>Without a space \<open>find\<close> is \<open>npos\<close>, and \<open>npos + 1\<close> is 0: the whole field is the token.\<close>

lemma bearer_token_bare:
  assumes "std_string token" and "CHR '' '' \<notin> set token"
  shows "bearer_token token = Inr token"
proof -
  have "str_find token (CHR '' '') = npos"
    using assms(2) by (simp add: str_find_def split: option.splits) (metis index_of_None option.distinct(1))
  with assms(1) show ?thesis by (simp add: bearer_token_def substr_def std_string_def)
qed

lemma history_chat_id_middle:
  assumes "std_string (''/chat/'' @ c @ ''/messages'')"
  shows "history_chat_id (''/chat/'' @ c @ ''/messages'') = Inr c"
proof -
  have "str_size (''/chat/'' @ c @ ''/messages'') - 6 - 9 = of_nat (length c)"
    by (simp add: str_size_def)
  moreover have "unat (of_nat (length c) :: size_t) = length c"
    using assms by (intro unat_of_nat64) (simp add: std_string_def)
  ultimately show ?thesis by (simp add: history_chat_id_def substr_def)
qed

lemma route_login_eq:
  "rq_method q = post_verb \<Longrightarrow> rq_target q = ''/login'' \<Longrightarrow>
     HttpRouter_route H J U R svc now stamp q d = (route_login H J svc now q, d)"
  by (simp add: HttpRouter_route_def)

lemma route_refresh_eq:
  "rq_method q = post_verb \<Longrightarrow> rq_target q = ''/refresh'' \<Longrightarrow>
     HttpRouter_route H J U R svc now stamp q d = (route_refresh H J svc now q, d)"
  by (simp add: HttpRouter_route_def)

lemma route_history_eq:
  "rq_method q = get_verb \<Longrightarrow> starts_with (rq_target q) ''/chat/'' \<Longrightarrow> ends_with (rq_target q) ''/messages'' \<Longrightarrow>
     HttpRouter_route H J U R svc now stamp q d = route_history J U R stamp q d"
  by (auto simp: HttpRouter_route_def starts_with_iff)

lemma route_state:
  "HttpRouter_route H J U R svc now stamp q d = (r, d') \<Longrightarrow>
     d' = d \<or> (\<exists>c x. mr_getByChat R c 50 stamp d = (x, d'))"
  by (auto simp: HttpRouter_route_def route_history_def Let_def split: if_splits sum.splits prod.splits)

section \<open>Properties\<close>

text \<open>
  C28. \<open>POST /login\<close> asks for no credentials: whatever user id a JSON body names, the answer holds a
  token that \<open>validateToken\<close> accepts and that names this user. Registered users, passwords and
  the user repository play no role.
\<close>

theorem login_grants_any_identity:
  assumes "nlohmann_json J" and "parse_noexcept J (rq_body q) = JObject kvs"
    and "map_of kvs ''user_id'' = Some (JString u)" and "jwt_fits H J svc now u 3600"
    and "rq_method q = post_verb" and "rq_target q = ''/login''"
  shows "\<exists>token. HttpRouter_route H J U R svc now stamp q d =
      (json_response J 200 (JObject [(''access_token'', JString token)]), d) \<and>
    JwtService_validateToken H svc token = Inr True \<and> JwtService_extractUserId J token = Inr u"
proof -
  have "value_str J (JObject kvs) ''user_id'' [] = Inr u"
    using assms(1,3) by (simp add: nlohmann_json_def value_str_spec_def)
  then show ?thesis
    using assms jwt.issue_valid [OF assms(4)] jwt.issue_subject [OF assms(4)]
    by (intro exI [of _ "JwtService_issueToken H J svc now u 3600"])
      (simp add: route_login_eq route_login_def jfield_object)
qed

definition demo_http_json :: json_lib where
  "demo_http_json = table_json
     [(''{\"alg\":\"HS1\",\"typ\":\"JWT\"}'', JObject [(''alg'', JString ''HS1''), (''typ'', JString ''JWT'')]),
      (''{\"exp\":3700,\"iat\":100,\"sub\":\"a.b\"}'',
       JObject [(''exp'', JInt 3700), (''iat'', JInt 100), (''sub'', JString ''a.b'')]),
      (''{\"user_id\":\"a.b\"}'', JObject [(''user_id'', JString ''a.b'')])]"

lemma demo_http_fits: "jwt_fits poly_hash demo_http_json (JwtService_new ''key'') 100 ''a.b'' 3600"
proof -
  have h: "dump_replace demo_http_json (jwt_header demo_http_json) = ''{\"alg\":\"HS1\",\"typ\":\"JWT\"}''"
    by code_simp
  have r: "json_roundtrips demo_http_json (jwt_payload demo_http_json 100 ''a.b'' 3600)" by code_simp
  have p: "dump_replace demo_http_json (jwt_payload demo_http_json 100 ''a.b'' 3600) =
      ''{\"exp\":3700,\"iat\":100,\"sub\":\"a.b\"}''" by code_simp
  have "length (JwtService_sign poly_hash svc d) \<le> 40" for svc d by (simp add: sign_length poly_hash_ok)
  from order.strict_trans1 [OF this] have
    "std_string (JwtService_issueToken poly_hash demo_http_json (JwtService_new ''key'') 100 ''a.b'' 3600)"
    by (simp add: std_string_def JwtService_issueToken_def toCompactJson_def h p Let_def)
  with h r show ?thesis by (simp add: jwt_fits_def demo_http_json_def table_json_ok)
qed

theorem login_grants_any_identity_witness:
  "\<exists>token. fst (HttpRouter_route poly_hash demo_http_json hex_uuid memory_repo (JwtService_new ''key'') 100 0
       \<lparr>rq_method = post_verb, rq_target = ''/login'', rq_authorization = [], rq_body = ''{\"user_id\":\"a.b\"}''\<rparr> []) =
      json_response demo_http_json 200 (JObject [(''access_token'', JString token)]) \<and>
    JwtService_extractUserId demo_http_json token = Inr ''a.b''"
proof -
  let ?q = "\<lparr>rq_method = post_verb, rq_target = ''/login'', rq_authorization = [], rq_body = ''{\"user_id\":\"a.b\"}''\<rparr>"
  have "parse_noexcept demo_http_json (rq_body ?q) = JObject [(''user_id'', JString ''a.b'')]" by code_simp
  from login_grants_any_identity [OF _ this _ demo_http_fits, of hex_uuid memory_repo 0 "[]"] show ?thesis
    by (auto simp: demo_http_json_def table_json_ok)
qed

text \<open>
  \<open>POST /refresh\<close> with a token that was issued for a user, at any earlier time and with any
  lifetime, answers with a new token for the same user.
\<close>

theorem refresh_keeps_user:
  assumes "jwt_fits H J svc issued u ttl"
    and "rq_method q = post_verb" and "rq_target q = ''/refresh''"
    and "rq_authorization q = ''Bearer '' @ JwtService_issueToken H J svc issued u ttl"
    and "std_string (rq_authorization q)"
  shows "HttpRouter_route H J U R svc now stamp q d =
    (json_response J 200 (JObject [(''access_token'', JString (JwtService_issueToken H J svc now u 3600))]), d)"
proof -
  have "bearer_token (rq_authorization q) = Inr (JwtService_issueToken H J svc issued u ttl)"
    using bearer_token_scheme [of "''Bearer''" "JwtService_issueToken H J svc issued u ttl"] assms(4,5) by simp
  then show ?thesis
    using assms(2,3) jwt.issue_valid [OF assms(1)] jwt.issue_subject [OF assms(1)]
    by (simp add: route_refresh_eq route_refresh_def)
qed

theorem refresh_keeps_user_witness:
  "fst (HttpRouter_route poly_hash demo_http_json hex_uuid memory_repo (JwtService_new ''key'') 999999 0
     \<lparr>rq_method = post_verb, rq_target = ''/refresh'',
      rq_authorization = ''Bearer '' @ JwtService_issueToken poly_hash demo_http_json (JwtService_new ''key'') 100 ''a.b'' 3600,
      rq_body = []\<rparr> []) =
   json_response demo_http_json 200 (JObject [(''access_token'',
     JString (JwtService_issueToken poly_hash demo_http_json (JwtService_new ''key'') 999999 ''a.b'' 3600))])"
proof -
  let ?t = "JwtService_issueToken poly_hash demo_http_json (JwtService_new ''key'') 100 ''a.b'' 3600"
  let ?q = "\<lparr>rq_method = post_verb, rq_target = ''/refresh'', rq_authorization = ''Bearer '' @ ?t, rq_body = []\<rparr>"
  have h: "dump_replace demo_http_json (jwt_header demo_http_json) = ''{\"alg\":\"HS1\",\"typ\":\"JWT\"}''"
    by code_simp
  have p: "dump_replace demo_http_json (jwt_payload demo_http_json 100 ''a.b'' 3600) =
      ''{\"exp\":3700,\"iat\":100,\"sub\":\"a.b\"}''" by code_simp
  have "length (JwtService_sign poly_hash svc d) \<le> 40" for svc d by (simp add: sign_length poly_hash_ok)
  from order.strict_trans1 [OF this] have s: "std_string (rq_authorization ?q)"
    by (simp add: std_string_def JwtService_issueToken_def toCompactJson_def h p Let_def)
  have "HttpRouter_route poly_hash demo_http_json hex_uuid memory_repo (JwtService_new ''key'') 999999 0 ?q [] =
    (json_response demo_http_json 200 (JObject [(''access_token'',
       JString (JwtService_issueToken poly_hash demo_http_json (JwtService_new ''key'') 999999 ''a.b'' 3600))]), [])"
    by (rule refresh_keeps_user [OF demo_http_fits _ _ _ s]) simp_all
  then show ?thesis by simp
qed

text \<open>
  \<open>POST /refresh\<close> answers 401 to every bearer text that is not some data with its signature, and
  issues no token.
\<close>

theorem refresh_rejects:
  assumes "nlohmann_json J" and "rq_method q = post_verb" and "rq_target q = ''/refresh''"
    and "rq_authorization q = ''Bearer '' @ token" and "std_string (rq_authorization q)"
    and "\<nexists>data. token = data @ ''.'' @ JwtService_sign H svc data"
  shows "HttpRouter_route H J U R svc now stamp q d =
    (json_response J 401 (JObject [(''error'', JString ''invalid token'')]), d)"
proof -
  have b: "bearer_token (rq_authorization q) = Inr token"
    using bearer_token_scheme [of "''Bearer''" token] assms(4,5) by simp
  have "std_string token" using assms(4,5) by (simp add: std_string_def)
  then have v: "JwtService_validateToken H svc token = Inr False"
    using validateToken_iff [of token H svc] assms(6) by simp
  show ?thesis
    using assms(1-3) by (simp add: route_refresh_eq route_refresh_def b v jfield_object)
qed

theorem refresh_rejects_witness:
  "fst (HttpRouter_route poly_hash demo_http_json hex_uuid memory_repo (JwtService_new ''key'') 5 0
     \<lparr>rq_method = post_verb, rq_target = ''/refresh'', rq_authorization = ''Bearer x'', rq_body = []\<rparr> []) =
   json_response demo_http_json 401 (JObject [(''error'', JString ''invalid token'')])"
proof -
  have n: "\<nexists>data. ''x'' = data @ ''.'' @ JwtService_sign poly_hash (JwtService_new ''key'') data"
    by (auto simp: Cons_eq_append_conv)
  have "nlohmann_json demo_http_json" by (simp add: demo_http_json_def table_json_ok)
  from refresh_rejects [OF this _ _ _ _ n, of "\<lparr>rq_method = post_verb, rq_target = ''/refresh'', rq_authorization = ''Bearer x'', rq_body = []\<rparr>"
      hex_uuid memory_repo 5 0 "[]"]
  show ?thesis by (simp add: std_string_def)
qed

text \<open>\<open>GET /chat/<id>/messages\<close>: the id is cut out of the target exactly.\<close>

lemma history_reads:
  assumes "boost_uuid U" and "rq_method q = get_verb"
    and "rq_target q = ''/chat/'' @ uuid_to_string U c @ ''/messages''" and "std_string (rq_target q)"
    and "HttpRouter_route H J U (pg_message_repository P U) svc now stamp q s = (Inr r, s')"
  obtains ms where "PostgresMessageRepository_getByChat P U c 50 stamp s = (Inr ms, s')" and "rs_status r = 200"
    and "dump J (JArray (map (message_json J U) ms)) = Inr (rs_body r)"
proof -
  have "starts_with (rq_target q) ''/chat/''" unfolding assms(3) by (rule starts_with_append)
  moreover have "ends_with (rq_target q) ''/messages''"
    unfolding assms(3) append_assoc [symmetric] by (rule ends_with_append)
  ultimately have "route_history J U (pg_message_repository P U) stamp q s = (Inr r, s')"
    using assms(2,5) by (simp add: route_history_eq)
  moreover have "rbind (history_chat_id (rq_target q)) (string_generator U) = Inr c"
    using history_chat_id_middle [of "uuid_to_string U c"] assms(1,3,4) by (simp add: boost_uuid_roundtrip)
  ultimately obtain ms where
    "PostgresMessageRepository_getByChat P U c 50 stamp s = (Inr ms, s')"
    "json_response J 200 (JArray (map (message_json J U) ms)) = Inr r"
    by (auto simp: route_history_def pg_message_repository_def split: prod.splits sum.splits)
  with json_response_ok that show thesis by blast
qed

text \<open>
  On the Postgres repository a 200 answer lists messages of this chat only, each as often as it is
  stored, all of them or 50 if there are more.
\<close>

theorem history_route:
  assumes "messages_inv P U tbl s" and "rq_method q = get_verb"
    and "rq_target q = ''/chat/'' @ uuid_to_string U c @ ''/messages''" and "std_string (rq_target q)"
    and "HttpRouter_route H J U (pg_message_repository P U) svc now stamp q s = (Inr r, s')"
  shows "rs_status r = 200 \<and> (\<exists>ms. dump J (JArray (map (message_json J U) ms)) = Inr (rs_body r) \<and>
    length ms = min 50 (length (filter (in_chat c) (pg_messages U tbl s))) \<and>
    mset (map stored ms) \<subseteq># mset (filter (in_chat c) (pg_messages U tbl s)))"
proof -
  from assms(1) have "boost_uuid U" by (simp add: messages_inv_def)
  from history_reads [OF this assms(2-5)] obtain ms where
    g: "PostgresMessageRepository_getByChat P U c 50 stamp s = (Inr ms, s')"
    and "rs_status r = 200" "dump J (JArray (map (message_json J U) ms)) = Inr (rs_body r)" .
  with pgm.history [OF assms(1) g] show ?thesis by auto
qed

definition demo_history_json :: json_lib where
  "demo_history_json = table_json
     [(''[{\"id\":\"5\",\"text\":\"hi\"}]'', JArray [JObject [(''id'', JString ''5''), (''text'', JString ''hi'')]])]"

definition demo_history_state :: "(nat, mem_db) pg_state" where
  "demo_history_state = memory_state\<lparr>pg_db := ([[''5'', ''1'', ''2'', ''hi''], [''6'', ''3'', ''2'', ''no'']], [], [])\<rparr>"

definition demo_history_request :: http_request where
  "demo_history_request =
     \<lparr>rq_method = get_verb, rq_target = ''/chat/1/messages'', rq_authorization = [], rq_body = []\<rparr>"

lemma demo_history_inv: "messages_inv memory_pg hex_uuid mem_messages demo_history_state"
proof -
  have t: "mem_messages (pg_db demo_history_state) = [[''5'', ''1'', ''2'', ''hi''], [''6'', ''3'', ''2'', ''no'']]"
    by code_simp
  have x: "uuid_to_string hex_uuid 5 = ''5''" "uuid_to_string hex_uuid 1 = ''1''"
    "uuid_to_string hex_uuid 2 = ''2''" "uuid_to_string hex_uuid 6 = ''6''" "uuid_to_string hex_uuid 3 = ''3''"
    by code_simp+
  have "message_row hex_uuid [''5'', ''1'', ''2'', ''hi'']" "message_row hex_uuid [''6'', ''3'', ''2'', ''no'']"
    unfolding message_row_def using x by metis+
  then show ?thesis by (simp add: messages_inv_def hex_uuid_ok memory_pg_messages t)
qed

theorem history_route_witness:
  "\<exists>r s' ms. HttpRouter_route poly_hash demo_history_json hex_uuid (pg_message_repository memory_pg hex_uuid)
      (JwtService_new []) 0 9 demo_history_request demo_history_state = (Inr r, s') \<and>
    rs_body r = ''[{\"id\":\"5\",\"text\":\"hi\"}]'' \<and> rs_status r = 200 \<and> length ms = 1 \<and>
    dump demo_history_json (JArray (map (message_json demo_history_json hex_uuid) ms)) = Inr (rs_body r)"
proof -
  let ?x = "HttpRouter_route poly_hash demo_history_json hex_uuid (pg_message_repository memory_pg hex_uuid)
      (JwtService_new []) 0 9 demo_history_request demo_history_state"
  have b: "fst ?x = Inr \<lparr>rs_status = 200, rs_content_type = ''application/json'',
      rs_body = ''[{\"id\":\"5\",\"text\":\"hi\"}]''\<rparr>" by code_simp
  then obtain r s' where x: "?x = (Inr r, s')" and r: "rs_body r = ''[{\"id\":\"5\",\"text\":\"hi\"}]''"
    by (cases ?x) auto
  have u: "uuid_to_string hex_uuid 1 = ''1''" by code_simp
  have f: "length (filter (in_chat 1) (pg_messages hex_uuid mem_messages demo_history_state)) = 1" by code_simp
  from history_route [OF demo_history_inv _ _ _ x, of 1] r x u f show ?thesis
    by (auto simp: demo_history_request_def std_string_def)
qed

text \<open>
  C29. No HTTP request stores a message. Every route leaves the stored messages as they are, the
  route \<open>POST /chat/<id>/message\<close> that answers 202 "queued" included.
\<close>

theorem http_stores_nothing:
  assumes "messages_inv P U tbl s"
    and "HttpRouter_route H J U (pg_message_repository P U) svc now stamp q s = (r, s')"
  shows "pg_messages U tbl s' = pg_messages U tbl s \<and> messages_inv P U tbl s' \<and>
    (nlohmann_json J \<longrightarrow> rq_method q = post_verb \<longrightarrow>
     starts_with (rq_target q) ''/chat/'' \<longrightarrow> ends_with (rq_target q) ''/message'' \<longrightarrow>
       s' = s \<and> r = json_response J 202 (JObject [(''status'', JString ''queued'')]))"
proof -
  have "pg_messages U tbl s' = pg_messages U tbl s \<and> messages_inv P U tbl s'"
    using route_state [OF assms(2)]
  proof
    assume "s' = s"
    with assms(1) show ?thesis by simp
  next
    assume "\<exists>c x. mr_getByChat (pg_message_repository P U) c 50 stamp s = (x, s')"
    then show ?thesis
      using pgm.history [OF assms(1)] by (auto simp: pg_message_repository_def)
  qed
  moreover have "s' = s \<and> r = json_response J 202 (JObject [(''status'', JString ''queued'')])"
    if "nlohmann_json J" "rq_method q = post_verb" "starts_with (rq_target q) ''/chat/''"
      "ends_with (rq_target q) ''/message''"
    using assms(2) that
    by (auto simp: HttpRouter_route_def jfield_object starts_with_iff Let_def split: if_splits)
  ultimately show ?thesis by blast
qed

theorem http_stores_nothing_witness:
  "let q = \<lparr>rq_method = post_verb, rq_target = ''/chat/1/message'', rq_authorization = [], rq_body = ''x''\<rparr>;
       J = table_json [(''q'', JObject [(''status'', JString ''queued'')])]
   in \<exists>r. HttpRouter_route poly_hash J hex_uuid (pg_message_repository memory_pg hex_uuid) (JwtService_new []) 0 9 q
        demo_history_state = (r, demo_history_state) \<and> r = json_response J 202 (JObject [(''status'', JString ''queued'')])"
proof -
  let ?q = "\<lparr>rq_method = post_verb, rq_target = ''/chat/1/message'', rq_authorization = [], rq_body = ''x''\<rparr>"
  let ?J = "table_json [(''q'', JObject [(''status'', JString ''queued'')])]"
  obtain r s' where x: "HttpRouter_route poly_hash ?J hex_uuid (pg_message_repository memory_pg hex_uuid)
      (JwtService_new []) 0 9 ?q demo_history_state = (r, s')" by fastforce
  have "starts_with (rq_target ?q) ''/chat/''" "ends_with (rq_target ?q) ''/message''" by code_simp+
  with http_stores_nothing [OF demo_history_inv x] x show ?thesis by (simp add: Let_def table_json_ok)
qed

text \<open>
  Requests that make the router throw, with nothing to catch it: a login body that is not a JSON
  object (\<open>type_error.306\<close>), and \<open>GET /chat/messages\<close>, where \<open>size() - 6 - 9\<close> wraps around so that
  \<open>messages\<close> is taken for the chat id.
\<close>

theorem route_throws:
  assumes "nlohmann_json J" and "string_generator U ''messages'' = Inl e"
    and "\<nexists>kvs. parse_noexcept J (rq_body q) = JObject kvs"
  shows "HttpRouter_route H J U R svc now stamp (q\<lparr>rq_method := post_verb, rq_target := ''/login''\<rparr>) d =
      (Inl (JsonTypeError 306), d) \<and>
    HttpRouter_route H J U R svc now stamp (q\<lparr>rq_method := get_verb, rq_target := ''/chat/messages''\<rparr>) d =
      (Inl e, d) \<and>
    str_size ''/chat/messages'' - 6 - 9 = npos"
proof -
  have n: "str_size ''/chat/messages'' - 6 - 9 = npos" by (simp add: str_size_def npos_def)
  have i: "history_chat_id ''/chat/messages'' = Inr ''messages''"
    unfolding history_chat_id_def n by (simp add: substr_def)
  have s: "starts_with ''/chat/messages'' ''/chat/''" "ends_with ''/chat/messages'' ''/messages''"
    by code_simp+
  have "value_str J (parse_noexcept J (rq_body q)) ''user_id'' [] = Inl (JsonTypeError 306)"
    using assms(1,3) by (auto simp: nlohmann_json_def value_str_spec_def split: json.splits)
  then show ?thesis
    using assms(2) i n s
    by (simp add: route_login_eq route_history_eq route_login_def route_history_def)
qed

theorem route_throws_witness:
  "fst (HttpRouter_route poly_hash demo_http_json hex_uuid memory_repo (JwtService_new []) 0 0
      \<lparr>rq_method = get_verb, rq_target = ''/chat/messages'', rq_authorization = [], rq_body = []\<rparr> []) =
    Inl (RuntimeError ''invalid uuid string'')"
proof -
  have g: "string_generator hex_uuid ''messages'' = Inl (RuntimeError ''invalid uuid string'')"
    by (rule hex_uuid_reject) simp
  have p: "\<nexists>kvs. parse_noexcept demo_http_json (rq_body \<lparr>rq_method = get_verb, rq_target = [], rq_authorization = [], rq_body = []\<rparr>) = JObject kvs"
    by (simp add: demo_http_json_def table_json_def)
  have "nlohmann_json demo_http_json" by (simp add: demo_http_json_def table_json_ok)
  from route_throws [OF this g p, of poly_hash memory_repo "JwtService_new []" 0 0 "[]"] show ?thesis by simp
qed

end
