(* ===== verification/Http_Session.thy ===== *)
theory Http_Session
  imports Http_Router
begin

text \<open>
  \<open>infrastructure/network/http/http_session.{hpp,cpp}\<close> and \<open>http_listener.{hpp,cpp}\<close>: a
  connection that reads a request, writes the answer and reads again. Outstanding
  asynchronous operations are part of the state; completions are events. \<open>route\<close> is the
  router, \<open>need_eof\<close> the library's test whether a response ends the connection.
\<close>

section \<open>HttpSession\<close>

record http_session =
  hs_reads :: nat                                  \<comment> \<open>outstanding \<open>async_read\<close> calls\<close>
  hs_writes :: "(http_response \<times> bool) list"       \<comment> \<open>outstanding \<open>async_write\<close> calls with \<open>close\<close>\<close>
  hs_shutdown :: bool

datatype read_result = EndOfStream | ReadError | Request http_request

type_synonym 'd router = "http_request \<Rightarrow> 'd \<Rightarrow> http_response result \<times> 'd"

definition HttpSession_new :: http_session where
  "HttpSession_new = \<lparr>hs_reads = 0, hs_writes = [], hs_shutdown = False\<rparr>"

definition HttpSession_doRead :: "http_session \<Rightarrow> http_session" where
  "HttpSession_doRead s = s\<lparr>hs_reads := Suc (hs_reads s)\<rparr>"

definition HttpSession_run :: "http_session \<Rightarrow> http_session" where
  "HttpSession_run s = HttpSession_doRead s"

definition HttpSession_onRead ::
  "'d router \<Rightarrow> (http_response \<Rightarrow> bool) \<Rightarrow> read_result \<Rightarrow> http_session \<times> 'd
     \<Rightarrow> unit result \<times> http_session \<times> 'd" where
  "HttpSession_onRead route need_eof ec sd =
     (case sd of (s, d) \<Rightarrow>
      let s = s\<lparr>hs_reads := hs_reads s - 1\<rparr> in
      case ec of
        EndOfStream \<Rightarrow> (Inr (), s\<lparr>hs_shutdown := True\<rparr>, d)
      | ReadError \<Rightarrow> (Inr (), s, d)
      | Request request \<Rightarrow>
          (case route request d of
             (Inl e, d') \<Rightarrow> (Inl e, s, d')
           | (Inr response, d') \<Rightarrow>
               (let close = need_eof response
                in (Inr (), s\<lparr>hs_writes := hs_writes s @ [(response, close)]\<rparr>, d'))))"

definition HttpSession_onWrite :: "bool \<Rightarrow> bool \<Rightarrow> http_session \<Rightarrow> http_session" where
  "HttpSession_onWrite ec close s =
     (if ec then s
      else if close then s\<lparr>hs_shutdown := True\<rparr>
      else HttpSession_doRead s)"

section \<open>HttpListener\<close>

definition HttpListener_new ::
  "string option \<Rightarrow> string option \<Rightarrow> string option \<Rightarrow> string option \<Rightarrow> unit result" where
  "HttpListener_new ec_open ec_option ec_bind ec_listen =
     (case ec_open of Some m \<Rightarrow> Inl (RuntimeError m) | None \<Rightarrow>
      case ec_option of Some m \<Rightarrow> Inl (RuntimeError m) | None \<Rightarrow>
      case ec_bind of Some m \<Rightarrow> Inl (RuntimeError m) | None \<Rightarrow>
      case ec_listen of Some m \<Rightarrow> Inl (RuntimeError m) | None \<Rightarrow> Inr ())"

definition HttpListener_onAccept :: "bool \<Rightarrow> http_session option" where
  "HttpListener_onAccept ec = (if ec then None else Some (HttpSession_run HttpSession_new))"

section \<open>Runs of a connection\<close>

text \<open>Events that can happen: a read completes, or the oldest write completes.\<close>

datatype http_event = HRead read_result | HWritten bool

record 'd http_conn =
  hc_session :: http_session
  hc_db :: 'd
  hc_answered :: "http_response list"   \<comment> \<open>responses whose write completed\<close>
  hc_routed :: "(http_request \<times> http_response) list"   \<comment> \<open>what the router was asked and answered, in order\<close>
  hc_crashed :: "exn option"

text \<open>The router's own call on the request of a completed read, kept as history.\<close>

definition routed_by :: "'d router \<Rightarrow> read_result \<Rightarrow> 'd \<Rightarrow> (http_request \<times> http_response) list" where
  "routed_by route ec d =
     (case ec of
        Request q \<Rightarrow> (case fst (route q d) of Inl _ \<Rightarrow> [] | Inr response \<Rightarrow> [(q, response)])
      | _ \<Rightarrow> [])"

definition http_step ::
  "'d router \<Rightarrow> (http_response \<Rightarrow> bool) \<Rightarrow> http_event \<Rightarrow> 'd http_conn \<Rightarrow> 'd http_conn option" where
  "http_step route need_eof ev c =
     (if hc_crashed c \<noteq> None then None
      else case ev of
        HRead ec \<Rightarrow>
          if hs_reads (hc_session c) = 0 then None
          else (case HttpSession_onRead route need_eof ec (hc_session c, hc_db c) of
                  (Inl e, s, d) \<Rightarrow> Some (c\<lparr>hc_session := s, hc_db := d, hc_crashed := Some e\<rparr>)
                | (Inr _, s, d) \<Rightarrow>
                    Some (c\<lparr>hc_session := s, hc_db := d,
                            hc_routed := hc_routed c @ routed_by route ec (hc_db c)\<rparr>))
      | HWritten ec \<Rightarrow>
          (case hs_writes (hc_session c) of
             [] \<Rightarrow> None
           | (response, close) # rest \<Rightarrow>
               Some (c\<lparr>hc_session := HttpSession_onWrite ec close ((hc_session c)\<lparr>hs_writes := rest\<rparr>),
                       hc_answered := hc_answered c @ (if ec then [] else [response])\<rparr>)))"

fun http_run ::
  "'d router \<Rightarrow> (http_response \<Rightarrow> bool) \<Rightarrow> http_event list \<Rightarrow> 'd http_conn \<Rightarrow> 'd http_conn option" where
  "http_run route need_eof [] c = Some c"
| "http_run route need_eof (ev # evs) c =
     (case http_step route need_eof ev c of None \<Rightarrow> None | Some c' \<Rightarrow> http_run route need_eof evs c')"

definition http_start :: "'d \<Rightarrow> 'd http_conn" where
  "http_start d =
     \<lparr>hc_session = HttpSession_run HttpSession_new, hc_db = d, hc_answered = [], hc_routed = [],
      hc_crashed = None\<rparr>"

text \<open>
  A connection does one thing at a time: it reads, or it writes one response, or it is
  finished; the responses answered and in flight are those the router gave, in order.
\<close>

definition http_inv :: "'d http_conn \<Rightarrow> bool" where
  "http_inv c \<longleftrightarrow>
     hs_reads (hc_session c) + length (hs_writes (hc_session c)) \<le> 1 \<and>
     (hs_reads (hc_session c) = 1 \<or> hs_writes (hc_session c) \<noteq> [] \<longrightarrow>
        hc_answered c @ map fst (hs_writes (hc_session c)) = map snd (hc_routed c)) \<and>
     (\<exists>unsent. hc_answered c @ unsent = map snd (hc_routed c) \<and> length unsent \<le> 1)"

lemma http_inv_start: "http_inv (http_start d)"
  by (simp add: http_inv_def http_start_def HttpSession_run_def HttpSession_doRead_def HttpSession_new_def)

lemma http_inv_read:
  assumes "http_inv c" and "http_step route need_eof (HRead ec) c = Some c'"
  shows "http_inv c'"
proof -
  from assms(2) have r: "hs_reads (hc_session c) \<noteq> 0" by (auto simp: http_step_def split: if_splits)
  from assms(1) have "hs_reads (hc_session c) + length (hs_writes (hc_session c)) \<le> 1"
    by (simp add: http_inv_def)
  with r have w1: "hs_reads (hc_session c) = 1" and w2: "hs_writes (hc_session c) = []"
    by (cases "hs_writes (hc_session c)"; simp)+
  with assms(1) have w3: "hc_answered c = map snd (hc_routed c)" by (simp add: http_inv_def)
  note w = w1 w2 w3
  show ?thesis
  proof (cases ec)
    case (Request q)
    obtain x d' where "route q (hc_db c) = (x, d')" by fastforce
    with assms(2) r w Request show ?thesis
      by (cases x) (auto simp: http_step_def HttpSession_onRead_def http_inv_def Let_def routed_by_def split: if_splits)
  qed (use assms(2) r w in
      \<open>auto simp: http_step_def HttpSession_onRead_def http_inv_def Let_def routed_by_def split: if_splits\<close>)
qed

lemma http_inv_written:
  assumes "http_inv c" and "http_step route need_eof (HWritten ec) c = Some c'"
  shows "http_inv c'"
proof -
  from assms(2) obtain response close rest where s: "hs_writes (hc_session c) = (response, close) # rest"
    by (auto simp: http_step_def split: if_splits list.splits)
  with assms(1) have w: "hs_reads (hc_session c) = 0" "rest = []" "hc_answered c @ [response] = map snd (hc_routed c)"
    by (auto simp: http_inv_def)
  from assms(2) s have "c' = c\<lparr>hc_session := HttpSession_onWrite ec close ((hc_session c)\<lparr>hs_writes := rest\<rparr>),
      hc_answered := hc_answered c @ (if ec then [] else [response])\<rparr>"
    by (auto simp: http_step_def split: if_splits)
  with w show ?thesis
    by (auto simp: http_inv_def HttpSession_onWrite_def HttpSession_doRead_def)
qed

lemma http_inv_run:
  "http_run route need_eof evs c = Some c' \<Longrightarrow> http_inv c \<Longrightarrow> http_inv c'"
proof (induction evs arbitrary: c)
  case (Cons ev evs)
  then obtain c1 where "http_step route need_eof ev c = Some c1" "http_run route need_eof evs c1 = Some c'"
    by (auto split: option.splits)
  with Cons.IH [of c1] Cons.prems(2) http_inv_read http_inv_written show ?case
    by (cases ev) blast+
qed simp

text \<open>
  The requests a sequence of completions brings, and the reference: a router that answers a list of
  requests one after the other, on the state each leaves, up to the first exception.
\<close>

definition http_requests :: "http_event list \<Rightarrow> http_request list" where
  "http_requests evs = concat (map (\<lambda>ev. case ev of HRead (Request q) \<Rightarrow> [q] | _ \<Rightarrow> []) evs)"

fun http_answers :: "'d router \<Rightarrow> http_request list \<Rightarrow> 'd \<Rightarrow> (http_request \<times> http_response) list" where
  "http_answers route [] d = []"
| "http_answers route (q # qs) d =
     (case route q d of
        (Inl e, d') \<Rightarrow> []
      | (Inr response, d') \<Rightarrow> (q, response) # http_answers route qs d')"

lemma http_requests_simps [simp]:
  "http_requests [] = []" "http_requests (HWritten ec # evs) = http_requests evs"
  "http_requests (HRead (Request q) # evs) = q # http_requests evs"
  "http_requests (HRead EndOfStream # evs) = http_requests evs"
  "http_requests (HRead ReadError # evs) = http_requests evs"
  by (simp_all add: http_requests_def)

lemma http_run_crashed: "http_run route need_eof evs c = Some c' \<Longrightarrow> hc_crashed c \<noteq> None \<Longrightarrow> evs = [] \<and> c' = c"
  by (cases evs) (auto simp: http_step_def)

lemma http_run_routed:
  "http_run route need_eof evs c = Some c' \<Longrightarrow>
     hc_routed c' = hc_routed c @ http_answers route (http_requests evs) (hc_db c) \<and>
     (hc_crashed c' = None \<longrightarrow> map fst (http_answers route (http_requests evs) (hc_db c)) = http_requests evs)"
proof (induction evs arbitrary: c)
  case (Cons ev evs)
  then obtain c1 where c1: "http_step route need_eof ev c = Some c1" and run: "http_run route need_eof evs c1 = Some c'"
    by (auto split: option.splits)
  note IH = Cons.IH [OF run]
  show ?case
  proof (cases ev)
    case (HWritten ec)
    with c1 have "hc_routed c1 = hc_routed c" "hc_db c1 = hc_db c"
      by (auto simp: http_step_def split: if_splits list.splits)
    with IH HWritten show ?thesis by simp
  next
    case (HRead ec)
    show ?thesis
    proof (cases ec)
      case (Request q)
      obtain x d' where x: "route q (hc_db c) = (x, d')" by fastforce
      show ?thesis
      proof (cases x)
        case (Inl e)
        with c1 x HRead Request have c1: "hc_crashed c1 = Some e" "hc_routed c1 = hc_routed c"
          by (auto simp: http_step_def HttpSession_onRead_def Let_def split: if_splits)
        with http_run_crashed [OF run] Inl x HRead Request show ?thesis by simp
      next
        case (Inr response)
        with c1 x HRead Request have "hc_routed c1 = hc_routed c @ [(q, response)]" "hc_db c1 = d'"
          by (auto simp: http_step_def HttpSession_onRead_def Let_def routed_by_def split: if_splits)
        with IH Inr x HRead Request show ?thesis by simp
      qed
    qed (use c1 IH HRead in \<open>auto simp: http_step_def HttpSession_onRead_def Let_def routed_by_def split: if_splits\<close>)
  qed
qed simp

section \<open>Properties\<close>

text \<open>
  C30. An HTTP connection never has two operations under way, and answers the requests in the order
  it read them. After any sequence of completions the responses whose write completed are those the
  router gives to the requests read, one after the other and in this order, all of them but at most
  the last one; while the connection reads or writes, the one being written is the only one missing.
  Unless the router threw, every request read was routed.
\<close>

theorem http_session_alternates:
  assumes "http_run route need_eof evs (http_start d) = Some c"
  shows "hs_reads (hc_session c) + length (hs_writes (hc_session c)) \<le> 1 \<and>
    (\<exists>unsent. hc_answered c @ unsent = map snd (http_answers route (http_requests evs) d) \<and> length unsent \<le> 1) \<and>
    (hs_reads (hc_session c) = 1 \<or> hs_writes (hc_session c) \<noteq> [] \<longrightarrow>
       hc_answered c @ map fst (hs_writes (hc_session c)) = map snd (http_answers route (http_requests evs) d)) \<and>
    (hc_crashed c = None \<longrightarrow> map fst (http_answers route (http_requests evs) d) = http_requests evs)"
proof -
  have "hc_routed c = http_answers route (http_requests evs) d \<and>
      (hc_crashed c = None \<longrightarrow> map fst (http_answers route (http_requests evs) d) = http_requests evs)"
    using http_run_routed [OF assms] by (simp add: http_start_def)
  moreover have "http_inv c" by (rule http_inv_run [OF assms http_inv_start])
  ultimately show ?thesis by (simp add: http_inv_def)
qed

theorem http_session_alternates_witness:
  "let route = (\<lambda>q (d :: nat). (Inr \<lparr>rs_status = d, rs_content_type = [], rs_body = rq_body q\<rparr>, Suc d));
       q = \<lparr>rq_method = get_verb, rq_target = [], rq_authorization = [], rq_body = ''x''\<rparr>;
       q' = q\<lparr>rq_body := ''y''\<rparr>
   in \<exists>c. http_run route (\<lambda>_. False) [HRead (Request q), HWritten False, HRead (Request q')] (http_start 7) = Some c \<and>
     map rs_body (hc_answered c) = [''x''] \<and>
     hc_answered c @ map fst (hs_writes (hc_session c)) = map snd (http_answers route [q, q'] 7)"
proof -
  let ?route = "\<lambda>q (d :: nat). (Inr \<lparr>rs_status = d, rs_content_type = [], rs_body = rq_body q\<rparr>, Suc d)"
  let ?q = "\<lparr>rq_method = get_verb, rq_target = [], rq_authorization = [], rq_body = ''x''\<rparr>"
  let ?evs = "[HRead (Request ?q), HWritten False, HRead (Request (?q\<lparr>rq_body := ''y''\<rparr>))]"
  let ?run = "http_run ?route (\<lambda>_. False) ?evs (http_start 7)"
  have m: "map_option (\<lambda>c. (map rs_body (hc_answered c), hs_writes (hc_session c) = [])) ?run = Some ([''x''], False)"
    by code_simp
  then obtain c where c: "?run = Some c" by (cases ?run) auto
  moreover have "map rs_body (hc_answered c) = [''x'']" "hs_writes (hc_session c) \<noteq> []" using m c by simp_all
  moreover have "http_requests ?evs = [?q, ?q\<lparr>rq_body := ''y''\<rparr>]" by (simp add: http_requests_def)
  moreover from calculation http_session_alternates [OF c]
  have "hc_answered c @ map fst (hs_writes (hc_session c)) = map snd (http_answers ?route [?q, ?q\<lparr>rq_body := ''y''\<rparr>] 7)"
    by (simp only: simp_thms)
  ultimately show ?thesis unfolding Let_def by (intro exI [of _ c] conjI)
qed

end
