(* ===== verification/App_Config.thy ===== *)
theory App_Config
  imports Prelude
begin

text \<open>
  \<open>core/config/app_config.{hpp,cpp}\<close>: the configuration and its loader. \<open>yaml-cpp\<close> is a
  parameter: opening a file and indexing a node may throw; \<open>as<T>(default)\<close> always gives a
  value, \<open>as<T>()\<close> may throw.
\<close>

section \<open>The YAML library\<close>

record 'y yaml_lib =
  LoadFile :: "string \<Rightarrow> 'y result"
  yaml_index :: "'y \<Rightarrow> string \<Rightarrow> 'y result"
  as_string_or :: "'y \<Rightarrow> string \<Rightarrow> string"
  as_u16_or :: "'y \<Rightarrow> 16 word \<Rightarrow> 16 word"
  as_u64_or :: "'y \<Rightarrow> 64 word \<Rightarrow> 64 word"
  as_string :: "'y \<Rightarrow> string result"
  as_u16 :: "'y \<Rightarrow> 16 word result"

text \<open>
  A concrete library: nested maps with decimal numbers (at most four digits for a port); an
  absent key reads as a missing node.
\<close>

datatype ynode = YMissing | YText string | YMap "(string \<times> ynode) list"

definition ydigits :: "string \<Rightarrow> bool" where
  "ydigits s \<longleftrightarrow> to_string (radix_value 10 s) = s"

fun ytext :: "ynode \<Rightarrow> string option" where
  "ytext (YText s) = Some s"
| "ytext _ = None"

definition tree_yaml :: "(string \<times> ynode) list \<Rightarrow> ynode yaml_lib" where
  "tree_yaml files =
     \<lparr>LoadFile = (\<lambda>p. case map_of files p of None \<Rightarrow> Inl (YamlError ''bad file'') | Some n \<Rightarrow> Inr n),
      yaml_index = (\<lambda>n k. case n of
          YMap kvs \<Rightarrow> Inr (case map_of kvs k of None \<Rightarrow> YMissing | Some x \<Rightarrow> x)
        | YMissing \<Rightarrow> Inl (YamlError ''invalid node'')
        | YText _ \<Rightarrow> Inl (YamlError ''bad subscript'')),
      as_string_or = (\<lambda>n d. case ytext n of None \<Rightarrow> d | Some s \<Rightarrow> s),
      as_u16_or = (\<lambda>n d. case ytext n of None \<Rightarrow> d | Some s \<Rightarrow>
          if ydigits s \<and> length s < 5 then of_nat (radix_value 10 s) else d),
      as_u64_or = (\<lambda>n d. case ytext n of None \<Rightarrow> d | Some s \<Rightarrow>
          if ydigits s then of_nat (radix_value 10 s) else d),
      as_string = (\<lambda>n. case ytext n of None \<Rightarrow> Inl (YamlError ''bad conversion'') | Some s \<Rightarrow> Inr s),
      as_u16 = (\<lambda>n. case ytext n of None \<Rightarrow> Inl (YamlError ''bad conversion'') | Some s \<Rightarrow>
          if ydigits s \<and> length s < 5 then Inr (of_nat (radix_value 10 s))
          else Inl (YamlError ''bad conversion''))\<rparr>"

section \<open>The configuration\<close>

record ServerConfig =
  sc_host :: string
  sc_wsPort :: "16 word"
  sc_httpPort :: "16 word"
  sc_networkThreads :: size_t
  sc_actorThreads :: size_t
  sc_storageThreads :: size_t
  sc_mailboxCapacity :: size_t

record DatabaseConfig =
  dc_host :: string
  dc_port :: "16 word"
  dc_user :: string
  dc_password :: string
  dc_db :: string
  dc_poolSize :: "16 word"

record SecurityConfig =
  sec_jwtSecret :: string
  sec_jwtTtlSeconds :: "64 word"

record AppConfig =
  cfg_server :: ServerConfig
  cfg_database :: DatabaseConfig
  cfg_security :: SecurityConfig
  cfg_level :: string

text \<open>The default member initialisers.\<close>

definition default_server :: ServerConfig where
  "default_server =
     \<lparr>sc_host = ''0.0.0.0'', sc_wsPort = 8080, sc_httpPort = 8081, sc_networkThreads = 4,
      sc_actorThreads = 8, sc_storageThreads = 4, sc_mailboxCapacity = 65536\<rparr>"

definition default_security :: SecurityConfig where
  "default_security = \<lparr>sec_jwtSecret = ''change-me'', sec_jwtTtlSeconds = 3600\<rparr>"

definition default_poolSize :: "16 word" where
  "default_poolSize = 16"

definition default_level :: string where
  "default_level = ''info''"

section \<open>ConfigLoader\<close>

text \<open>\<open>root[section][key]\<close>.\<close>

definition yaml_at :: "'y yaml_lib \<Rightarrow> 'y \<Rightarrow> string \<Rightarrow> string \<Rightarrow> 'y result" where
  "yaml_at Y root sect key = rbind (yaml_index Y root sect) (\<lambda>n. yaml_index Y n key)"

definition load_server :: "'y yaml_lib \<Rightarrow> 'y \<Rightarrow> ServerConfig result" where
  "load_server Y root =
     rbind (yaml_at Y root ''server'' ''host'') (\<lambda>host.
     rbind (yaml_at Y root ''server'' ''ws_port'') (\<lambda>ws.
     rbind (yaml_at Y root ''server'' ''http_port'') (\<lambda>http.
     rbind (yaml_at Y root ''server'' ''network_threads'') (\<lambda>net.
     rbind (yaml_at Y root ''server'' ''actor_threads'') (\<lambda>act.
     rbind (yaml_at Y root ''server'' ''storage_threads'') (\<lambda>sto.
     rbind (yaml_at Y root ''server'' ''mailbox_capacity'') (\<lambda>cap.
       Inr \<lparr>sc_host = as_string_or Y host (sc_host default_server),
            sc_wsPort = as_u16_or Y ws (sc_wsPort default_server),
            sc_httpPort = as_u16_or Y http (sc_httpPort default_server),
            sc_networkThreads = as_u64_or Y net (sc_networkThreads default_server),
            sc_actorThreads = as_u64_or Y act (sc_actorThreads default_server),
            sc_storageThreads = as_u64_or Y sto (sc_storageThreads default_server),
            sc_mailboxCapacity = as_u64_or Y cap (sc_mailboxCapacity default_server)\<rparr>)))))))"

definition load_database :: "'y yaml_lib \<Rightarrow> 'y \<Rightarrow> DatabaseConfig result" where
  "load_database Y root =
     rbind (rbind (yaml_at Y root ''database'' ''host'') (as_string Y)) (\<lambda>host.
     rbind (rbind (yaml_at Y root ''database'' ''port'') (as_u16 Y)) (\<lambda>port.
     rbind (rbind (yaml_at Y root ''database'' ''user'') (as_string Y)) (\<lambda>user.
     rbind (rbind (yaml_at Y root ''database'' ''password'') (as_string Y)) (\<lambda>password.
     rbind (rbind (yaml_at Y root ''database'' ''db'') (as_string Y)) (\<lambda>db.
     rbind (yaml_at Y root ''database'' ''pool_size'') (\<lambda>size.
       Inr \<lparr>dc_host = host, dc_port = port, dc_user = user, dc_password = password, dc_db = db,
            dc_poolSize = as_u16_or Y size default_poolSize\<rparr>))))))"

definition load_security :: "'y yaml_lib \<Rightarrow> 'y \<Rightarrow> SecurityConfig result" where
  "load_security Y root =
     rbind (yaml_at Y root ''security'' ''jwt_secret'') (\<lambda>secret.
     rbind (yaml_at Y root ''security'' ''jwt_ttl_seconds'') (\<lambda>ttl.
       Inr \<lparr>sec_jwtSecret = as_string_or Y secret (sec_jwtSecret default_security),
            sec_jwtTtlSeconds = as_u64_or Y ttl (sec_jwtTtlSeconds default_security)\<rparr>))"

definition ConfigLoader_fromFile :: "'y yaml_lib \<Rightarrow> string \<Rightarrow> AppConfig result" where
  "ConfigLoader_fromFile Y path =
     rbind (LoadFile Y path) (\<lambda>root.
     rbind (load_server Y root) (\<lambda>server.
     rbind (load_database Y root) (\<lambda>database.
     rbind (load_security Y root) (\<lambda>security.
     rbind (yaml_at Y root ''logging'' ''level'') (\<lambda>level.
       Inr \<lparr>cfg_server = server, cfg_database = database, cfg_security = security,
            cfg_level = as_string_or Y level default_level\<rparr>)))))"

section \<open>Loading\<close>

text \<open>
  Loading a configuration whose four sections exist succeeds exactly when the five required
  database entries can be converted; everything else falls back to its default.
\<close>

lemma config_required:
  assumes "LoadFile Y path = Inr root"
    and "\<And>sect. sect \<in> {''server'', ''database'', ''security'', ''logging''} \<Longrightarrow>
           \<exists>n. yaml_index Y root sect = Inr n \<and> (\<forall>key. is_ok (yaml_index Y n key))"
  shows "is_ok (ConfigLoader_fromFile Y path) \<longleftrightarrow>
    is_ok (rbind (yaml_at Y root ''database'' ''host'') (as_string Y)) \<and>
    is_ok (rbind (yaml_at Y root ''database'' ''port'') (as_u16 Y)) \<and>
    is_ok (rbind (yaml_at Y root ''database'' ''user'') (as_string Y)) \<and>
    is_ok (rbind (yaml_at Y root ''database'' ''password'') (as_string Y)) \<and>
    is_ok (rbind (yaml_at Y root ''database'' ''db'') (as_string Y))"
proof -
  have at: "\<exists>x. yaml_at Y root sect key = Inr x"
    if "sect \<in> {''server'', ''database'', ''security'', ''logging''}" for sect key
    using assms(2) [OF that] by (auto simp: yaml_at_def is_ok_iff)
  have "is_ok (load_server Y root)" by (simp add: load_server_def is_ok_rbind at)
  then obtain server where "load_server Y root = Inr server" by (auto simp: is_ok_iff)
  moreover have "is_ok (load_security Y root)" by (simp add: load_security_def is_ok_rbind at)
  then obtain security where "load_security Y root = Inr security" by (auto simp: is_ok_iff)
  moreover obtain level where "yaml_at Y root ''logging'' ''level'' = Inr level"
    using at [of "''logging''"] by auto
  moreover obtain size where "yaml_at Y root ''database'' ''pool_size'' = Inr size"
    using at [of "''database''"] by auto
  ultimately show ?thesis
    using assms(1) by (auto simp: ConfigLoader_fromFile_def load_database_def is_ok_iff rbind_eq_Inr)
qed

text \<open>A configuration file with the required entries only, and small numbers.\<close>

definition demo_yaml :: ynode where
  "demo_yaml = YMap
     [(''server'', YMap [(''actor_threads'', YText ''2''), (''mailbox_capacity'', YText ''4'')]),
      (''database'', YMap [(''host'', YText ''h''), (''port'', YText ''5''), (''user'', YText ''u''),
                          (''password'', YText ''p''), (''db'', YText ''d'')]),
      (''security'', YMap []), (''logging'', YMap [])]"


end
