(* ===== verification/Backend.thy ===== *)
theory Backend
  imports Crash_Causes Message_Log Http_Session App_Config
begin

text \<open>
  The running server as \<open>infrastructure/network/server.cpp\<close> puts it together: the WebSocket side
  and the actors of \<open>Network\<close>, and HTTP connections whose requests the router answers from the same
  message repository. A label is one atomic action of any thread. An exception of a thread
  ends the process: no label is possible afterwards.
\<close>

section \<open>The server's state\<close>

record 'd HttpRouter =
  hr_messageRepository :: "'d message_repository"
  hr_jwtService :: JwtService

record ('q, 'd, 'h) server_libs =
  sl_libs :: "('q, 'd) libs"
  sl_sha1 :: "'h sha1_lib"
  sl_need_eof :: "http_response \<Rightarrow> bool"

record ('q, 'd) backend =
  b_net :: "('q, 'd) net"
  b_router :: "'d HttpRouter"
  b_https :: "'d http_conn list"
  b_dead :: "exn option"        \<comment> \<open>exception that left a thread handling an HTTP request\<close>

abbreviation b_config :: "('q, 'd) backend \<Rightarrow> ('q, 'd) config" where
  "b_config b \<equiv> n_config (b_net b)"

abbreviation b_db :: "('q, 'd) backend \<Rightarrow> 'd" where
  "b_db b \<equiv> w_db (c_world (b_config b))"

definition b_alive :: "('q, 'd) backend \<Rightarrow> bool" where
  "b_alive b \<longleftrightarrow> b_dead b = None \<and> c_crashed (b_config b) = None"

definition b_route ::
  "('q, 'd, 'h) server_libs \<Rightarrow> 'd HttpRouter \<Rightarrow> int \<Rightarrow> time_point \<Rightarrow> 'd router" where
  "b_route S router now stamp =
     HttpRouter_route (sl_sha1 S) (lib_json (sl_libs S)) (lib_uuid (sl_libs S))
       (hr_messageRepository router) (hr_jwtService router) now stamp"

definition put_db :: "'d \<Rightarrow> ('q, 'd) net \<Rightarrow> ('q, 'd) net" where
  "put_db d n = n\<lparr>n_config := (n_config n)\<lparr>c_world := (n_world n)\<lparr>w_db := d\<rparr>\<rparr>\<rparr>"

section \<open>Steps\<close>

text \<open>The numbers of \<open>BHttp\<close> are the connection and the two clock readings of the router.\<close>

datatype backend_label =
    BNet net_label
  | BHttpAccept bool
  | BHttp nat int time_point http_event

definition http_connect :: "bool \<Rightarrow> ('q, 'd) backend \<Rightarrow> ('q, 'd) backend" where
  "http_connect ec b =
     (case HttpListener_onAccept ec of
        None \<Rightarrow> b
      | Some s \<Rightarrow> b\<lparr>b_https := b_https b @
          [\<lparr>hc_session = s, hc_db = b_db b, hc_answered = [], hc_routed = [], hc_crashed = None\<rparr>]\<rparr>)"

fun backend_exec ::
  "('q, 'd, 'h) server_libs \<Rightarrow> backend_label \<Rightarrow> ('q, 'd) backend \<Rightarrow> ('q, 'd) backend option" where
  "backend_exec S (BNet l) b =
     (if b_alive b then map_option (\<lambda>n. b\<lparr>b_net := n\<rparr>) (net_exec (sl_libs S) l (b_net b)) else None)"
| "backend_exec S (BHttpAccept ec) b = (if b_alive b then Some (http_connect ec b) else None)"
| "backend_exec S (BHttp j now stamp ev) b =
     (if b_alive b \<and> j < length (b_https b)
      then case http_step (b_route S (b_router b) now stamp) (sl_need_eof S) ev
                  ((b_https b ! j)\<lparr>hc_db := b_db b\<rparr>) of
             None \<Rightarrow> None
           | Some h \<Rightarrow> Some (b\<lparr>b_net := put_db (hc_db h) (b_net b), b_https := (b_https b)[j := h],
                              b_dead := hc_crashed h\<rparr>)
      else None)"

fun backend_run ::
  "('q, 'd, 'h) server_libs \<Rightarrow> backend_label list \<Rightarrow> ('q, 'd) backend \<Rightarrow> ('q, 'd) backend option" where
  "backend_run S [] b = Some b"
| "backend_run S (l # ls) b =
     (case backend_exec S l b of None \<Rightarrow> None | Some b' \<Rightarrow> backend_run S ls b')"

text \<open>The server after its constructor and \<open>run\<close>, on the repository in the state \<open>d\<close>.\<close>

definition backend_init :: "('q, 'd, 'h) server_libs \<Rightarrow> AppConfig \<Rightarrow> 'd \<Rightarrow> ('q, 'd) backend" where
  "backend_init S config d =
     \<lparr>b_net = net_init (sl_libs S) (sc_mailboxCapacity (cfg_server config))
                (unat (sc_actorThreads (cfg_server config))) d,
      b_router = \<lparr>hr_messageRepository = lib_repo (sl_libs S),
                  hr_jwtService = JwtService_new (sec_jwtSecret (cfg_security config))\<rparr>,
      b_https = [], b_dead = None\<rparr>"

section \<open>The parts of a run\<close>

lemma http_step_db:
  assumes "http_step route need_eof ev c = Some c'"
  shows "hc_db c' = hc_db c \<or> (\<exists>q r. route q (hc_db c) = (r, hc_db c'))"
    and "hc_crashed c' = Some x \<Longrightarrow> \<exists>q d'. ev = HRead (Request q) \<and> route q (hc_db c) = (Inl x, d')"
proof -
  have "(hc_db c' = hc_db c \<or> (\<exists>q r. route q (hc_db c) = (r, hc_db c'))) \<and>
    (hc_crashed c' = Some x \<longrightarrow> (\<exists>q d'. ev = HRead (Request q) \<and> route q (hc_db c) = (Inl x, d')))"
  proof (cases ev)
    case (HWritten ec)
    with assms show ?thesis by (auto simp: http_step_def split: if_splits list.splits)
  next
    case (HRead ec)
    show ?thesis
    proof (cases ec)
      case (Request q)
      obtain r d where r: "route q (hc_db c) = (r, d)" by fastforce
      with assms HRead Request show ?thesis
        by (cases r) (auto simp: http_step_def HttpSession_onRead_def Let_def split: if_splits)
    qed (use assms HRead in \<open>auto simp: http_step_def HttpSession_onRead_def Let_def split: if_splits\<close>)
  qed
  then show "hc_db c' = hc_db c \<or> (\<exists>q r. route q (hc_db c) = (r, hc_db c'))"
    "hc_crashed c' = Some x \<Longrightarrow> \<exists>q d'. ev = HRead (Request q) \<and> route q (hc_db c) = (Inl x, d')" by blast+
qed

lemma put_db_steps:
  assumes "c_crashed (n_config n) = None"
    and "d = w_db (n_world n) \<or> (\<exists>c x limit stamp. mr_getByChat (lib_repo L) c limit stamp (w_db (n_world n)) = (x, d))"
  shows "steps L (n_config n) (n_config (put_db d n))"
  using assms(2)
proof
  assume "d = w_db (n_world n)"
  then show ?thesis by (simp add: put_db_def)
next
  assume "\<exists>c x limit stamp. mr_getByChat (lib_repo L) c limit stamp (w_db (n_world n)) = (x, d)"
  then show ?thesis using step.query [OF assms(1)] by (force simp: put_db_def)
qed

text \<open>
  Along a run the router stays the one the constructor made, and every HTTP connection keeps its
  own invariant.
\<close>

definition backend_ok :: "'d HttpRouter \<Rightarrow> ('q, 'd) backend \<Rightarrow> bool" where
  "backend_ok router b \<longleftrightarrow>
     b_router b = router \<and>
     (\<forall>h \<in> set (b_https b). http_inv h)"

lemma http_inv_db [simp]: "http_inv (h\<lparr>hc_db := d\<rparr>) = http_inv h"
  by (simp add: http_inv_def)

lemma http_inv_step: "http_step route need_eof ev c = Some c' \<Longrightarrow> http_inv c \<Longrightarrow> http_inv c'"
  by (cases ev) (auto intro: http_inv_read http_inv_written)

lemma backend_exec_ok:
  assumes "backend_ok router b" and "backend_exec S l b = Some b'"
    and "hr_messageRepository router = lib_repo (sl_libs S)"
  shows "backend_ok router b' \<and> steps (sl_libs S) (b_config b) (b_config b')"
proof (cases l)
  case (BNet nl)
  with assms(1,2) show ?thesis by (auto simp: backend_ok_def net_exec_steps split: if_splits)
next
  case (BHttpAccept ec)
  with assms(1,2) http_inv_start show ?thesis
    by (auto simp: backend_ok_def http_connect_def HttpListener_onAccept_def http_start_def split: if_splits)
next
  case (BHttp j now stamp ev)
  let ?h = "(b_https b ! j)\<lparr>hc_db := b_db b\<rparr>"
  from assms(2) BHttp obtain h where j: "b_alive b" "j < length (b_https b)"
    and h: "http_step (b_route S (b_router b) now stamp) (sl_need_eof S) ev ?h = Some h"
    and b': "b' = b\<lparr>b_net := put_db (hc_db h) (b_net b), b_https := (b_https b)[j := h], b_dead := hc_crashed h\<rparr>"
    by (auto split: if_splits option.splits)
  have r: "b_router b = router" using assms(1) by (simp add: backend_ok_def)
  have "http_inv h" using http_inv_step [OF h] j(2) assms(1) by (simp add: backend_ok_def)
  then have i: "\<forall>h \<in> set (b_https b'). http_inv h"
    using assms(1) b' set_update_subset_insert [of "b_https b" j h] by (auto simp: backend_ok_def)
  have "hc_db h = b_db b \<or> (\<exists>c x limit stamp. mr_getByChat (lib_repo (sl_libs S)) c limit stamp (b_db b) = (x, hc_db h))"
    using http_step_db(1) [OF h] assms(3) r by (auto simp: b_route_def dest!: route_state)
  then have "steps (sl_libs S) (b_config b) (n_config (put_db (hc_db h) (b_net b)))"
    using put_db_steps [of "b_net b" "hc_db h"] j(1) by (simp add: b_alive_def)
  with i r b' show ?thesis by (auto simp: backend_ok_def)
qed

lemma backend_run_ok:
  assumes "backend_ok router b" and "backend_run S ls b = Some b'"
    and "hr_messageRepository router = lib_repo (sl_libs S)"
  shows "backend_ok router b' \<and> steps (sl_libs S) (b_config b) (b_config b')"
  using assms(1,2)
proof (induction ls arbitrary: b)
  case (Cons l ls)
  then obtain b1 where "backend_exec S l b = Some b1" "backend_run S ls b1 = Some b'"
    by (auto split: option.splits)
  with Cons backend_exec_ok [OF Cons.prems(1) _ assms(3)] show ?case by (meson rtranclp_trans)
qed simp

lemma backend_reachable:
  assumes "backend_run S ls (backend_init S config d) = Some b"
  shows "steps (sl_libs S) (init_config (sl_libs S) (sc_mailboxCapacity (cfg_server config))
      (unat (sc_actorThreads (cfg_server config))) d) (b_config b)"
    and "backend_ok (b_router (backend_init S config d)) b"
proof -
  let ?b = "backend_init S config d"
  have i: "backend_ok (b_router ?b) ?b" and r: "hr_messageRepository (b_router ?b) = lib_repo (sl_libs S)"
    and c: "b_config ?b = init_config (sl_libs S) (sc_mailboxCapacity (cfg_server config))
      (unat (sc_actorThreads (cfg_server config))) d"
    by (simp_all add: backend_ok_def) (simp_all add: backend_init_def net_init_def)
  from backend_run_ok [OF i assms r] c
  show "steps (sl_libs S) (init_config (sl_libs S) (sc_mailboxCapacity (cfg_server config))
      (unat (sc_actorThreads (cfg_server config))) d) (b_config b)"
    and "backend_ok (b_router ?b) b" by simp_all
qed

lemma backend_repository:
  assumes "backend_run S ls (backend_init S config d) = Some b"
  shows "hr_messageRepository (b_router b) = lib_repo (sl_libs S)"
  using backend_reachable(2) [OF assms] by (simp add: backend_ok_def) (simp add: backend_init_def)

section \<open>The frames of a run and its last label\<close>

definition net_labels :: "backend_label list \<Rightarrow> net_label list" where
  "net_labels ls = concat (map (\<lambda>l. case l of BNet nl \<Rightarrow> [nl] | _ \<Rightarrow> []) ls)"

lemma net_labels_simps [simp]:
  "net_labels [] = []" "net_labels (BNet nl # ls) = nl # net_labels ls"
  "net_labels (BHttpAccept ec # ls) = net_labels ls" "net_labels (BHttp j now stamp ev # ls) = net_labels ls"
  by (simp_all add: net_labels_def)

lemma put_db_simps [simp]:
  "n_peers (put_db d n) = n_peers n" "net_inv J (put_db d n) = net_inv J n"
  "c_accepted (n_config (put_db d n)) = c_accepted (n_config n)"
  "c_refused (n_config (put_db d n)) = c_refused (n_config n)"
  "c_crashed (n_config (put_db d n)) = c_crashed (n_config n)"
  by (simp_all add: put_db_def net_inv_def session_ok_def)

text \<open>A label of the server is one of its network part, or leaves that part alone but for the database.\<close>

lemma backend_exec_net:
  assumes "backend_exec S l b = Some b'"
  obtains nl where "l = BNet nl" "net_exec (sl_libs S) nl (b_net b) = Some (b_net b')" "b_dead b' = b_dead b"
  | d where "\<And>nl. l \<noteq> BNet nl" "b_net b' = put_db d (b_net b)"
proof (cases l)
  case (BNet nl)
  with assms show thesis by (intro that(1) [of nl]) (auto split: if_splits)
next
  case (BHttpAccept ec)
  have "put_db (b_db b) (b_net b) = b_net b" by (simp add: put_db_def)
  with BHttpAccept assms show thesis
    by (intro that(2) [of "b_db b"]) (auto simp: http_connect_def split: if_splits option.splits)
next
  case (BHttp j now stamp ev)
  with assms show thesis by (auto intro!: that(2) split: if_splits option.splits)
qed

lemma backend_run_net:
  "backend_run S ls b = Some b' \<Longrightarrow> sl_libs S = L \<Longrightarrow> net_inv (lib_json L) (b_net b) \<Longrightarrow>
     net_inv (lib_json L) (b_net b') \<and> peers_kept (b_net b) (b_net b') \<and>
     takes_in (frame_events (lib_json L) (frames_read (b_net b') (net_labels ls))) (b_config b) (b_config b')"
proof (induction ls arbitrary: b)
  case Nil
  then show ?case by (simp add: takes_in_none)
next
  case (Cons l ls)
  then obtain b1 where e: "backend_exec S l b = Some b1" and r: "backend_run S ls b1 = Some b'"
    by (auto split: option.splits)
  from e show ?case
  proof (cases rule: backend_exec_net)
    case (1 nl)
    note x = 1(2) [unfolded Cons.prems(2)]
    note IH = Cons.IH [OF r Cons.prems(2) net_inv_exec [OF Cons.prems(3) x]]
    then have k: "peers_kept (b_net b) (b_net b')" using peers_kept_exec [OF x] peers_kept_trans by blast
    from label_frames_kept [OF Cons.prems(3) x k] takes_in_exec [OF Cons.prems(3) x] IH k 1(1)
    show ?thesis by (simp add: takes_in_trans)
  next
    case (2 d)
    have "net_labels (l # ls) = net_labels ls" using 2(1) by (cases l) auto
    with Cons.IH [OF r Cons.prems(2)] Cons.prems(3) 2(2) show ?thesis
      by (simp add: peers_kept_def takes_in_def)
  qed
qed

text \<open>An accepted envelope comes from a frame that one of the labels read.\<close>

lemma accepted_read:
  assumes "backend_run S ls (backend_init S config d) = Some b" and "sl_libs S = L"
    and "e \<in> set (c_accepted (b_config b))"
  obtains i raw where "BNet (NRead i False raw) \<in> set ls"
    "dispatch_event (lib_json L) (peer_id (b_net b) i) raw = Inr (Some e)"
proof -
  let ?fs = "frames_read (b_net b) (net_labels ls)"
  have "net_inv (lib_json L) (b_net (backend_init S config d))"
    by (simp add: backend_init_def assms(2) net_inv_init)
  from backend_run_net [OF assms(1,2) this] assms(2,3) have "e \<in> set (frame_events (lib_json L) ?fs)"
    by (auto simp: takes_in_def backend_init_def net_init_def init_config_def dest: set_shuffles)
  then obtain sid raw where f: "(sid, raw) \<in> set ?fs" "dispatch_event (lib_json L) sid raw = Inr (Some e)"
    by (auto simp: frame_events_def split: sum.splits option.splits)
  then obtain nl where nl: "nl \<in> set (net_labels ls)" "(sid, raw) \<in> set (label_frames (b_net b) nl)"
    by (auto simp: frames_read_def)
  have "\<exists>i. nl = NRead i False raw \<and> sid = peer_id (b_net b) i"
    using nl(2) by - (cases nl; auto split: if_splits)
  then obtain i where "nl = NRead i False raw" "sid = peer_id (b_net b) i" by blast
  moreover have "BNet nl \<in> set ls" using nl(1) by (auto simp: net_labels_def split: backend_label.splits)
  ultimately show thesis using f(2) that by blast
qed

lemma backend_run_append:
  "backend_run S (ls @ ls') b = (case backend_run S ls b of None \<Rightarrow> None | Some b' \<Rightarrow> backend_run S ls' b')"
  by (induction ls arbitrary: b) (auto split: option.splits)

lemma backend_exec_alive: "backend_exec S l b = Some b' \<Longrightarrow> b_alive b"
  by (cases l) (auto split: if_splits)

text \<open>The label that kills the server is the last one.\<close>

lemma last_label:
  assumes "backend_run S ls b0 = Some b" and "b_alive b0" and "\<not> b_alive b"
  obtains ls1 l b1 where "ls = ls1 @ [l]" "backend_run S ls1 b0 = Some b1" "b_alive b1"
    "backend_exec S l b1 = Some b"
proof (cases ls rule: rev_cases)
  case Nil
  with assms show thesis by simp
next
  case (snoc ls1 l)
  with assms(1) obtain b1 where "backend_run S ls1 b0 = Some b1" "backend_exec S l b1 = Some b"
    by (auto simp: backend_run_append split: option.splits)
  with snoc backend_exec_alive that show thesis by blast
qed

section \<open>The texts of a chat\<close>

text \<open>As the table holds them, and as the accepted frames asked for them.\<close>

definition stored_texts :: "uuid \<Rightarrow> stored_message list \<Rightarrow> string list" where
  "stored_texts c ms = map (\<lambda>m. snd (snd (snd m))) (filter (in_chat c) ms)"

definition asked_texts :: "uuid_lib \<Rightarrow> uuid \<Rightarrow> StoragePersistMessage list \<Rightarrow> string list" where
  "asked_texts U c ps = map pm_content (filter (\<lambda>p. string_generator U (pm_chatId p) = Inr c) ps)"

lemma stored_texts_snd:
  "stored_texts c ms = map (\<lambda>m. snd (snd m)) (filter (\<lambda>m. fst m = c) (map snd ms))"
  by (induction ms) (auto simp: stored_texts_def in_chat_def)

lemma entry_texts:
  assumes "\<forall>p \<in> set ps. ids_ok U p"
  shows "map (\<lambda>m. snd (snd m)) (filter (\<lambda>m. fst m = c) (map (log_entry U) ps)) = asked_texts U c ps"
  using assms
  by (induction ps) (auto simp: asked_texts_def log_entry_def ids_ok_def is_ok_iff text_uuid_def)

lemma asked_texts_mono: "mset ps \<subseteq># mset qs \<Longrightarrow> mset (asked_texts U c ps) \<subseteq># mset (asked_texts U c qs)"
  unfolding asked_texts_def mset_map mset_filter
  by (intro image_mset_subseteq_mono multiset_filter_mono)

lemma asked_texts_cong: "mset ps = mset qs \<Longrightarrow> mset (asked_texts U c ps) = mset (asked_texts U c qs)"
  unfolding asked_texts_def mset_map mset_filter by simp

lemma history_texts:
  assumes "mset (map stored ms) \<subseteq># mset (filter (in_chat c) xs)"
  shows "mset (map msg_content ms) \<subseteq># mset (stored_texts c xs)"
proof -
  have "map msg_content ms = map (\<lambda>m. snd (snd (snd m))) (map stored ms)" by (simp add: stored_def)
  then show ?thesis
    using image_mset_subseteq_mono [OF assms, of "\<lambda>m. snd (snd (snd m))"]
    by (simp only: stored_texts_def mset_map)
qed

text \<open>The contents of a chat in a live server: what was there, and what was stored since.\<close>

lemma live_chat:
  assumes "lockfree_queue (lib_queue L) cont nodes" and "lib_repo L = pg_message_repository P (lib_uuid L)"
    and "messages_inv P (lib_uuid L) tbl s" and "steps L (init_config L cap n s) c" and "c_crashed c = None"
  shows "stored_texts k (pg_messages (lib_uuid L) tbl (w_db (c_world c))) =
      stored_texts k (pg_messages (lib_uuid L) tbl s) @ asked_texts (lib_uuid L) k (persisted (c_done c))"
    and "messages_inv P (lib_uuid L) tbl (w_db (c_world c))"
proof -
  have l: "messages_inv P (lib_uuid L) tbl (w_db (c_world c)) \<and>
      logged (lib_uuid L) (pg_messages (lib_uuid L) tbl) s c"
    by (rule pgl.logged_steps [OF assms(2) [unfolded pg_message_repository_def] assms(4,3)])
  then show "messages_inv P (lib_uuid L) tbl (w_db (c_world c))" by blast
  from l assms(5) have "map snd (pg_messages (lib_uuid L) tbl (w_db (c_world c))) =
      map snd (pg_messages (lib_uuid L) tbl s) @ map (log_entry (lib_uuid L)) (persisted (c_done c))"
    and ok: "\<forall>p \<in> set (persisted (c_done c)). ids_ok (lib_uuid L) p" by (auto simp: logged_def)
  then show "stored_texts k (pg_messages (lib_uuid L) tbl (w_db (c_world c))) =
      stored_texts k (pg_messages (lib_uuid L) tbl s) @ asked_texts (lib_uuid L) k (persisted (c_done c))"
    by (simp add: stored_texts_snd entry_texts [OF ok])
qed

section \<open>Properties\<close>

text \<open>
  C1. From a client's frame to another client's history. Take any run of the whole server on the
  Postgres repository that is still alive, and a \<open>GET /chat/<id>/messages\<close> that is answered there.
  The texts in the answer are, each at most that often, texts the chat had at the start or texts
  that accepted \<open>send_message\<close> frames named for this chat. If moreover all work has come to rest,
  no mailbox was full and these are at most 50 in all, the answer has exactly these texts.
\<close>

theorem history_end_to_end:
  assumes "sl_libs S = L" and "lockfree_queue (lib_queue L) cont nodes" and "lib_repo L = pg_message_repository P (lib_uuid L)"
    and "messages_inv P (lib_uuid L) tbl s"
    and "backend_run S ls (backend_init S config s) = Some b" and "b_alive b"
    and "rq_method q = get_verb" and "rq_target q = ''/chat/'' @ uuid_to_string (lib_uuid L) c @ ''/messages''"
    and "std_string (rq_target q)" and "b_route S (b_router b) now stamp q (b_db b) = (Inr r, s')"
  shows "rs_status r = 200 \<and> (\<exists>ms.
    dump (lib_json L) (JArray (map (message_json (lib_json L) (lib_uuid L)) ms)) = Inr (rs_body r) \<and>
    (let texts = mset (stored_texts c (pg_messages (lib_uuid L) tbl s)) +
           mset (asked_texts (lib_uuid L) c (asked (c_accepted (b_config b)))) in
     mset (map msg_content ms) \<subseteq># texts \<and>
     (quiescent cont (b_config b) \<longrightarrow> c_lost (b_config b) = [] \<longrightarrow> size texts \<le> 50 \<longrightarrow>
        mset (map msg_content ms) = texts)))"
proof -
  let ?U = "lib_uuid L" and ?db = "pg_messages (lib_uuid L) tbl (b_db b)"
  let ?new = "\<lambda>ps. mset (asked_texts ?U c ps)" and ?old = "mset (stored_texts c (pg_messages ?U tbl s))"
  note reach = backend_reachable [OF assms(5), unfolded assms(1)]
  have "c_crashed (b_config b) = None" using assms(6) by (simp add: b_alive_def)
  note chat = live_chat [OF assms(2-4) reach(1) this]
  have "HttpRouter_route (sl_sha1 S) (lib_json L) ?U (pg_message_repository P ?U) (hr_jwtService (b_router b))
      now stamp q (b_db b) = (Inr r, s')"
    using assms(10) backend_repository [OF assms(5)] by (simp add: b_route_def assms(1,3))
  from history_route [OF chat(2) assms(7-9) this] obtain ms where
    r: "rs_status r = 200" "dump (lib_json L) (JArray (map (message_json (lib_json L) ?U) ms)) = Inr (rs_body r)"
    and len: "length ms = min 50 (length (filter (in_chat c) ?db))"
    and sub: "mset (map stored ms) \<subseteq># mset (filter (in_chat c) ?db)" by blast
  have in_db: "mset (map msg_content ms) \<subseteq># ?old + ?new (persisted (c_done (b_config b)))"
    using history_texts [OF sub] by (simp add: chat(1))
  have le: "?new (persisted (c_done (b_config b))) \<subseteq># ?new (asked (c_accepted (b_config b)))"
    by (rule asked_texts_mono) (rule persisted_asked(1) [OF assms(2) reach(1)])
  have all: "mset (map msg_content ms) = ?old + ?new (asked (c_accepted (b_config b)))"
    if "quiescent cont (b_config b)" "c_lost (b_config b) = []"
      "size (?old + ?new (asked (c_accepted (b_config b)))) \<le> 50"
  proof -
    have eq: "?new (persisted (c_done (b_config b))) = ?new (asked (c_accepted (b_config b)))"
      by (rule asked_texts_cong) (rule persisted_asked(2) [OF assms(2) reach(1) that(1,2)])
    have "length (filter (in_chat c) ?db) = length (stored_texts c ?db)" by (simp add: stored_texts_def)
    also have "\<dots> = size (?old + ?new (asked (c_accepted (b_config b))))" by (simp add: chat(1) flip: eq)
    finally have "length ms = size (?old + ?new (asked (c_accepted (b_config b))))" using len that(3) by simp
    with subseteq_same_size [OF in_db] show ?thesis by (simp add: eq)
  qed
  from in_db le have "mset (map msg_content ms) \<subseteq># ?old + ?new (asked (c_accepted (b_config b)))"
    by (meson subset_mset.add_left_mono subset_mset.order_trans)
  with r all show ?thesis unfolding Let_def by blast
qed

definition full_libs :: "(addr list \<times> nat, (nat, mem_db) pg_state, 32 word) server_libs" where
  "full_libs =
     \<lparr>sl_libs = \<lparr>lib_queue = list_queue,
                 lib_json = table_json (net_table @
                   [(''history'', JArray [JObject [(''id'', JString ''9''), (''text'', JString ''a'')]])]),
                 lib_uuid = hex_uuid, lib_repo = pg_message_repository memory_pg hex_uuid\<rparr>,
      sl_sha1 = poly_hash, sl_need_eof = (\<lambda>_. False)\<rparr>"

definition full_config :: AppConfig where
  "full_config =
     \<lparr>cfg_server = default_server\<lparr>sc_mailboxCapacity := 4, sc_actorThreads := 1\<rparr>,
      cfg_database = \<lparr>dc_host = [], dc_port = 5, dc_user = [], dc_password = [], dc_db = [], dc_poolSize = 2\<rparr>,
      cfg_security = default_security, cfg_level = default_level\<rparr>"

definition full_run :: "backend_label list" where
  "full_run = BHttpAccept False # map BNet ([NConnect False, NAccept 0 False, NRead 0 False ''hello''] @
     map NWorker (visit 0 message 1 @ visit 0 chat 3 @ visit 0 storage 1 @ visit 0 session 1 @ visit 0 session 1))"

definition full_request :: http_request where
  "full_request = \<lparr>rq_method = get_verb, rq_target = ''/chat/1/messages'', rq_authorization = [], rq_body = []\<rparr>"

lemma full_queue: "lockfree_queue (lib_queue (sl_libs full_libs)) fst snd"
  by (simp add: full_libs_def list_queue_ok)

lemma backend_obtain:
  assumes "map_option f (backend_run S ls b0) = Some v"
  obtains b where "backend_run S ls b0 = Some b" and "f b = v"
  using assms by auto

theorem history_end_to_end_witness:
  "\<exists>b r s' ms. backend_run full_libs full_run (backend_init full_libs full_config memory_state) = Some b \<and>
     b_route full_libs (b_router b) 0 7 full_request (b_db b) = (Inr r, s') \<and> rs_body r = ''history'' \<and>
     dump (lib_json (sl_libs full_libs)) (JArray (map (message_json (lib_json (sl_libs full_libs)) hex_uuid) ms)) = Inr ''history'' \<and>
     mset (map msg_content ms) = {#''a''#}"
proof -
  let ?L = "sl_libs full_libs" and ?b0 = "backend_init full_libs full_config memory_state"
  let ?f = "\<lambda>b. (c_busy (b_config b), map (inbox fst (c_sys (b_config b))) [session, chat, message, storage],
      c_lost (b_config b), c_crashed (b_config b), b_dead b, asked (c_accepted (b_config b)),
      map_sum id rs_body (fst (b_route full_libs (b_router b) 0 7 full_request (b_db b))))"
  have "map_option ?f (backend_run full_libs full_run ?b0) =
      Some (replicate 1 None, [[], [], [], []], [], None, None, [demo_persist ''a''], Inr ''history'')"
    by code_simp
  then obtain b where run: "backend_run full_libs full_run ?b0 = Some b"
    and v: "?f b = (replicate 1 None, [[], [], [], []], [], None, None, [demo_persist ''a''], Inr ''history'')"
    by (rule backend_obtain)
  obtain x s' where x: "b_route full_libs (b_router b) 0 7 full_request (b_db b) = (x, s')" by fastforce
  with v obtain r where r: "x = Inr r" "rs_body r = ''history''" by (cases x) auto
  have u: "lib_uuid ?L = hex_uuid" "lib_repo ?L = pg_message_repository memory_pg (lib_uuid ?L)"
    by (simp_all add: full_libs_def)
  have one: "uuid_to_string hex_uuid 1 = ''1''" by code_simp
  have t: "rq_target full_request = ''/chat/'' @ uuid_to_string (lib_uuid ?L) 1 @ ''/messages''"
    by (simp add: full_request_def u(1) one)
  have m: "rq_method full_request = get_verb" "std_string (rq_target full_request)"
    by (simp_all add: full_request_def std_string_def)
  have alive: "b_alive b" using v by (simp add: b_alive_def)
  have q: "quiescent fst (b_config b)" using v by (intro quiescentI [of _ 1]) simp_all
  have "pg_messages hex_uuid mem_messages memory_state = []"
    by (simp add: pg_messages_def memory_state_def mem_messages_def)
  then have old: "stored_texts 1 (pg_messages hex_uuid mem_messages memory_state) = []" by (simp add: stored_texts_def)
  have new: "asked_texts hex_uuid 1 [demo_persist ''a''] = [''a'']" by code_simp
  from history_end_to_end [OF refl full_queue u(2) log_start [folded u(1)] run alive m(1) t m(2) x [unfolded r(1)]]
  obtain ms where "dump (lib_json ?L) (JArray (map (message_json (lib_json ?L) hex_uuid) ms)) = Inr (rs_body r)"
    "mset (map msg_content ms) = {#''a''#}"
    using q v old new by (auto simp: Let_def u(1))
  with run x r show ?thesis by auto
qed

text \<open>
  C15. Every death of the server can be blamed on an input it was given. If a run has ended with an
  exception \<open>x\<close>, then its last label killed it, and this label is: the completed read of an HTTP
  request on which the router throws \<open>x\<close> in the database's state at that moment; or the completed
  read of a frame on which the dispatcher throws \<open>x\<close>; or an action of a worker, and a frame that a
  client had sent earlier in the run and that was accepted as a \<open>send_message\<close> provoked \<open>x\<close>: by a
  chat or sender id that is no UUID, by the failed insert of its text into the database as it was,
  or by an answer that cannot be printed as JSON.
\<close>

theorem death_causes:
  assumes "sl_libs S = L" and "lockfree_queue (lib_queue L) cont nodes"
    and "backend_run S ls (backend_init S config s) = Some b" and "\<not> b_alive b"
  shows "\<exists>ls0 l b0 x. ls = ls0 @ [l] \<and> backend_run S ls0 (backend_init S config s) = Some b0 \<and>
    b_alive b0 \<and> backend_exec S l b0 = Some b \<and>
    ((\<exists>j now stamp q d'. l = BHttp j now stamp (HRead (Request q)) \<and> b_dead b = Some x \<and>
        b_route S (b_router b0) now stamp q (b_db b0) = (Inl x, d')) \<or>
     (\<exists>i raw. l = BNet (NRead i False raw) \<and> c_crashed (b_config b) = Some x \<and>
        dispatch_event (lib_json L) (peer_id (b_net b0) i) raw = Inl x) \<or>
     (\<exists>k rid now i raw ev. l = BNet (NWorker (LAct k rid now)) \<and> c_crashed (b_config b) = Some x \<and>
        BNet (NRead i False raw) \<in> set ls0 \<and>
        dispatch_event (lib_json L) (peer_id (b_net b0) i) raw =
          Inr (Some \<lparr>destination = message, payload = PSend ev\<rparr>) \<and>
        \<lparr>destination = message, payload = PSend ev\<rparr> \<in> set (c_accepted (b_config b0)) \<and>
        send_throws L rid now ev (b_db b0) x))"
proof -
  have "b_alive (backend_init S config s)"
    by (simp add: b_alive_def backend_init_def net_init_def init_config_def)
  from last_label [OF assms(3) this assms(4)] obtain ls0 l b0 where
    ls: "ls = ls0 @ [l]" "backend_run S ls0 (backend_init S config s) = Some b0" "b_alive b0"
    "backend_exec S l b0 = Some b" by blast
  have alive: "b_dead b0 = None" "c_crashed (b_config b0) = None" using ls(3) by (auto simp: b_alive_def)
  have inv: "net_inv (lib_json L) (b_net b0)"
    using backend_run_net [OF ls(2) assms(1)] by (simp add: backend_init_def assms(1) net_inv_init)
  have cause: ?thesis if
    "(\<exists>j now stamp q d'. l = BHttp j now stamp (HRead (Request q)) \<and> b_dead b = Some x \<and>
        b_route S (b_router b0) now stamp q (b_db b0) = (Inl x, d')) \<or>
     (\<exists>i raw. l = BNet (NRead i False raw) \<and> c_crashed (b_config b) = Some x \<and>
        dispatch_event (lib_json L) (peer_id (b_net b0) i) raw = Inl x) \<or>
     (\<exists>k rid now i raw ev. l = BNet (NWorker (LAct k rid now)) \<and> c_crashed (b_config b) = Some x \<and>
        BNet (NRead i False raw) \<in> set ls0 \<and>
        dispatch_event (lib_json L) (peer_id (b_net b0) i) raw =
          Inr (Some \<lparr>destination = message, payload = PSend ev\<rparr>) \<and>
        \<lparr>destination = message, payload = PSend ev\<rparr> \<in> set (c_accepted (b_config b0)) \<and>
        send_throws L rid now ev (b_db b0) x)" for x
    using ls that by (intro exI [of _ ls0] exI [of _ l] exI [of _ b0] exI [of _ x] conjI)
  from ls(4) show ?thesis
  proof (cases rule: backend_exec_net)
    case (1 nl)
    with assms(4) alive obtain x where x: "c_crashed (b_config b) = Some x" by (auto simp: b_alive_def)
    from net_crash [OF inv 1(2) [unfolded assms(1)] alive(2) x] show ?thesis
    proof (elim disjE exE conjE)
      fix k rid now
      assume nl: "nl = NWorker (LAct k rid now)"
        and e: "exec_label L (LAct k rid now) (b_config b0) = Some (b_config b)"
      from worker_crash [OF assms(2) backend_reachable(1) [OF ls(2), unfolded assms(1)] e x] obtain ev where
        ev: "\<lparr>destination = message, payload = PSend ev\<rparr> \<in> set (c_accepted (b_config b0))"
        "send_throws L rid now ev (b_db b0) x" by blast
      from accepted_read [OF ls(2) assms(1) ev(1)] obtain i raw where "BNet (NRead i False raw) \<in> set ls0"
        "dispatch_event (lib_json L) (peer_id (b_net b0) i) raw = Inr (Some \<lparr>destination = message, payload = PSend ev\<rparr>)" .
      with ev 1(1) nl x show ?thesis by (intro cause [of x]) blast
    next
      fix i raw
      assume "nl = NRead i False raw" "dispatch_event (lib_json L) (peer_id (b_net b0) i) raw = Inl x"
      with 1(1) x show ?thesis by (intro cause [of x]) blast
    qed
  next
    case (2 d)
    then have "c_crashed (b_config b) = None" using alive by simp
    with assms(4) obtain x where x: "b_dead b = Some x" by (auto simp: b_alive_def)
    with 2(1) ls(4) alive(1) obtain j now stamp ev h where l: "l = BHttp j now stamp ev"
      and h: "http_step (b_route S (b_router b0) now stamp) (sl_need_eof S) ev ((b_https b0 ! j)\<lparr>hc_db := b_db b0\<rparr>) = Some h"
      and "hc_crashed h = Some x"
      by (cases l) (auto simp: http_connect_def split: if_splits option.splits)
    from http_step_db(2) [OF h this(3)] l x show ?thesis by (intro cause [of x]) auto
  qed
qed

theorem death_causes_witness:
  "\<exists>b d'. backend_run full_libs [BHttpAccept False, BHttp 0 0 7 (HRead (Request (full_request\<lparr>rq_target := ''/chat/?/messages''\<rparr>)))]
       (backend_init full_libs full_config memory_state) = Some b \<and>
     b_dead b = Some (RuntimeError ''invalid uuid string'') \<and>
     (\<exists>b0. backend_run full_libs [BHttpAccept False] (backend_init full_libs full_config memory_state) = Some b0 \<and>
       b_route full_libs (b_router b0) 0 7 (full_request\<lparr>rq_target := ''/chat/?/messages''\<rparr>) (b_db b0) =
         (Inl (RuntimeError ''invalid uuid string''), d'))"
proof -
  let ?ls = "[BHttpAccept False, BHttp 0 0 7 (HRead (Request (full_request\<lparr>rq_target := ''/chat/?/messages''\<rparr>)))]"
  let ?run = "backend_run full_libs ?ls (backend_init full_libs full_config memory_state)"
  have "map_option (\<lambda>b. (b_dead b, c_crashed (b_config b))) ?run = Some (Some (RuntimeError ''invalid uuid string''), None)"
    by code_simp
  then obtain b where b: "?run = Some b" "(b_dead b, c_crashed (b_config b)) = (Some (RuntimeError ''invalid uuid string''), None)"
    by (rule backend_obtain)
  then have "\<not> b_alive b" by (simp add: b_alive_def)
  from death_causes [OF refl full_queue b(1) this] obtain ls0 l b0 x where
    ls: "?ls = ls0 @ [l]" "backend_run full_libs ls0 (backend_init full_libs full_config memory_state) = Some b0"
    and x: "\<exists>j now stamp q d'. l = BHttp j now stamp (HRead (Request q)) \<and> b_dead b = Some x \<and>
      b_route full_libs (b_router b0) now stamp q (b_db b0) = (Inl x, d')"
    using b(2) by (auto simp del: backend_run.simps backend_exec.simps)
  have "ls0 = butlast ?ls" "l = last ?ls" using ls(1) by simp_all
  then have "ls0 = [BHttpAccept False]"
    "l = BHttp 0 0 7 (HRead (Request (full_request\<lparr>rq_target := ''/chat/?/messages''\<rparr>)))" by simp_all
  with b(2) x obtain d' where "b_route full_libs (b_router b0) 0 7 (full_request\<lparr>rq_target := ''/chat/?/messages''\<rparr>) (b_db b0) =
      (Inl (RuntimeError ''invalid uuid string''), d')" by auto
  with b ls(2) \<open>ls0 = [BHttpAccept False]\<close> show ?thesis by blast
qed

text \<open>
  On the actor path, in contrast to the direct layer, the sender of a message is whatever its
  frame says: a connection that never authenticated stores a message in the name of user 2.
\<close>

theorem sender_unchecked:
  "\<exists>b. backend_run full_libs full_run (backend_init full_libs full_config memory_state) = Some b \<and>
     (\<forall>e \<in> set (c_accepted (b_config b)). case payload e of PAuth _ \<Rightarrow> False | _ \<Rightarrow> True) \<and>
     pg_messages hex_uuid mem_messages (b_db b) = [(9, 1, 2, ''a'')]"
proof -
  let ?f = "\<lambda>b. (list_all (\<lambda>e. case payload e of PAuth _ \<Rightarrow> False | _ \<Rightarrow> True) (c_accepted (b_config b)),
      pg_messages hex_uuid mem_messages (b_db b))"
  have "map_option ?f (backend_run full_libs full_run (backend_init full_libs full_config memory_state)) =
      Some (True, [(9, 1, 2, ''a'')])" by code_simp
  then obtain b where "backend_run full_libs full_run (backend_init full_libs full_config memory_state) = Some b"
    "?f b = (True, [(9, 1, 2, ''a'')])" by (rule backend_obtain)
  then show ?thesis by (auto simp: list_all_iff)
qed

end
