(* ===== verification/Logging.thy ===== *)
theory Logging
  imports Domain
begin

text \<open>
  \<open>core/logging/logger.cpp\<close>: the factory of the program's one logger, and the two servers whose
  methods only log (\<open>infrastructure/http/http_server.cpp\<close> and
  \<open>infrastructure/websocket/websocket_server.cpp\<close>). The logging library with its registry of named
  loggers is a parameter; loggers are handles.
\<close>

section \<open>The logging library\<close>

record ('g, 'l) spdlog_lib =
  sp_get :: "string \<Rightarrow> 'g \<Rightarrow> nat option"
  sp_stdout_color_mt :: "string \<Rightarrow> 'g \<Rightarrow> nat result \<times> 'g"
  sp_set_pattern :: "nat \<Rightarrow> string \<Rightarrow> 'g \<Rightarrow> 'g"
  sp_set_level :: "nat \<Rightarrow> 'l \<Rightarrow> 'g \<Rightarrow> 'g"
  sp_level :: "nat \<Rightarrow> 'g \<Rightarrow> 'l"
  sp_from_str :: "string \<Rightarrow> 'l"

text \<open>
  Documented behaviour: a logger is created under a free name only and is found under it from then
  on; a creation, if it succeeds, returns a new logger; levels are per logger, and changing pattern
  or level registers nothing.
\<close>

definition spdlog_registry :: "('g, 'l) spdlog_lib \<Rightarrow> bool" where
  "spdlog_registry S \<longleftrightarrow>
     (\<forall>name g i g'. sp_stdout_color_mt S name g = (Inr i, g') \<longrightarrow>
        sp_get S name g = None \<and> sp_get S name g' = Some i \<and>
        (\<forall>other. other \<noteq> name \<longrightarrow> sp_get S other g' = sp_get S other g)) \<and>
     (\<forall>name g e g'. sp_stdout_color_mt S name g = (Inl e, g') \<longrightarrow> g' = g) \<and>
     (\<forall>i p g name. sp_get S name (sp_set_pattern S i p g) = sp_get S name g) \<and>
     (\<forall>i l g name. sp_get S name (sp_set_level S i l g) = sp_get S name g) \<and>
     (\<forall>i l g name. sp_get S name g = Some i \<longrightarrow> sp_level S i (sp_set_level S i l g) = l)"

section \<open>LoggerFactory\<close>

definition logger_name :: string where
  "logger_name = ''svitock''"

definition logger_pattern :: string where
  "logger_pattern = ''[%Y-%m-%d %H:%M:%S.%e] [%^%l%$] [thread %t] %v''"

definition LoggerFactory_createDefault ::
  "('g, 'l) spdlog_lib \<Rightarrow> string \<Rightarrow> 'g \<Rightarrow> nat result \<times> 'g" where
  "LoggerFactory_createDefault S level g =
     (case sp_get S logger_name g of
        Some existing \<Rightarrow> (Inr existing, sp_set_level S existing (sp_from_str S level) g)
      | None \<Rightarrow>
          (case sp_stdout_color_mt S logger_name g of
             (Inl e, g') \<Rightarrow> (Inl e, g')
           | (Inr logger, g') \<Rightarrow>
               (Inr logger, sp_set_level S logger (sp_from_str S level)
                  (sp_set_pattern S logger logger_pattern g'))))"

section \<open>Servers that only log\<close>

datatype log_level = LogInfo | LogDebug

type_synonym log = "(log_level \<times> string) list"

record HttpServer =
  hs_port :: "16 word"

definition HttpServer_run :: "HttpServer \<Rightarrow> log \<Rightarrow> log" where
  "HttpServer_run s lg =
     lg @ [(LogInfo, ''HTTP server initialized on port '' @ to_string (unat (hs_port s)))]"

record WebSocketServer =
  wss_port :: "16 word"

definition WebSocketServer_run :: "WebSocketServer \<Rightarrow> log \<Rightarrow> log" where
  "WebSocketServer_run s lg =
     lg @ [(LogInfo, ''WebSocket server initialized on port '' @ to_string (unat (wss_port s)))]"

definition WebSocketServer_publishToChat :: "uuid_lib \<Rightarrow> uuid \<Rightarrow> string \<Rightarrow> WebSocketServer \<Rightarrow> log \<Rightarrow> log" where
  "WebSocketServer_publishToChat U chatId payload s lg =
     lg @ [(LogDebug, ''Dispatching event to chat '' @ uuid_to_string U chatId @ '' payload size '' @
                      to_string (length payload))]"

section \<open>One logger\<close>

text \<open>A registry kept in memory: a list of names and levels, a logger is a position in it.\<close>

definition memory_spdlog :: "((string \<times> string) list, string) spdlog_lib" where
  "memory_spdlog =
     \<lparr>sp_get = (\<lambda>name g. if name \<in> set (map fst g)
                         then Some (length (takeWhile (\<lambda>n. n \<noteq> name) (map fst g))) else None),
      sp_stdout_color_mt = (\<lambda>name g. if name \<in> set (map fst g) then (Inl (RuntimeError ''exists''), g)
                                     else (Inr (length g), g @ [(name, ''info'')])),
      sp_set_pattern = (\<lambda>i p g. g),
      sp_set_level = (\<lambda>i l g. g[i := (fst (g ! i), l)]),
      sp_level = (\<lambda>i g. snd (g ! i)),
      sp_from_str = (\<lambda>s. s)\<rparr>"

lemma map_fst_update: "map fst (g[i := (fst (g ! i), l)]) = map fst g"
  by (cases "i < length g") (simp_all add: map_update list_update_same_conv list_update_beyond)

lemma takeWhile_member: "x \<in> set xs \<Longrightarrow> length (takeWhile (\<lambda>y. y \<noteq> x) xs) < length xs"
  by (induction xs) auto

lemma memory_spdlog_ok: "spdlog_registry memory_spdlog"
  unfolding spdlog_registry_def
proof (intro conjI allI impI)
  fix name g i g'
  assume c: "sp_stdout_color_mt memory_spdlog name g = (Inr i, g')"
  then have n: "name \<notin> set (map fst g)" and g': "i = length g" "g' = g @ [(name, ''info'')]"
    by (auto simp: memory_spdlog_def split: if_splits)
  show "sp_get memory_spdlog name g = None" using n by (simp add: memory_spdlog_def)
  have "takeWhile (\<lambda>m. m \<noteq> name) (map fst g) = map fst g" using n by (auto simp: takeWhile_eq_all_conv)
  then show "sp_get memory_spdlog name g' = Some i"
    using n by (auto simp: memory_spdlog_def g' takeWhile_append)
  show "sp_get memory_spdlog other g' = sp_get memory_spdlog other g" if "other \<noteq> name" for other
    using that by (auto simp: memory_spdlog_def g' takeWhile_append)
next
  fix i l name and g :: "(string \<times> string) list"
  assume "sp_get memory_spdlog name g = Some i"
  then have "i < length g" using takeWhile_member [of name "map fst g"] by (auto simp: memory_spdlog_def split: if_splits)
  then show "sp_level memory_spdlog i (sp_set_level memory_spdlog i l g) = l"
    by (simp add: memory_spdlog_def)
qed (simp_all add: memory_spdlog_def map_fst_update del: set_map split: if_splits)

text \<open>
  The factory yields one logger: a call that succeeds makes it the registered one, with the level
  asked for, and every later call returns the same logger and only changes its level.
\<close>

lemma createDefault_registered:
  assumes S: "spdlog_registry S" and c: "LoggerFactory_createDefault S level g = (Inr i, g')"
  shows "sp_get S logger_name g' = Some i \<and> sp_level S i g' = sp_from_str S level"
proof -
  have *: "sp_get S logger_name (sp_set_level S i l h) = Some i \<and> sp_level S i (sp_set_level S i l h) = l"
    if "sp_get S logger_name h = Some i" for h l
    using S that unfolding spdlog_registry_def by metis
  show ?thesis
  proof (cases "sp_get S logger_name g")
    case (Some j)
    with c * show ?thesis by (auto simp: LoggerFactory_createDefault_def)
  next
    case None
    with c obtain g1 where g1: "sp_stdout_color_mt S logger_name g = (Inr i, g1)"
      and g': "g' = sp_set_level S i (sp_from_str S level) (sp_set_pattern S i logger_pattern g1)"
      by (auto simp: LoggerFactory_createDefault_def split: prod.splits sum.splits)
    have "sp_get S logger_name (sp_set_pattern S i logger_pattern g1) = Some i"
      using S g1 unfolding spdlog_registry_def by metis
    with * g' show ?thesis by blast
  qed
qed

lemma createDefault_again:
  assumes "spdlog_registry S" and "LoggerFactory_createDefault S level g = (Inr i, g')"
  shows "LoggerFactory_createDefault S level' g' = (Inr i, sp_set_level S i (sp_from_str S level') g')"
  using createDefault_registered [OF assms] by (simp add: LoggerFactory_createDefault_def)

end
