(* ===== verification/Server.thy ===== *)
theory Server
  imports Backend Logging
begin

text \<open>
  \<open>core/threading/thread_pool.{hpp,cpp}\<close>, \<open>infrastructure/network/server.{hpp,cpp}\<close> and
  \<open>main.cpp\<close>: the parts put together and the start/stop protocol. Threads are counted; an
  \<open>io_context\<close> that was stopped stays stopped, because nothing restarts it.
\<close>

section \<open>ThreadPool\<close>

record thread_pool =
  tp_guard :: bool          \<comment> \<open>the work guard is set\<close>
  tp_stopped :: bool        \<comment> \<open>\<open>io_context::stopped()\<close>\<close>
  tp_workers :: nat

definition ThreadPool_new :: thread_pool where
  "ThreadPool_new = \<lparr>tp_guard = True, tp_stopped = False, tp_workers = 0\<rparr>"

definition ThreadPool_start :: "size_t \<Rightarrow> thread_pool \<Rightarrow> thread_pool" where
  "ThreadPool_start threads p = p\<lparr>tp_workers := tp_workers p + unat threads\<rparr>"

definition ThreadPool_stop :: "thread_pool \<Rightarrow> thread_pool" where
  "ThreadPool_stop p = p\<lparr>tp_guard := False, tp_stopped := True, tp_workers := 0\<rparr>"

text \<open>\<open>io_context::run\<close> executes handlers only while the context is not stopped.\<close>

definition serving :: "thread_pool \<Rightarrow> bool" where
  "serving p \<longleftrightarrow> 0 < tp_workers p \<and> \<not> tp_stopped p"

section \<open>Server\<close>

record 'q server =
  sv_config :: AppConfig
  sv_running :: bool
  sv_pool :: thread_pool
  sv_actors :: "'q actor_system"
  sv_jwtService :: JwtService
  sv_ws :: ws_listener
  sv_wsAccepts :: nat       \<comment> \<open>outstanding \<open>async_accept\<close> calls of the listeners\<close>
  sv_httpAccepts :: nat

text \<open>
  The constructor: the token service and the actors, then the address (which may not parse),
  then the two listeners (which may fail to bind).
\<close>

definition Server_new ::
  "'q queue_lib \<Rightarrow> (string \<Rightarrow> unit result) \<Rightarrow> (16 word \<Rightarrow> ws_listener result) \<Rightarrow> (16 word \<Rightarrow> unit result)
     \<Rightarrow> AppConfig \<Rightarrow> 'q server result" where
  "Server_new Q make_address ws_new http_new config =
     (let mailboxSize = sc_mailboxCapacity (cfg_server config);
          actors = server_actors Q mailboxSize in
      rbind (make_address (sc_host (cfg_server config))) (\<lambda>_.
      rbind (ws_new (sc_wsPort (cfg_server config))) (\<lambda>ws.
      rbind (http_new (sc_httpPort (cfg_server config))) (\<lambda>_.
        Inr \<lparr>sv_config = config, sv_running = False, sv_pool = ThreadPool_new, sv_actors = actors,
             sv_jwtService = JwtService_new (sec_jwtSecret (cfg_security config)), sv_ws = ws, sv_wsAccepts = 0, sv_httpAccepts = 0\<rparr>))))"

definition Server_run :: "'q server \<Rightarrow> 'q server" where
  "Server_run s =
     (if sv_running s then s
      else s\<lparr>sv_running := True,
             sv_wsAccepts := Suc (sv_wsAccepts s),
             sv_httpAccepts := Suc (sv_httpAccepts s),
             sv_actors := ActorSystem_start (unat (sc_actorThreads (cfg_server (sv_config s)))) (sv_actors s),
             sv_pool := ThreadPool_start (sc_networkThreads (cfg_server (sv_config s))) (sv_pool s)\<rparr>)"

definition Server_stop :: "'q server \<Rightarrow> 'q server" where
  "Server_stop s =
     (if \<not> sv_running s then s
      else s\<lparr>sv_running := False, sv_pool := ThreadPool_stop (sv_pool s),
             sv_actors := ActorSystem_stop (sv_actors s)\<rparr>)"

interpretation server: lifecycle "\<lambda>_ :: unit. Server_run" Server_stop sv_running
  by unfold_locales (auto simp: Server_run_def Server_stop_def)

section \<open>main\<close>

definition connection_string :: "DatabaseConfig \<Rightarrow> string" where
  "connection_string db =
     ''host='' @ dc_host db @ '' port='' @ to_string (unat (dc_port db)) @ '' user='' @ dc_user db @
     '' password='' @ dc_password db @ '' dbname='' @ dc_db db"

text \<open>
  \<open>main\<close> up to and including \<open>server.run()\<close>, and from the signal on. An exception before that
  ends the program.
\<close>

definition main_start ::
  "('g, 'l) spdlog_lib \<Rightarrow> 'y yaml_lib \<Rightarrow> 'q queue_lib \<Rightarrow> (string \<Rightarrow> 'c connector) \<Rightarrow> (string \<Rightarrow> unit result) \<Rightarrow>
     (16 word \<Rightarrow> ws_listener result) \<Rightarrow> (16 word \<Rightarrow> unit result) \<Rightarrow> 'g \<Rightarrow>
     ('c postgres_pool \<times> 'q server) result \<times> 'g" where
  "main_start S Y Q connect make_address ws_new http_new g =
     (case ConfigLoader_fromFile Y ''config/server.yaml'' of
        Inl e \<Rightarrow> (Inl e, g)
      | Inr config \<Rightarrow>
          (case LoggerFactory_createDefault S (cfg_level config) g of
             (Inl e, g') \<Rightarrow> (Inl e, g')
           | (Inr logger, g') \<Rightarrow>
               (rbind (PostgresPool_new (connect (connection_string (cfg_database config)))
                         (ucast (dc_poolSize (cfg_database config)))) (\<lambda>pg.
                rbind (Server_new Q make_address ws_new http_new config) (\<lambda>server.
                  Inr (pg, Server_run server))), g')))"

definition main_signalled :: "'c postgres_pool \<times> 'q server \<Rightarrow> 'c postgres_pool \<times> 'q server" where
  "main_signalled ps = (fst ps, Server_stop (snd ps))"

text \<open>
  The settings of a connection can be read off its string as long as no value contains a blank; a
  password with a blank can say which database is opened.
\<close>

lemma field_eq:
  assumes "CHR '' '' \<notin> set a" and "CHR '' '' \<notin> set b"
  shows "a @ CHR '' '' # x = b @ CHR '' '' # y \<longleftrightarrow> a = b \<and> x = y"
  using assms
proof (induction a arbitrary: b)
  case Nil
  then show ?case by (cases b) auto
next
  case (Cons c a)
  then show ?case by (cases b) auto
qed

lemma port_no_blank: "CHR '' '' \<notin> set (to_string n)"
  using radix_digits_set [of 10 n] by (auto simp: to_string_def)

definition blank_free :: "DatabaseConfig \<Rightarrow> bool" where
  "blank_free db \<longleftrightarrow> CHR '' '' \<notin> set (dc_host db) \<and> CHR '' '' \<notin> set (dc_user db) \<and> CHR '' '' \<notin> set (dc_password db)"

lemma connection_string_inject:
  assumes "connection_string a = connection_string b" and "blank_free a" and "blank_free b"
  shows "dc_host a = dc_host b \<and> dc_port a = dc_port b \<and> dc_user a = dc_user b \<and>
    dc_password a = dc_password b \<and> dc_db a = dc_db b"
  using assms
  by (simp add: connection_string_def blank_free_def field_eq port_no_blank word_unat_eq_iff)

lemma connection_string_collides:
  "connection_string \<lparr>dc_host = h, dc_port = n, dc_user = u, dc_password = ''x dbname=y'', dc_db = d, dc_poolSize = k\<rparr> =
   connection_string \<lparr>dc_host = h, dc_port = n, dc_user = u, dc_password = ''x'', dc_db = ''y dbname='' @ d, dc_poolSize = k\<rparr>"
  by (simp add: connection_string_def)

section \<open>Sequences of calls\<close>

datatype server_call = CallRun | CallStop

fun server_calls :: "server_call list \<Rightarrow> 'q server \<Rightarrow> 'q server" where
  "server_calls [] s = s"
| "server_calls (CallRun # cs) s = server_calls cs (Server_run s)"
| "server_calls (CallStop # cs) s = server_calls cs (Server_stop s)"

definition threads_ok :: "'q server \<Rightarrow> bool" where
  "threads_ok s \<longleftrightarrow>
     as_running (sv_actors s) = sv_running s \<and>
     as_workers (sv_actors s) = (if sv_running s then unat (sc_actorThreads (cfg_server (sv_config s))) else 0) \<and>
     tp_workers (sv_pool s) = (if sv_running s then unat (sc_networkThreads (cfg_server (sv_config s))) else 0)"

lemma threads_ok_run [wf_intros]: "threads_ok s \<Longrightarrow> threads_ok (Server_run s)"
  by (auto simp: threads_ok_def Server_run_def ActorSystem_start_def ThreadPool_start_def)

lemma threads_ok_stop [wf_intros]: "threads_ok s \<Longrightarrow> threads_ok (Server_stop s)"
  by (auto simp: threads_ok_def Server_stop_def ActorSystem_stop_def ThreadPool_stop_def)

lemma threads_ok_calls: "threads_ok s \<Longrightarrow> threads_ok (server_calls cs s)"
  by (induction cs s rule: server_calls.induct) (auto intro: wf_intros)

lemma config_calls [simp]: "sv_config (server_calls cs s) = sv_config s"
  by (induction cs s rule: server_calls.induct) (auto simp: Server_run_def Server_stop_def)

lemma stopped_calls: "tp_stopped (sv_pool s) \<Longrightarrow> tp_stopped (sv_pool (server_calls cs s))"
  by (induction cs s rule: server_calls.induct)
    (auto simp: Server_run_def Server_stop_def ThreadPool_start_def ThreadPool_stop_def)

lemma Server_new_state:
  assumes "Server_new Q make_address ws_new http_new config = Inr s"
  shows "sv_config s = config \<and> \<not> sv_running s \<and> sv_pool s = ThreadPool_new \<and>
    sv_actors s = server_actors Q (sc_mailboxCapacity (cfg_server config)) \<and>
    sv_jwtService s = JwtService_new (sec_jwtSecret (cfg_security config)) \<and> threads_ok s"
  using assms
  by (auto simp: Server_new_def rbind_eq_Inr Let_def threads_ok_def ThreadPool_new_def server_actors_def
      actor_new_defs ActorSystem_registerActor_def ActorSystem_new_def)

section \<open>Properties\<close>

text \<open>
  Threads of the server. Whatever sequence of \<open>run\<close> and \<open>stop\<close> calls a constructed server sees,
  it has exactly the configured numbers of actor and network threads while it is running and none
  otherwise: repeated calls neither start threads twice nor leave any behind.
\<close>

theorem server_threads:
  assumes "Server_new Q make_address ws_new http_new config = Inr s"
  shows "let s' = server_calls cs s in
    as_running (sv_actors s') = sv_running s' \<and>
    as_workers (sv_actors s') = (if sv_running s' then unat (sc_actorThreads (cfg_server config)) else 0) \<and>
    tp_workers (sv_pool s') = (if sv_running s' then unat (sc_networkThreads (cfg_server config)) else 0)"
proof -
  have "threads_ok (server_calls cs s)" using Server_new_state [OF assms] threads_ok_calls by blast
  then show ?thesis using Server_new_state [OF assms] by (simp add: threads_ok_def Let_def)
qed

definition demo_config :: AppConfig where
  "demo_config =
     \<lparr>cfg_server = default_server,
      cfg_database = \<lparr>dc_host = ''h'', dc_port = 5, dc_user = ''u'', dc_password = ''p'', dc_db = ''d'', dc_poolSize = 2\<rparr>,
      cfg_security = default_security, cfg_level = default_level\<rparr>"

definition demo_server :: "(addr list \<times> nat) server" where
  "demo_server =
     \<lparr>sv_config = demo_config, sv_running = False, sv_pool = ThreadPool_new,
      sv_actors = server_actors list_queue 65536, sv_jwtService = JwtService_new ''change-me'', sv_ws = WebSocketListener_init, sv_wsAccepts = 0, sv_httpAccepts = 0\<rparr>"

lemma demo_server_new:
  "Server_new list_queue (\<lambda>_. Inr ()) (\<lambda>_. WebSocketListener_new None None None None)
     (\<lambda>_. HttpListener_new None None None None) demo_config = Inr demo_server"
  by (simp add: Server_new_def WebSocketListener_new_def HttpListener_new_def demo_server_def demo_config_def
      default_server_def default_security_def Let_def)

theorem server_threads_witness:
  "as_workers (sv_actors (server_calls [CallRun, CallRun] demo_server)) = 8 \<and>
   as_workers (sv_actors (server_calls [CallRun, CallRun, CallStop] demo_server)) = 0"
proof -
  have "sv_running (server_calls [CallRun, CallRun] demo_server)"
    "\<not> sv_running (server_calls [CallRun, CallRun, CallStop] demo_server)"
    by (simp_all add: Server_run_def Server_stop_def demo_server_def)
  with server_threads [OF demo_server_new, of "[CallRun, CallRun]"]
    server_threads [OF demo_server_new, of "[CallRun, CallRun, CallStop]"]
  show ?thesis by (simp only: Let_def if_True if_False) (simp add: demo_config_def default_server_def)
qed

text \<open>
  C34. A stopped server cannot be restarted. It serves after \<open>run\<close>; once \<open>stop\<close> was called on a running
  server, no later sequence of calls makes its network threads execute a handler again, although
  \<open>run\<close> reports it as running, because the stopped \<open>io_context\<close> is never restarted.
\<close>

theorem server_restart_dead:
  assumes "Server_new Q make_address ws_new http_new config = Inr s"
    and "sc_networkThreads (cfg_server config) \<noteq> 0"
  shows "serving (sv_pool (Server_run s)) \<and>
    \<not> serving (sv_pool (server_calls cs (Server_stop (Server_run s)))) \<and>
    sv_running (Server_run (Server_stop (Server_run s)))"
proof -
  note n = Server_new_state [OF assms(1)]
  have "0 < unat (sc_networkThreads (cfg_server config))" using assms(2) by (simp add: unat_gt_0)
  with n have "serving (sv_pool (Server_run s))"
    by (auto simp: serving_def Server_run_def ThreadPool_start_def ThreadPool_new_def)
  moreover have "tp_stopped (sv_pool (Server_stop (Server_run s)))"
    using n by (simp add: Server_run_def Server_stop_def ThreadPool_stop_def)
  from stopped_calls [OF this, of cs] have "\<not> serving (sv_pool (server_calls cs (Server_stop (Server_run s))))"
    by (simp add: serving_def)
  ultimately show ?thesis using server.start_running by blast
qed

theorem server_restart_dead_witness:
  "serving (sv_pool (Server_run demo_server)) \<and>
   \<not> serving (sv_pool (server_calls [CallRun] (Server_stop (Server_run demo_server))))"
  using server_restart_dead [OF demo_server_new, of "[CallRun]"]
  by (simp add: demo_config_def default_server_def)

text \<open>
  C33. A run of the program that gets through its start ends, after the signal, with every thread
  joined; a start needs at least one database connection, sets up the program's logger with the
  configured level, and what it runs is the initial state of the server for which the runtime's
  guarantees are proved: its actor system, and its token service with the configured secret.
\<close>

theorem main_lifecycle:
  assumes "main_start S Y Q connect make_address ws_new http_new g = (Inr (pg, s), g')" and "spdlog_registry S"
  shows "pool pg \<noteq> [] \<and> sv_running s \<and>
    (\<exists>logger. sp_get S ''svitock'' g' = Some logger \<and> sp_level S logger g' = sp_from_str S (cfg_level (sv_config s))) \<and>
    (\<forall>T d. lib_queue (sl_libs T) = Q \<longrightarrow>
       sv_actors s = c_sys (b_config (backend_init T (sv_config s) d)) \<and>
       sv_jwtService s = hr_jwtService (b_router (backend_init T (sv_config s) d))) \<and>
    (let s' = snd (main_signalled (pg, s)) in
       \<not> sv_running s' \<and> as_workers (sv_actors s') = 0 \<and> tp_workers (sv_pool s') = 0)"
proof -
  from assms(1) obtain config s0 logger where
    lg: "LoggerFactory_createDefault S (cfg_level config) g = (Inr logger, g')"
    and pg: "PostgresPool_new (connect (connection_string (cfg_database config)))
      (ucast (dc_poolSize (cfg_database config))) = Inr pg"
    and s0: "Server_new Q make_address ws_new http_new config = Inr s0" and s: "s = Server_run s0"
    by (auto simp: main_start_def rbind_eq_Inr split: sum.splits prod.splits)
  from createDefault_registered [OF assms(2) lg]
  have l: "sp_get S ''svitock'' g' = Some logger" "sp_level S logger g' = sp_from_str S (cfg_level config)"
    by (simp_all add: logger_name_def)
  note n = Server_new_state [OF s0]
  from pg obtain cs where cs: "pool_fill (connect (connection_string (cfg_database config))) 0
      (unat (ucast (dc_poolSize (cfg_database config)) :: size_t)) [] = Inr cs" and "pool pg = cs"
    and z: "(ucast (dc_poolSize (cfg_database config)) :: size_t) \<noteq> 0"
    by (auto simp: PostgresPool_new_def rbind_eq_Inr split: if_splits)
  have "0 < unat (ucast (dc_poolSize (cfg_database config)) :: size_t)" using z by (metis unat_gt_0)
  with pool_fill_length [OF cs] \<open>pool pg = cs\<close> have "pool pg \<noteq> []" by auto
  moreover have "threads_ok (Server_stop s)"
    using n s by (simp add: threads_ok_run threads_ok_stop)
  moreover have "\<not> sv_running (Server_stop s)" using server.stop_running by blast
  moreover have "sv_config s = config" using n s by (simp add: Server_run_def)
  ultimately show ?thesis
    using n s l by (simp add: main_signalled_def threads_ok_def Let_def)
      (auto simp add: Server_run_def backend_init_def net_init_def init_config_def)
qed

theorem main_lifecycle_witness:
  "\<exists>pg s g'. main_start memory_spdlog (tree_yaml [(''config/server.yaml'', demo_yaml)]) list_queue (\<lambda>_ i. Inr (i, True)) (\<lambda>_. Inr ())
       (\<lambda>_. WebSocketListener_new None None None None) (\<lambda>_. HttpListener_new None None None None) [] = (Inr (pg, s), g') \<and>
     pool pg \<noteq> [] \<and> sp_get memory_spdlog ''svitock'' g' \<noteq> None \<and>
     as_workers (sv_actors (snd (main_signalled (pg, s)))) = 0"
proof -
  let ?m = "main_start memory_spdlog (tree_yaml [(''config/server.yaml'', demo_yaml)]) list_queue (\<lambda>_ i. Inr (i, True)) (\<lambda>_. Inr ())
       (\<lambda>_. WebSocketListener_new None None None None) (\<lambda>_. HttpListener_new None None None None) []"
  have "is_ok (fst ?m)" by code_simp
  then obtain pg s g' where m: "?m = (Inr (pg, s), g')" by (cases ?m) (auto simp: is_ok_iff)
  from main_lifecycle [OF m memory_spdlog_ok] m
  show ?thesis by (auto simp: Let_def)
qed

end
