(* ===== verification/Server_History.thy ===== *)
theory Server_History
  imports Backend
begin

text \<open>
  The order of the histories the whole server answers over HTTP: the route, the repository, the
  log the actors write and the order in which a single actor thread works, put together.
\<close>

section \<open>Histories of a live server\<close>

lemma asked_texts_subseq: "subseq ps qs \<Longrightarrow> subseq (asked_texts U c ps) (asked_texts U c qs)"
  unfolding asked_texts_def by (intro subseq_map subseq_filter)

lemma contents_newest:
  assumes "map stored ms = take n (rev (filter (in_chat c) xs))"
  shows "map msg_content ms = take n (rev (stored_texts c xs))"
proof -
  have "map msg_content ms = map (\<lambda>m. snd (snd (snd m))) (map stored ms)" by (simp add: stored_def)
  also have "\<dots> = take n (rev (stored_texts c xs))" by (simp only: assms stored_texts_def take_map rev_map)
  finally show ?thesis .
qed

text \<open>With one actor thread that has nothing left to do, all frames were stored, in their order.\<close>

lemma single_worker_log:
  assumes "lockfree_queue (lib_queue L) cont nodes" and "steps L (init_config L cap 1 d) c"
    and "quiescent cont c" and "c_lost c = []"
  shows "persisted (c_done c) = asked (c_accepted c)"
proof -
  have "length (persisted (c_done c)) = length (asked (c_accepted c))"
    using persisted_asked(2) [OF assms] by (metis size_mset)
  with persisted_in_order [OF assms(1,2)] show ?thesis by (metis subseq_same_length)
qed

section \<open>Properties\<close>

text \<open>
  C2. What a client sees when it asks for the history of a chat. In every run of the whole server
  on the Postgres repository that is still alive, a \<open>GET /chat/<id>/messages\<close> that is answered lists
  the first 50 of the chat's messages in the order of falling stamps; the chat's texts are those it
  had before the run followed by those the storage actor stored in this run, in the order of its
  calls. If the server is configured with one actor thread, so that no two storage calls overlap, and
  if the database's clock advances (a transaction starts later than the transactions committed
  before did, and \<open>NOW()\<close> is its start), the list is in the reverse order of the calls, and the
  listed texts read backwards are in the order in which the frames that sent them were accepted;
  once all work has come to rest and no mailbox was full, it is exactly the newest 50 of all texts
  sent.
\<close>

theorem history_newest_first:
  assumes "sl_libs S = L" and "lockfree_queue (lib_queue L) cont nodes" and "lib_repo L = pg_message_repository P (lib_uuid L)"
    and "messages_inv P (lib_uuid L) (table_of rows) s" and "postgres_order P rows"
    and "backend_run S ls (backend_init S config s) = Some b" and "b_alive b"
    and "rq_method q = get_verb" and "rq_target q = ''/chat/'' @ uuid_to_string (lib_uuid L) c @ ''/messages''"
    and "std_string (rq_target q)" and "b_route S (b_router b) now stamp q (b_db b) = (Inr r, s')"
  shows "rs_status r = 200 \<and> (\<exists>ms.
    dump (lib_json L) (JArray (map (message_json (lib_json L) (lib_uuid L)) ms)) = Inr (rs_body r) \<and>
    (let old = stored_texts c (pg_messages (lib_uuid L) (table_of rows) s);
         new = asked_texts (lib_uuid L) c (persisted (c_done (b_config b)));
         sent = asked_texts (lib_uuid L) c (asked (c_accepted (b_config b))) in
     (\<exists>xs. mset xs = mset (filter (\<lambda>x. snd x ! 1 = uuid_to_string (lib_uuid L) c) (rows (pg_db (b_db b)))) \<and>
        newest_first xs \<and> map stored ms = map (row_stored (lib_uuid L)) (map snd (take 50 xs))) \<and>
     stored_texts c (pg_messages (lib_uuid L) (table_of rows) (b_db b)) = old @ new \<and>
     (sc_actorThreads (cfg_server config) = 1 \<longrightarrow> transaction_time P rows clock \<longrightarrow> increasing (rows (pg_db s)) \<longrightarrow>
        map msg_content ms = take 50 (rev (old @ new)) \<and> subseq new sent \<and>
        (quiescent cont (b_config b) \<longrightarrow> c_lost (b_config b) = [] \<longrightarrow>
           map msg_content ms = take 50 (rev (old @ sent))))))"
proof -
  let ?U = "lib_uuid L" and ?c = "b_config b"
  let ?old = "stored_texts c (pg_messages ?U (table_of rows) s)" and ?new = "asked_texts ?U c (persisted (c_done ?c))"
  note reach = backend_reachable [OF assms(6), unfolded assms(1)]
  have alive: "c_crashed ?c = None" using assms(7) by (simp add: b_alive_def)
  note chat = live_chat [OF assms(2-4) reach(1) alive]
  have route: "HttpRouter_route (sl_sha1 S) (lib_json L) ?U (pg_message_repository P ?U) (hr_jwtService (b_router b))
      now stamp q (b_db b) = (Inr r, s')"
    using assms(11) backend_repository [OF assms(6)] by (simp add: b_route_def assms(1,3))
  from assms(4) have U: "boost_uuid ?U" by (simp add: messages_inv_def)
  from history_reads [OF U assms(8-10) route] obtain ms where
    g: "PostgresMessageRepository_getByChat P ?U c 50 stamp (b_db b) = (Inr ms, s')"
    and r: "rs_status r = 200" "dump (lib_json L) (JArray (map (message_json (lib_json L) ?U) ms)) = Inr (rs_body r)" .
  have sorted: "\<exists>xs. mset xs = mset (filter (\<lambda>x. snd x ! 1 = uuid_to_string ?U c) (rows (pg_db (b_db b)))) \<and>
      newest_first xs \<and> map stored ms = map (row_stored ?U) (map snd (take 50 xs))"
    by (rule history_sorted [OF assms(5) chat(2) g]) auto
  have list: "map msg_content ms = take 50 (rev (?old @ ?new))"
    if "transaction_time P rows clock" "increasing (rows (pg_db s))"
  proof -
    have "ordered_inv P ?U rows clock s"
      using that assms(4,5) by (simp add: ordered_inv_def messages_inv_def)
    then have "ordered_inv P ?U rows clock (b_db b)"
      using pgo.logged_steps [OF assms(3) [unfolded pg_message_repository_def] reach(1)] by blast
    from contents_newest [OF pgo.newest [OF this g]] show ?thesis by (simp add: chat(1))
  qed
  have one: "steps L (init_config L (sc_mailboxCapacity (cfg_server config)) 1 s) ?c"
    if "sc_actorThreads (cfg_server config) = 1" using reach(1) that by simp
  have frames: "subseq ?new (asked_texts ?U c (asked (c_accepted ?c))) \<and>
      (quiescent cont ?c \<longrightarrow> c_lost ?c = [] \<longrightarrow> ?new = asked_texts ?U c (asked (c_accepted ?c)))"
    if "sc_actorThreads (cfg_server config) = 1"
    using asked_texts_subseq [OF persisted_in_order [OF assms(2) one [OF that]]]
      single_worker_log [OF assms(2) one [OF that]] by auto
  show ?thesis unfolding Let_def
    by (intro conjI exI [of _ ms] r sorted chat(1) impI; (use list frames in fastforce)?)
qed

definition talk_frame :: "string \<Rightarrow> json" where
  "talk_frame t = JObject [(''chat_id'', JString ''1''), (''payload'', JObject [(''text'', JString t)]),
     (''sender_id'', JString ''2''), (''type'', JString ''send_message'')]"

definition talk_echo :: "string \<Rightarrow> json" where
  "talk_echo t = JObject [(''chat_id'', JString ''1''), (''payload'', JObject [(''text'', JString t)]),
     (''type'', JString ''message_delivered'')]"

definition talk_libs :: "(addr list \<times> nat, (nat, mem_db) pg_state, 32 word) server_libs" where
  "talk_libs = full_libs\<lparr>sl_libs := (sl_libs full_libs)\<lparr>lib_json := table_json
     [(''m1'', talk_frame ''a''), (''m2'', talk_frame ''b''), (''e1'', talk_echo ''a''), (''e2'', talk_echo ''b''),
      (''history'', JArray [JObject [(''id'', JString ''9''), (''text'', JString ''b'')],
                            JObject [(''id'', JString ''9''), (''text'', JString ''a'')]])]\<rparr>\<rparr>"

definition talk_run :: "backend_label list" where
  "talk_run = map BNet ([NConnect False, NAccept 0 False, NRead 0 False ''m1'', NRead 0 False ''m2''] @
     map NWorker (visit 0 message 1 @ visit 0 message 1 @ visit 0 chat 2 @ visit 0 chat 2 @
       visit 0 storage 1 @ visit 0 storage 1 @ visit 0 session 1 @ visit 0 session 1))"

lemma talk_queue: "lockfree_queue (lib_queue (sl_libs talk_libs)) fst snd"
  by (simp add: talk_libs_def full_libs_def list_queue_ok)

theorem history_newest_first_witness:
  "\<exists>b r s' ms. backend_run talk_libs talk_run (backend_init talk_libs full_config memory_state) = Some b \<and>
     b_route talk_libs (b_router b) 0 7 full_request (b_db b) = (Inr r, s') \<and> rs_body r = ''history'' \<and>
     dump (lib_json (sl_libs talk_libs)) (JArray (map (message_json (lib_json (sl_libs talk_libs)) hex_uuid) ms)) = Inr ''history'' \<and>
     map msg_content ms = [''b'', ''a'']"
proof -
  let ?L = "sl_libs talk_libs" and ?b0 = "backend_init talk_libs full_config memory_state"
  let ?f = "\<lambda>b. (c_busy (b_config b), map (inbox fst (c_sys (b_config b))) [session, chat, message, storage],
      c_lost (b_config b), c_crashed (b_config b), b_dead b, asked (c_accepted (b_config b)),
      map_sum id rs_body (fst (b_route talk_libs (b_router b) 0 7 full_request (b_db b))))"
  have "map_option ?f (backend_run talk_libs talk_run ?b0) =
      Some (replicate 1 None, [[], [], [], []], [], None, None, [demo_persist ''a'', demo_persist ''b''], Inr ''history'')"
    by code_simp
  then obtain b where run: "backend_run talk_libs talk_run ?b0 = Some b"
    and v: "?f b = (replicate 1 None, [[], [], [], []], [], None, None, [demo_persist ''a'', demo_persist ''b''], Inr ''history'')"
    by (rule backend_obtain)
  obtain x s' where x: "b_route talk_libs (b_router b) 0 7 full_request (b_db b) = (x, s')" by fastforce
  with v obtain r where r: "x = Inr r" "rs_body r = ''history''" by (cases x) auto
  have u: "lib_uuid ?L = hex_uuid" "lib_repo ?L = pg_message_repository memory_pg (lib_uuid ?L)"
    by (simp_all add: talk_libs_def full_libs_def)
  have t: "rq_target full_request = ''/chat/'' @ uuid_to_string (lib_uuid ?L) 1 @ ''/messages''"
    unfolding u(1) by code_simp
  have m: "rq_method full_request = get_verb" "std_string (rq_target full_request)"
    by (simp_all add: full_request_def std_string_def)
  have alive: "b_alive b" using v by (simp add: b_alive_def)
  have q: "quiescent fst (b_config b)" using v by (intro quiescentI [of _ 1]) simp_all
  have one: "sc_actorThreads (cfg_server full_config) = 1" by (simp add: full_config_def)
  have old: "stored_texts 1 (pg_messages hex_uuid (table_of mem_rows) memory_state) = []"
    by (simp add: stored_texts_def pg_messages_def memory_state_def mem_messages_def)
  have new: "asked_texts hex_uuid 1 [demo_persist ''a'', demo_persist ''b''] = [''a'', ''b'']" by code_simp
  have a: "asked (c_accepted (b_config b)) = [demo_persist ''a'', demo_persist ''b'']" "c_lost (b_config b) = []"
    using v by simp_all
  have inv: "messages_inv memory_pg hex_uuid (table_of mem_rows) memory_state"
    using log_start by (simp add: messages_inv_def memory_pg_messages)
  have up: "increasing (mem_rows (pg_db memory_state))" by (rule mem_rows_increasing)
  from history_newest_first [OF refl talk_queue u(2) inv [folded u(1)] memory_pg_order run alive m(1) t m(2) x [unfolded r(1)]]
  obtain ms where d: "dump (lib_json ?L) (JArray (map (message_json (lib_json ?L) hex_uuid) ms)) = Inr (rs_body r)"
    and "map msg_content ms = take 50 (rev (stored_texts 1 (pg_messages hex_uuid (table_of mem_rows) memory_state) @
      asked_texts hex_uuid 1 (asked (c_accepted (b_config b)))))"
    using q a(2) one memory_time up unfolding Let_def u(1) by blast
  then have "map msg_content ms = [''b'', ''a'']" unfolding a(1) old new by simp
  with run x r d show ?thesis by auto
qed

end
