(* ===== verification/Direct_Ws.thy ===== *)
theory Direct_Ws
  imports Ws_Session Use_Cases
begin

text \<open>
  \<open>infrastructure/websocket/\<close>: the WebSocket layer that handles frames directly, without actors
  (\<open>message_dispatcher\<close>, \<open>session_manager\<close>, \<open>websocket_session\<close>, \<open>websocket_listener\<close>), and the
  event DTO of \<open>presentation/dto\<close>. These sources are not among the build's targets. Sessions are
  objects under a number; the session manager keeps weak references to them by user id.
\<close>

section \<open>WebSocketSession\<close>

record ds_session =
  ds_userId :: string
  ds_accepting :: bool
  ds_reading :: bool
  ds_posted :: "string list"
  ds_writeQueue :: "string list"
  ds_writes :: "string list"

definition DirectSession_new :: ds_session where
  "DirectSession_new =
     \<lparr>ds_userId = [], ds_accepting = False, ds_reading = False, ds_posted = [], ds_writeQueue = [],
      ds_writes = []\<rparr>"

definition DirectSession_run :: "ds_session \<Rightarrow> ds_session" where
  "DirectSession_run s = s\<lparr>ds_accepting := True\<rparr>"

definition DirectSession_doRead :: "ds_session \<Rightarrow> ds_session" where
  "DirectSession_doRead s = s\<lparr>ds_reading := True\<rparr>"

definition DirectSession_onAccept :: "bool \<Rightarrow> ds_session \<Rightarrow> ds_session" where
  "DirectSession_onAccept ec s =
     (let s = s\<lparr>ds_accepting := False\<rparr> in if ec then s else DirectSession_doRead s)"

definition DirectSession_setUserId :: "string \<Rightarrow> ds_session \<Rightarrow> ds_session" where
  "DirectSession_setUserId u s = s\<lparr>ds_userId := u\<rparr>"

definition DirectSession_sendText :: "string \<Rightarrow> ds_session \<Rightarrow> ds_session" where
  "DirectSession_sendText m s = s\<lparr>ds_posted := ds_posted s @ [m]\<rparr>"

definition DirectSession_doWrite :: "ds_session \<Rightarrow> ds_session" where
  "DirectSession_doWrite s = s\<lparr>ds_writes := ds_writes s @ [hd (ds_writeQueue s)]\<rparr>"

definition DirectSession_posted :: "ds_session \<Rightarrow> ds_session option" where
  "DirectSession_posted s =
     (case ds_posted s of
        [] \<Rightarrow> None
      | m # rest \<Rightarrow>
          (let isWriting = (ds_writeQueue s \<noteq> []);
               s' = s\<lparr>ds_posted := rest, ds_writeQueue := ds_writeQueue s @ [m]\<rparr>
           in Some (if \<not> isWriting then DirectSession_doWrite s' else s')))"

section \<open>SessionManager\<close>

text \<open>The map from user ids to weak references; its mutex makes each operation atomic.\<close>

type_synonym SessionManager = "string \<rightharpoonup> nat"

definition SessionManager_registerSession :: "string \<Rightarrow> nat \<Rightarrow> SessionManager \<Rightarrow> SessionManager" where
  "SessionManager_registerSession userId i m = m(userId \<mapsto> i)"

definition SessionManager_removeSession :: "string \<Rightarrow> SessionManager \<Rightarrow> SessionManager" where
  "SessionManager_removeSession userId m = m(userId := None)"

definition SessionManager_findSession :: "(nat \<Rightarrow> bool) \<Rightarrow> SessionManager \<Rightarrow> string \<Rightarrow> nat option" where
  "SessionManager_findSession alive m userId =
     (case m userId of None \<Rightarrow> None | Some i \<Rightarrow> if alive i then Some i else None)"

section \<open>The state of the layer\<close>

record 'd ds_world =
  dw_sessions :: "nat \<rightharpoonup> ds_session"
  dw_manager :: SessionManager
  dw_db :: 'd

definition ds_update :: "nat \<Rightarrow> (ds_session \<Rightarrow> ds_session) \<Rightarrow> 'd ds_world \<Rightarrow> 'd ds_world" where
  "ds_update i f w = w\<lparr>dw_sessions := (dw_sessions w)(i := map_option f (dw_sessions w i))\<rparr>"

definition ds_send :: "nat \<Rightarrow> string \<Rightarrow> 'd ds_world \<Rightarrow> 'd ds_world" where
  "ds_send i text w = ds_update i (DirectSession_sendText text) w"

definition ds_user :: "'d ds_world \<Rightarrow> nat \<Rightarrow> string" where
  "ds_user w i = (case dw_sessions w i of None \<Rightarrow> [] | Some s \<Rightarrow> ds_userId s)"

definition DirectSession_close :: "nat \<Rightarrow> 'd ds_world \<Rightarrow> 'd ds_world" where
  "DirectSession_close i w =
     (if ds_user w i \<noteq> []
      then w\<lparr>dw_manager := SessionManager_removeSession (ds_user w i) (dw_manager w)\<rparr> else w)"

definition DirectSession_onWrite :: "bool \<Rightarrow> ds_session \<Rightarrow> ds_session option" where
  "DirectSession_onWrite ec s =
     (case ds_writes s of
        [] \<Rightarrow> None
      | _ # rest \<Rightarrow>
          (let s = s\<lparr>ds_writes := rest\<rparr> in
           if ec then Some s
           else (let s' = s\<lparr>ds_writeQueue := tl (ds_writeQueue s)\<rparr>
                 in Some (if ds_writeQueue s' \<noteq> [] then DirectSession_doWrite s' else s'))))"

text \<open>A write completion on session \<open>i\<close>: on an error the session is closed.\<close>

definition ds_written :: "bool \<Rightarrow> nat \<Rightarrow> 'd ds_world \<Rightarrow> 'd ds_world" where
  "ds_written ec i w =
     (let w' = ds_update i (\<lambda>s. case DirectSession_onWrite ec s of None \<Rightarrow> s | Some s' \<Rightarrow> s') w
      in if ec then DirectSession_close i w' else w')"

section \<open>MessageDispatcher\<close>

text \<open>
  The dispatcher refers to the use case and to the session manager; the manager's entries are part
  of the state of the layer.
\<close>

record 'd MessageDispatcher =
  md_sendMessageUseCase :: "'d SendMessageUseCase"

definition MessageDispatcher_new :: "'d SendMessageUseCase \<Rightarrow> 'd MessageDispatcher" where
  "MessageDispatcher_new sendMessageUseCase = \<lparr>md_sendMessageUseCase = sendMessageUseCase\<rparr>"

definition direct_dispatcher :: "'d message_repository \<Rightarrow> 'd MessageDispatcher" where
  "direct_dispatcher R = MessageDispatcher_new (SendMessageUseCase_new R)"

abbreviation md_repository :: "'d MessageDispatcher \<Rightarrow> 'd message_repository" where
  "md_repository D \<equiv> sm_messageRepository (md_sendMessageUseCase D)"

lemma direct_dispatcher_repository [simp]: "md_repository (direct_dispatcher R) = R"
  by (simp add: direct_dispatcher_def MessageDispatcher_new_def)

definition direct_error :: "string \<Rightarrow> string" where
  "direct_error m = ''{\"type\":\"error\",\"payload\":{\"message\":\"'' @ m @ ''\"}}''"

definition handleAuth :: "json_lib \<Rightarrow> nat \<Rightarrow> json \<Rightarrow> 'd ds_world \<Rightarrow> unit result \<times> 'd ds_world" where
  "handleAuth J i msg w =
     (case value_str J msg ''user_id'' [] of
        Inl e \<Rightarrow> (Inl e, w)
      | Inr userId \<Rightarrow>
          if userId = [] then (Inr (), ds_send i (direct_error ''user_id required'') w)
          else (let w1 = ds_update i (DirectSession_setUserId userId) w;
                    w2 = w1\<lparr>dw_manager := SessionManager_registerSession userId i (dw_manager w1)\<rparr>
                in (Inr (), ds_send i ''{\"type\":\"auth_ok\"}'' w2)))"

definition direct_outgoing :: "json_lib \<Rightarrow> string \<Rightarrow> string \<Rightarrow> string \<Rightarrow> json" where
  "direct_outgoing J chatIdStr userId text =
     init_list J [jpair J ''type'' (JString ''message_delivered''),
                  jpair J ''chat_id'' (JString chatIdStr),
                  jpair J ''from_user_id'' (JString userId),
                  jpair J ''payload'' (init_list J [JString ''text'', JString text])]"

text \<open>The members the handler reads, in the order it reads them.\<close>

definition direct_fields :: "json_lib \<Rightarrow> json \<Rightarrow> (string \<times> string \<times> string) result" where
  "direct_fields J msg =
     rbind (value_str J msg ''chat_id'' []) (\<lambda>chatIdStr.
     rbind (value_str J msg ''to_user_id'' []) (\<lambda>toUserId.
     rbind (value_json J msg ''payload'' (JObject [])) (\<lambda>pl.
     rbind (value_str J pl ''text'' []) (\<lambda>text. Inr (chatIdStr, toUserId, text)))))"

text \<open>After the message was stored: the sender gets the text, then the recipient if it is found.\<close>

definition direct_deliver :: "nat \<Rightarrow> string \<Rightarrow> string \<Rightarrow> 'd ds_world \<Rightarrow> 'd ds_world" where
  "direct_deliver i toUserId text w =
     (let w1 = ds_send i text w in
      if toUserId = [] then w1
      else case SessionManager_findSession (\<lambda>k. dw_sessions w1 k \<noteq> None) (dw_manager w1) toUserId of
             None \<Rightarrow> w1
           | Some k \<Rightarrow> ds_send k text w1)"

definition handleSendMessage ::
  "json_lib \<Rightarrow> uuid_lib \<Rightarrow> 'd MessageDispatcher \<Rightarrow> uuid \<Rightarrow> time_point \<Rightarrow> nat \<Rightarrow> json \<Rightarrow> 'd ds_world
     \<Rightarrow> unit result \<times> 'd ds_world" where
  "handleSendMessage J U D rid now i msg w =
     (case direct_fields J msg of
        Inl e \<Rightarrow> (Inl e, w)
      | Inr (chatIdStr, toUserId, text) \<Rightarrow>
          if chatIdStr = [] \<or> text = [] then
            (Inr (), ds_send i (direct_error ''chat_id and payload.text required'') w)
          else if ds_user w i = [] then (Inr (), ds_send i (direct_error ''auth required'') w)
          else
            (case rbind (string_generator U chatIdStr) (\<lambda>c.
                  rbind (string_generator U (ds_user w i)) (\<lambda>u. Inr (c, u))) of
               Inl e \<Rightarrow> (Inl e, w)
             | Inr (chatId, senderId) \<Rightarrow>
                 (case SendMessageUseCase_execute (md_sendMessageUseCase D) rid now chatId senderId text (dw_db w) of
                    (Inl e, d') \<Rightarrow> (Inl e, w\<lparr>dw_db := d'\<rparr>)
                  | (Inr False, d') \<Rightarrow>
                      (Inr (), ds_send i (direct_error ''message not stored'') (w\<lparr>dw_db := d'\<rparr>))
                  | (Inr True, d') \<Rightarrow>
                      (case dump J (direct_outgoing J chatIdStr (ds_user w i) text) of
                         Inl e \<Rightarrow> (Inl e, w\<lparr>dw_db := d'\<rparr>)
                       | Inr out \<Rightarrow> (Inr (), direct_deliver i toUserId out (w\<lparr>dw_db := d'\<rparr>))))))"

text \<open>Both handlers only log the text of the event.\<close>

definition handleTyping :: "json_lib \<Rightarrow> json \<Rightarrow> unit result" where
  "handleTyping J msg = rbind (dump J msg) (\<lambda>_. Inr ())"

definition handleReadReceipt :: "json_lib \<Rightarrow> json \<Rightarrow> unit result" where
  "handleReadReceipt J msg = rbind (dump J msg) (\<lambda>_. Inr ())"

definition dispatchMessage ::
  "json_lib \<Rightarrow> uuid_lib \<Rightarrow> 'd MessageDispatcher \<Rightarrow> uuid \<Rightarrow> time_point \<Rightarrow> nat \<Rightarrow> string \<Rightarrow> 'd ds_world
     \<Rightarrow> unit result \<times> 'd ds_world" where
  "dispatchMessage J U D rid now i rawMessage w =
     (case parse_throw J rawMessage of
        Inl _ \<Rightarrow> (Inr (), ds_send i (direct_error ''invalid json'') w)
      | Inr msg \<Rightarrow>
          (case value_str J msg ''type'' [] of
             Inl e \<Rightarrow> (Inl e, w)
           | Inr type \<Rightarrow>
               if type = ''auth'' then handleAuth J i msg w
               else if type = ''send_message'' then handleSendMessage J U D rid now i msg w
               else if type = ''typing'' then (handleTyping J msg, w)
               else if type = ''message_read'' then (handleReadReceipt J msg, w)
               else if type = ''ping'' then (Inr (), ds_send i ''{\"type\":\"pong\"}'' w)
               else (Inr (), ds_send i (direct_error ''unsupported type'') w)))"

datatype ds_read = ReadClosed | ReadFailed | ReadFrame string

definition DirectSession_onRead ::
  "json_lib \<Rightarrow> uuid_lib \<Rightarrow> 'd MessageDispatcher \<Rightarrow> uuid \<Rightarrow> time_point \<Rightarrow> ds_read \<Rightarrow> nat \<Rightarrow> 'd ds_world
     \<Rightarrow> unit result \<times> 'd ds_world" where
  "DirectSession_onRead J U D rid now ec i w =
     (let w = ds_update i (\<lambda>s. s\<lparr>ds_reading := False\<rparr>) w in
      case ec of
        ReadClosed \<Rightarrow> (Inr (), DirectSession_close i w)
      | ReadFailed \<Rightarrow> (Inr (), DirectSession_close i w)
      | ReadFrame raw \<Rightarrow>
          (case dispatchMessage J U D rid now i raw w of
             (Inl e, w') \<Rightarrow> (Inl e, w')
           | (Inr _, w') \<Rightarrow> (Inr (), ds_update i DirectSession_doRead w')))"

section \<open>WebSocketListener\<close>

definition DirectListener_new ::
  "string option \<Rightarrow> string option \<Rightarrow> string option \<Rightarrow> string option \<Rightarrow> unit result" where
  "DirectListener_new ec_open ec_option ec_bind ec_listen =
     (case ec_open of Some m \<Rightarrow> Inl (RuntimeError (''acceptor open failed: '' @ m)) | None \<Rightarrow>
      case ec_option of Some m \<Rightarrow> Inl (RuntimeError (''acceptor set_option failed: '' @ m)) | None \<Rightarrow>
      case ec_bind of Some m \<Rightarrow> Inl (RuntimeError (''acceptor bind failed: '' @ m)) | None \<Rightarrow>
      case ec_listen of Some m \<Rightarrow> Inl (RuntimeError (''acceptor listen failed: '' @ m)) | None \<Rightarrow> Inr ())"

definition DirectListener_onAccept :: "bool \<Rightarrow> ds_session option" where
  "DirectListener_onAccept ec = (if ec then None else Some (DirectSession_run DirectSession_new))"

section \<open>MessageEventDto\<close>

record MessageEventDto =
  dto_type :: string
  dto_chatId :: string
  dto_payload :: json

definition dto_to_json :: "json_lib \<Rightarrow> MessageEventDto \<Rightarrow> json" where
  "dto_to_json J dto =
     init_list J [jpair J ''type'' (JString (dto_type dto)),
                  jpair J ''chat_id'' (JString (dto_chatId dto)), jpair J ''payload'' (dto_payload dto)]"

definition dto_from_json :: "json_lib \<Rightarrow> json \<Rightarrow> MessageEventDto result" where
  "dto_from_json J j =
     rbind (rbind (at_key J j ''type'') (get_string J)) (\<lambda>type.
     rbind (rbind (at_key J j ''chat_id'') (get_string J)) (\<lambda>chatId.
     rbind (at_key J j ''payload'') (\<lambda>pl.
       Inr \<lparr>dto_type = type, dto_chatId = chatId, dto_payload = pl\<rparr>)))"

section \<open>The interfaces\<close>

interpretation direct: serial_writer
  DirectSession_sendText DirectSession_posted DirectSession_onWrite ds_posted ds_writeQueue ds_writes
  by unfold_locales
    (auto simp: DirectSession_sendText_def DirectSession_posted_def DirectSession_onWrite_def
      DirectSession_doWrite_def Let_def)

interpretation both: serial_writer_pair
  WebSocketSession_send WebSocketSession_posted ws_write_done ws_posted ws_writeQueue ws_writes
  DirectSession_sendText DirectSession_posted DirectSession_onWrite ds_posted ds_writeQueue ds_writes
  by unfold_locales

interpretation manager: weak_registry
  SessionManager_registerSession SessionManager_removeSession SessionManager_findSession
  by unfold_locales
    (auto simp: SessionManager_registerSession_def SessionManager_removeSession_def SessionManager_findSession_def)

section \<open>Lemmas\<close>

lemma direct_outgoing_object:
  assumes "nlohmann_json J"
  shows "direct_outgoing J c u t = make_object
    [(''type'', JString ''message_delivered''), (''chat_id'', JString c), (''from_user_id'', JString u),
     (''payload'', JArray [JString ''text'', JString t])]"
proof -
  have "init_list J [JString ''text'', JString t] = JArray [JString ''text'', JString t]"
    using assms by (simp add: nlohmann_json_def init_list_spec_def)
  then show ?thesis
    using init_list_pairs [OF assms, of "[(''type'', JString ''message_delivered''), (''chat_id'', JString c),
      (''from_user_id'', JString u), (''payload'', JArray [JString ''text'', JString t])]"]
    by (simp add: direct_outgoing_def)
qed

lemma ds_send_frame [simp]:
  "dw_manager (ds_send i t w) = dw_manager w" "dw_db (ds_send i t w) = dw_db w"
  by (simp_all add: ds_send_def ds_update_def)

lemma ds_send_sessions:
  "dw_sessions (ds_send i t w) = (dw_sessions w)(i := map_option (DirectSession_sendText t) (dw_sessions w i))"
  by (simp add: ds_send_def ds_update_def)

lemma direct_deliver_both:
  assumes "to \<noteq> []" and "dw_manager w to = Some k" and "dw_sessions w k = Some sk"
    and "dw_sessions w i = Some si" and "i \<noteq> k"
  shows "dw_sessions (direct_deliver i to t w) i = Some (DirectSession_sendText t si) \<and>
    dw_sessions (direct_deliver i to t w) k = Some (DirectSession_sendText t sk) \<and>
    dw_db (direct_deliver i to t w) = dw_db w"
  using assms
  by (simp add: direct_deliver_def SessionManager_findSession_def ds_send_sessions Let_def)

section \<open>Properties\<close>

text \<open>
  Direct delivery. A \<open>send_message\<close> frame of an authenticated session with a chat id that is a
  UUID and a text stores the message once, and sender and registered recipient both get the same
  text as their last message. In this text the payload is the array \<open>["text", ...]\<close> and not the
  object that clients of the actor-based layer receive.
\<close>

theorem direct_send_message:
  assumes "nlohmann_json J" and "boost_uuid U"
    and "parse_throw J raw = Inr (JObject kvs)"
    and "map_of kvs ''type'' = Some (JString ''send_message'')"
    and "map_of kvs ''chat_id'' = Some (JString (uuid_to_string U c))" and "uuid_to_string U c \<noteq> []"
    and "map_of kvs ''to_user_id'' = Some (JString to)" and "to \<noteq> []"
    and "map_of kvs ''payload'' = Some (JObject pl)" and "map_of pl ''text'' = Some (JString t)" and "t \<noteq> []"
    and "dw_sessions w i = Some si" and "ds_userId si = uuid_to_string U u" and "ds_userId si \<noteq> []"
    and "dw_manager w to = Some k" and "dw_sessions w k = Some sk" and "i \<noteq> k"
    and "mr_create (md_repository D) (Message_new rid c u t now) (dw_db w) = (Inr True, d')"
    and "dump J (direct_outgoing J (uuid_to_string U c) (ds_userId si) t) = Inr out"
  shows "\<exists>w'. dispatchMessage J U D rid now i raw w = (Inr (), w') \<and> dw_db w' = d' \<and>
      dw_sessions w' i = Some (DirectSession_sendText out si) \<and>
      dw_sessions w' k = Some (DirectSession_sendText out sk) \<and>
      at_key J (direct_outgoing J (uuid_to_string U c) (ds_userId si) t) ''payload'' =
        Inr (JArray [JString ''text'', JString t])"
proof -
  have f: "value_str J (JObject kvs) ''type'' [] = Inr ''send_message''"
    "direct_fields J (JObject kvs) = Inr (uuid_to_string U c, to, t)"
    using assms(1,4-10)
    by (simp_all add: direct_fields_def nlohmann_json_def value_str_spec_def value_json_spec_def)
  have u: "ds_user w i = uuid_to_string U u" "uuid_to_string U u \<noteq> []" using assms(12-14) by (simp_all add: ds_user_def)
  have d: "dispatchMessage J U D rid now i raw w = (Inr (), direct_deliver i to out (w\<lparr>dw_db := d'\<rparr>))"
    using assms(2,3,6,11,13,18,19) f u
    by (simp add: dispatchMessage_def handleSendMessage_def SendMessageUseCase_execute_def boost_uuid_roundtrip)
  have "at_key J (direct_outgoing J (uuid_to_string U c) (ds_userId si) t) ''payload'' =
      Inr (JArray [JString ''text'', JString t])"
    using assms(1) by (simp add: direct_outgoing_object at_key_make_object)
  with d direct_deliver_both [of to "w\<lparr>dw_db := d'\<rparr>" k sk i si out] assms(8,12,15-17) show ?thesis
    by simp
qed

theorem direct_send_message_witness:
  "let kvs = [(''chat_id'', JString ''1''), (''payload'', JObject [(''text'', JString ''hi'')]),
              (''to_user_id'', JString ''3''), (''type'', JString ''send_message'')];
       out = JObject [(''chat_id'', JString ''1''), (''from_user_id'', JString ''2''),
              (''payload'', JArray [JString ''text'', JString ''hi'']), (''type'', JString ''message_delivered'')];
       J = table_json [(''f'', JObject kvs), (''out'', out)];
       w = \<lparr>dw_sessions = [0 \<mapsto> DirectSession_new\<lparr>ds_userId := ''2''\<rparr>, 1 \<mapsto> DirectSession_new\<lparr>ds_userId := ''3''\<rparr>],
            dw_manager = [''2'' \<mapsto> 0, ''3'' \<mapsto> 1], dw_db = []\<rparr>
   in \<exists>w'. dispatchMessage J hex_uuid (direct_dispatcher memory_repo) 9 0 0 ''f'' w = (Inr (), w') \<and>
        dw_db w' = [(9, 1, 2, ''hi'')] \<and> map_option ds_posted (dw_sessions w' 1) = Some [''out'']"
proof -
  let ?kvs = "[(''chat_id'', JString ''1''), (''payload'', JObject [(''text'', JString ''hi'')]),
              (''to_user_id'', JString ''3''), (''type'', JString ''send_message'')]"
  let ?out = "JObject [(''chat_id'', JString ''1''), (''from_user_id'', JString ''2''),
              (''payload'', JArray [JString ''text'', JString ''hi'']), (''type'', JString ''message_delivered'')]"
  let ?J = "table_json [(''f'', JObject ?kvs), (''out'', ?out)]"
  let ?si = "DirectSession_new\<lparr>ds_userId := ''2''\<rparr>" and ?sk = "DirectSession_new\<lparr>ds_userId := ''3''\<rparr>"
  let ?w = "\<lparr>dw_sessions = [0 \<mapsto> ?si, 1 \<mapsto> ?sk], dw_manager = [''2'' \<mapsto> 0, ''3'' \<mapsto> 1], dw_db = []\<rparr> :: stored_message list ds_world"
  have h: "uuid_to_string hex_uuid 1 = ''1''" "uuid_to_string hex_uuid 2 = ''2''" by code_simp+
  have p: "parse_throw ?J ''f'' = Inr (JObject ?kvs)" by (simp add: table_json_def)
  have o: "dump ?J (direct_outgoing ?J (uuid_to_string hex_uuid 1) (ds_userId ?si) ''hi'') = Inr ''out''"
    by code_simp
  have m: "mr_create memory_repo (Message_new 9 1 2 ''hi'' 0) (dw_db ?w) = (Inr True, [(9, 1, 2, ''hi'')])"
    by (simp add: memory_repo_def stored_def Message_new_def)
  from direct_send_message [OF table_json_ok hex_uuid_ok p, of 1 "''3''" "[(''text'', JString ''hi'')]" "''hi''"
      ?w 0 ?si 2 1 ?sk "direct_dispatcher memory_repo" 9 0 "[(9, 1, 2, ''hi'')]" "''out''"] o m h
  show ?thesis by (auto simp: Let_def DirectSession_sendText_def DirectSession_new_def)
qed

text \<open>
  A user with two connections. When a user authenticates on a second session, the session manager
  finds this session; when the older session then closes, it removes the entry by user id and the
  newer session, still alive, is no longer found.
\<close>

theorem direct_close_evicts:
  assumes "value_str J msg ''user_id'' [] = Inr u" and "u \<noteq> []"
    and "handleAuth J b msg w = (Inr (), w1)" and "ds_user w a = u" and "a \<noteq> b" and "alive b"
  shows "SessionManager_findSession alive (dw_manager w1) u = Some b \<and>
         SessionManager_findSession alive (dw_manager (DirectSession_close a w1)) u = None"
proof -
  have m: "dw_manager w1 = SessionManager_registerSession u b (dw_manager w)"
    using assms(1-3) by (auto simp: handleAuth_def ds_update_def Let_def)
  have "ds_user w1 a = u"
    using assms(1-5) by (auto simp: handleAuth_def ds_user_def ds_update_def ds_send_sessions Let_def)
  with assms(2) have c: "dw_manager (DirectSession_close a w1) = SessionManager_removeSession u (dw_manager w1)"
    by (simp add: DirectSession_close_def)
  show ?thesis using assms(6) by (simp add: c m manager.find_bind manager.find_unbind)
qed

theorem direct_close_evicts_witness:
  "let J = table_json []; msg = JObject [(''user_id'', JString ''2'')];
       w = \<lparr>dw_sessions = [0 \<mapsto> DirectSession_new\<lparr>ds_userId := ''2''\<rparr>, 1 \<mapsto> DirectSession_new],
            dw_manager = [''2'' \<mapsto> 0], dw_db = ()\<rparr>
   in SessionManager_findSession (\<lambda>_. True) (dw_manager (DirectSession_close 0 (snd (handleAuth J 1 msg w)))) ''2'' = None"
proof -
  let ?w = "\<lparr>dw_sessions = [0 \<mapsto> DirectSession_new\<lparr>ds_userId := ''2''\<rparr>, 1 \<mapsto> DirectSession_new],
            dw_manager = [''2'' \<mapsto> 0], dw_db = ()\<rparr>"
  let ?msg = "JObject [(''user_id'', JString ''2'')]"
  have v: "value_str (table_json []) ?msg ''user_id'' [] = Inr ''2''"
    by (simp add: table_json_def value_str_spec_def)
  have h: "handleAuth (table_json []) 1 ?msg ?w = (Inr (), snd (handleAuth (table_json []) 1 ?msg ?w))"
    by (simp add: handleAuth_def v Let_def)
  have u: "ds_user ?w 0 = ''2''" by (simp add: ds_user_def)
  from direct_close_evicts [OF v _ h u, of "\<lambda>_. True"] show ?thesis by (simp add: Let_def)
qed

text \<open>
  The event DTO survives its JSON form: reading what was written gives the DTO back, whatever JSON
  value its payload is.
\<close>

theorem dto_roundtrip:
  assumes "nlohmann_json J"
  shows "dto_from_json J (dto_to_json J dto) = Inr dto"
proof -
  have "dto_to_json J dto = make_object [(''type'', JString (dto_type dto)), (''chat_id'', JString (dto_chatId dto)),
      (''payload'', dto_payload dto)]"
    using init_list_pairs [OF assms, of "[(''type'', JString (dto_type dto)), (''chat_id'', JString (dto_chatId dto)),
      (''payload'', dto_payload dto)]"] by (simp add: dto_to_json_def)
  then show ?thesis
    using assms at_key_make_object [OF assms]
    by (simp add: dto_from_json_def nlohmann_json_def get_string_spec_def)
qed

theorem dto_roundtrip_witness:
  "dto_from_json (table_json []) (dto_to_json (table_json [])
     \<lparr>dto_type = ''t'', dto_chatId = ''c'', dto_payload = JArray [JString ''a'', JNull]\<rparr>) =
   Inr \<lparr>dto_type = ''t'', dto_chatId = ''c'', dto_payload = JArray [JString ''a'', JNull]\<rparr>"
  by (rule dto_roundtrip [OF table_json_ok])

text \<open>
  C40. The write sides of the two session classes are interchangeable. Whatever sequence of sends,
  posted handlers and write completions a fresh session of either class sees, the other can see
  the same sequence and writes the same messages in the same order.
\<close>

theorem sessions_equivalent:
  "map_option fst (out_run WebSocketSession_send WebSocketSession_posted ws_write_done ws_writes es
     (WebSocketSession_new i)) =
   map_option fst (out_run DirectSession_sendText DirectSession_posted DirectSession_onWrite ds_writes es
     DirectSession_new)"
  by (rule both.same_wire) (simp add: both.same_def WebSocketSession_new_def DirectSession_new_def)

text \<open>
  Authenticating twice on one connection. The second name replaces the first in the session but
  not in the session manager: messages for either user reach the session, and when it closes only
  the second name is removed.
\<close>

theorem direct_reauth_keeps_first:
  assumes "value_str J m1 ''user_id'' [] = Inr u" and "value_str J m2 ''user_id'' [] = Inr v"
    and "u \<noteq> []" and "v \<noteq> []" and "u \<noteq> v" and "dw_sessions w i \<noteq> None" and "alive i"
    and "handleAuth J i m1 w = (Inr (), w1)" and "handleAuth J i m2 w1 = (Inr (), w2)"
  shows "ds_user w2 i = v \<and> SessionManager_findSession alive (dw_manager w2) u = Some i \<and>
    SessionManager_findSession alive (dw_manager w2) v = Some i \<and>
    SessionManager_findSession alive (dw_manager (DirectSession_close i w2)) u = Some i \<and>
    SessionManager_findSession alive (dw_manager (DirectSession_close i w2)) v = None"
proof -
  from assms(6) obtain s where s: "dw_sessions w i = Some s" by blast
  have m1: "dw_manager w1 = SessionManager_registerSession u i (dw_manager w)" "\<exists>s1. dw_sessions w1 i = Some s1"
    using assms(1,3,8) s by (auto simp: handleAuth_def ds_update_def ds_send_sessions Let_def)
  have m2: "dw_manager w2 = SessionManager_registerSession v i (dw_manager w1)" "ds_user w2 i = v"
    using assms(2,4,9) m1(2)
    by (auto simp: handleAuth_def ds_user_def ds_update_def ds_send_sessions Let_def
        DirectSession_setUserId_def DirectSession_sendText_def)
  then have c: "dw_manager (DirectSession_close i w2) = SessionManager_removeSession v (dw_manager w2)"
    using assms(4) by (simp add: DirectSession_close_def)
  show ?thesis using assms(5,7) by (simp add: c m1(1) m2 manager.find_bind manager.find_unbind)
qed

theorem direct_reauth_keeps_first_witness:
  "let J = table_json []; w = \<lparr>dw_sessions = [0 \<mapsto> DirectSession_new], dw_manager = Map.empty, dw_db = ([] :: stored_message list)\<rparr>;
       w1 = snd (handleAuth J 0 (JObject [(''user_id'', JString ''2'')]) w);
       w2 = snd (handleAuth J 0 (JObject [(''user_id'', JString ''3'')]) w1)
   in SessionManager_findSession (\<lambda>_. True) (dw_manager (DirectSession_close 0 w2)) ''2'' = Some 0"
proof -
  let ?J = "table_json []" and ?w = "\<lparr>dw_sessions = [0 \<mapsto> DirectSession_new], dw_manager = Map.empty, dw_db = ([] :: stored_message list)\<rparr>"
  let ?m1 = "JObject [(''user_id'', JString ''2'')]" and ?m2 = "JObject [(''user_id'', JString ''3'')]"
  have v: "value_str ?J ?m1 ''user_id'' [] = Inr ''2''" "value_str ?J ?m2 ''user_id'' [] = Inr ''3''"
    by (simp_all add: table_json_def value_str_spec_def)
  let ?w1 = "snd (handleAuth ?J 0 ?m1 ?w)" and ?w2 = "snd (handleAuth ?J 0 ?m2 (snd (handleAuth ?J 0 ?m1 ?w)))"
  have "handleAuth ?J 0 ?m1 ?w = (Inr (), ?w1)" "handleAuth ?J 0 ?m2 ?w1 = (Inr (), ?w2)"
    by (simp_all add: handleAuth_def v Let_def)
  from direct_reauth_keeps_first [OF v _ _ _ _ _ this, of "\<lambda>_. True"] show ?thesis by (simp add: Let_def)
qed

end
