(* ===== verification/Direct_Run.thy ===== *)
theory Direct_Run
  imports Direct_Ws
begin

text \<open>
  The direct WebSocket layer as a running server: the listener creates sessions, their completion
  handlers interleave, frames go to the dispatcher, which works on the session manager and, through
  the use case, on the message repository. The frames read so far are kept to say on whose behalf
  messages were stored.
\<close>

section \<open>Runs\<close>

text \<open>
  Sessions are numbered in the order of their creation; the handlers of outstanding operations own
  them. \<open>dr_frames\<close> has the frames read, each with its session.
\<close>

record 'd direct_server =
  dr_world :: "'d ds_world"
  dr_created :: nat
  dr_frames :: "(nat \<times> string) list"
  dr_crashed :: "exn option"

definition ds_outstanding :: "ds_session \<Rightarrow> bool" where
  "ds_outstanding s \<longleftrightarrow> ds_accepting s \<or> ds_reading s \<or> ds_posted s \<noteq> [] \<or> ds_writes s \<noteq> []"

definition ds_release :: "nat \<Rightarrow> 'd ds_world \<Rightarrow> 'd ds_world" where
  "ds_release i w =
     (case dw_sessions w i of
        None \<Rightarrow> w
      | Some s \<Rightarrow> if ds_outstanding s then w else w\<lparr>dw_sessions := (dw_sessions w)(i := None)\<rparr>)"

datatype direct_label =
    DConnect bool
  | DAccept nat bool
  | DRead nat uuid time_point ds_read
  | DStrand nat
  | DWrite nat bool

fun read_text :: "ds_read \<Rightarrow> string list" where
  "read_text (ReadFrame raw) = [raw]"
| "read_text _ = []"

definition direct_put :: "nat \<Rightarrow> 'd ds_world \<Rightarrow> 'd direct_server \<Rightarrow> 'd direct_server" where
  "direct_put i w st = st\<lparr>dr_world := ds_release i w\<rparr>"

fun direct_exec ::
  "json_lib \<Rightarrow> uuid_lib \<Rightarrow> 'd MessageDispatcher \<Rightarrow> direct_label \<Rightarrow> 'd direct_server \<Rightarrow> 'd direct_server option" where
  "direct_exec J U D (DConnect ec) st =
     (if dr_crashed st \<noteq> None then None
      else case DirectListener_onAccept ec of
             None \<Rightarrow> Some st
           | Some s \<Rightarrow> Some (st\<lparr>dr_world := (dr_world st)\<lparr>dw_sessions := (dw_sessions (dr_world st))(dr_created st \<mapsto> s)\<rparr>,
                               dr_created := Suc (dr_created st)\<rparr>))"
| "direct_exec J U D (DAccept i ec) st =
     (case dw_sessions (dr_world st) i of
        Some s \<Rightarrow> if dr_crashed st = None \<and> ds_accepting s
                  then Some (direct_put i (ds_update i (DirectSession_onAccept ec) (dr_world st)) st) else None
      | None \<Rightarrow> None)"
| "direct_exec J U D (DRead i rid now ec) st =
     (case dw_sessions (dr_world st) i of
        Some s \<Rightarrow>
          if dr_crashed st = None \<and> ds_reading s
          then (case DirectSession_onRead J U D rid now ec i (dr_world st) of
                  (r, w') \<Rightarrow> Some ((direct_put i w' st)\<lparr>dr_frames := dr_frames st @ map (Pair i) (read_text ec),
                                      dr_crashed := (case r of Inl e \<Rightarrow> Some e | Inr _ \<Rightarrow> None)\<rparr>))
          else None
      | None \<Rightarrow> None)"
| "direct_exec J U D (DStrand i) st =
     (case dw_sessions (dr_world st) i of
        Some s \<Rightarrow>
          if dr_crashed st = None
          then map_option (\<lambda>s'. direct_put i (ds_update i (\<lambda>_. s') (dr_world st)) st) (DirectSession_posted s)
          else None
      | None \<Rightarrow> None)"
| "direct_exec J U D (DWrite i ec) st =
     (case dw_sessions (dr_world st) i of
        Some s \<Rightarrow> if dr_crashed st = None \<and> ds_writes s \<noteq> []
                  then Some (direct_put i (ds_written ec i (dr_world st)) st) else None
      | None \<Rightarrow> None)"

fun direct_run ::
  "json_lib \<Rightarrow> uuid_lib \<Rightarrow> 'd MessageDispatcher \<Rightarrow> direct_label list \<Rightarrow> 'd direct_server \<Rightarrow> 'd direct_server option" where
  "direct_run J U D [] st = Some st"
| "direct_run J U D (l # ls) st =
     (case direct_exec J U D l st of None \<Rightarrow> None | Some st' \<Rightarrow> direct_run J U D ls st')"

definition direct_init :: "'d \<Rightarrow> 'd direct_server" where
  "direct_init d =
     \<lparr>dr_world = \<lparr>dw_sessions = Map.empty, dw_manager = Map.empty, dw_db = d\<rparr>, dr_created = 0, dr_frames = [],
      dr_crashed = None\<rparr>"

section \<open>What frames say\<close>

definition authenticates :: "json_lib \<Rightarrow> string \<Rightarrow> string \<Rightarrow> bool" where
  "authenticates J raw u =
     (case parse_throw J raw of
        Inl _ \<Rightarrow> False
      | Inr msg \<Rightarrow> value_str J msg ''type'' [] = Inr ''auth'' \<and> value_str J msg ''user_id'' [] = Inr u \<and> u \<noteq> [])"

definition sends :: "json_lib \<Rightarrow> string \<Rightarrow> string \<Rightarrow> string \<Rightarrow> bool" where
  "sends J raw chatIdStr text =
     (case parse_throw J raw of
        Inl _ \<Rightarrow> False
      | Inr msg \<Rightarrow> value_str J msg ''type'' [] = Inr ''send_message'' \<and>
          (case direct_fields J msg of Inl _ \<Rightarrow> False | Inr (c, _, t) \<Rightarrow> c = chatIdStr \<and> t = text))"

section \<open>The effects of a handler\<close>

definition users_of :: "'d ds_world \<Rightarrow> nat \<rightharpoonup> string" where
  "users_of w i = map_option ds_userId (dw_sessions w i)"

lemma users_update:
  assumes "\<And>s. ds_userId (f s) = ds_userId s"
  shows "users_of (ds_update i f w) = users_of w"
  using assms by (auto simp: users_of_def ds_update_def option.map_comp comp_def)

lemma users_send [simp]: "users_of (ds_send i t w) = users_of w"
  by (simp add: ds_send_def users_update DirectSession_sendText_def)

lemma users_db [simp]: "users_of (w\<lparr>dw_db := d\<rparr>) = users_of w" "users_of (w\<lparr>dw_manager := m\<rparr>) = users_of w"
  by (simp_all add: users_of_def fun_eq_iff)

lemma update_frame [simp]: "dw_manager (ds_update i f w) = dw_manager w" "dw_db (ds_update i f w) = dw_db w"
  by (simp_all add: ds_update_def)

lemma deliver_frame [simp]:
  "users_of (direct_deliver i to t w) = users_of w" "dw_manager (direct_deliver i to t w) = dw_manager w"
  "dw_db (direct_deliver i to t w) = dw_db w"
  by (simp_all add: direct_deliver_def Let_def split: option.splits)

lemma ds_user_users: "ds_user w i = (case users_of w i of None \<Rightarrow> [] | Some u \<Rightarrow> u)"
  by (simp add: ds_user_def users_of_def split: option.splits)

text \<open>A frame does nothing, authenticates its session, or stores one message.\<close>

definition quiet :: "'d ds_world \<Rightarrow> 'd ds_world \<Rightarrow> bool" where
  "quiet w w' \<longleftrightarrow> users_of w' = users_of w \<and> dw_manager w' = dw_manager w \<and> dw_db w' = dw_db w"

definition auth_effect :: "json_lib \<Rightarrow> string \<Rightarrow> nat \<Rightarrow> 'd ds_world \<Rightarrow> 'd ds_world \<Rightarrow> bool" where
  "auth_effect J raw i w w' \<longleftrightarrow>
     (\<exists>u. authenticates J raw u \<and> users_of w' = (users_of w)(i := map_option (\<lambda>_. u) (users_of w i)) \<and>
        dw_manager w' = (dw_manager w)(u \<mapsto> i) \<and> dw_db w' = dw_db w)"

definition store_effect ::
  "json_lib \<Rightarrow> uuid_lib \<Rightarrow> 'd MessageDispatcher \<Rightarrow> string \<Rightarrow> nat \<Rightarrow> 'd ds_world \<Rightarrow> 'd ds_world \<Rightarrow> bool" where
  "store_effect J U D raw i w w' \<longleftrightarrow>
     users_of w' = users_of w \<and> dw_manager w' = dw_manager w \<and> ds_user w i \<noteq> [] \<and>
     (\<exists>c u chatIdStr text rid now x. sends J raw chatIdStr text \<and> string_generator U chatIdStr = Inr c \<and>
        string_generator U (ds_user w i) = Inr u \<and>
        mr_create (md_repository D) (Message_new rid c u text now) (dw_db w) = (x, dw_db w'))"

lemma quiet_send [simp]: "quiet w (ds_send i t w)"
  by (simp add: quiet_def)

lemma handleAuth_effect:
  assumes "handleAuth J i msg w = (r, w')" and "parse_throw J raw = Inr msg" and "value_str J msg ''type'' [] = Inr ''auth''"
  shows "quiet w w' \<or> auth_effect J raw i w w'"
proof (cases "value_str J msg ''user_id'' []")
  case (Inl e)
  with assms(1) show ?thesis by (simp add: handleAuth_def quiet_def)
next
  case (Inr u)
  show ?thesis
  proof (cases "u = []")
    case True
    with assms(1) Inr have "w' = ds_send i (direct_error ''user_id required'') w" by (simp add: handleAuth_def)
    then show ?thesis by simp
  next
    case False
    let ?w1 = "ds_update i (DirectSession_setUserId u) w"
    from assms(1) Inr False have "w' = ds_send i ''{\"type\":\"auth_ok\"}''
        (?w1\<lparr>dw_manager := SessionManager_registerSession u i (dw_manager ?w1)\<rparr>)"
      by (simp add: handleAuth_def Let_def)
    moreover have "users_of ?w1 = (users_of w)(i := map_option (\<lambda>_. u) (users_of w i))"
      by (auto simp: users_of_def ds_update_def DirectSession_setUserId_def option.map_comp comp_def)
    moreover have "authenticates J raw u" using assms(2,3) Inr False by (simp add: authenticates_def)
    ultimately show ?thesis by (auto simp: auth_effect_def SessionManager_registerSession_def)
  qed
qed

lemma handleSendMessage_effect:
  assumes "handleSendMessage J U D rid now i msg w = (r, w')" and "parse_throw J raw = Inr msg"
    and "value_str J msg ''type'' [] = Inr ''send_message''"
  shows "quiet w w' \<or> store_effect J U D raw i w w'"
proof (cases "direct_fields J msg")
  case (Inl e)
  with assms(1) show ?thesis by (simp add: handleSendMessage_def quiet_def)
next
  case (Inr x)
  obtain chatIdStr to body where x: "x = (chatIdStr, to, body)" by (cases x)
  let ?ids = "rbind (string_generator U chatIdStr) (\<lambda>c. rbind (string_generator U (ds_user w i)) (\<lambda>u. Inr (c, u)))"
  show ?thesis
  proof (cases "chatIdStr = [] \<or> body = [] \<or> ds_user w i = [] \<or> \<not> is_ok ?ids")
    case True
    with assms(1) Inr x have "w' = w \<or> (\<exists>t. w' = ds_send i t w)"
      by (auto simp: handleSendMessage_def is_ok_def split: if_splits sum.splits)
    then show ?thesis by (auto simp: quiet_def)
  next
    case False
    then obtain c u where g: "?ids = Inr (c, u)" by (auto simp: is_ok_iff)
    then have ids: "string_generator U chatIdStr = Inr c" "string_generator U (ds_user w i) = Inr u"
      by (auto simp: rbind_eq_Inr)
    obtain y d' where y: "mr_create (md_repository D) (Message_new rid c u body now) (dw_db w) = (y, d')" by fastforce
    have e: "SendMessageUseCase_execute (md_sendMessageUseCase D) rid now c u body (dw_db w) = (y, d')"
      using y False by (simp add: SendMessageUseCase_execute_def)
    have "users_of w' = users_of w \<and> dw_manager w' = dw_manager w \<and> dw_db w' = d'"
      using assms(1) Inr x False g e
      by (auto simp: handleSendMessage_def split: sum.splits bool.splits)
    moreover have "sends J raw chatIdStr body" using assms(2,3) Inr x by (simp add: sends_def)
    ultimately show ?thesis using ids y False unfolding store_effect_def by blast
  qed
qed

lemma dispatchMessage_effect:
  assumes "dispatchMessage J U D rid now i raw w = (r, w')"
  shows "quiet w w' \<or> auth_effect J raw i w w' \<or> store_effect J U D raw i w w'"
proof (cases "parse_throw J raw")
  case (Inl e)
  with assms have "w' = ds_send i (direct_error ''invalid json'') w" by (simp add: dispatchMessage_def)
  then show ?thesis by simp
next
  case (Inr msg)
  show ?thesis
  proof (cases "value_str J msg ''type'' []")
    case (Inl e)
    with assms Inr show ?thesis by (simp add: dispatchMessage_def quiet_def)
  next
    case (Inr ty)
    consider "ty = ''auth''" | "ty = ''send_message''" | "ty \<noteq> ''auth''" "ty \<noteq> ''send_message''" by blast
    then show ?thesis
    proof cases
      case 1
      with assms Inr \<open>parse_throw J raw = Inr msg\<close> have "handleAuth J i msg w = (r, w')"
        by (simp add: dispatchMessage_def)
      with handleAuth_effect 1 Inr \<open>parse_throw J raw = Inr msg\<close> show ?thesis by blast
    next
      case 2
      with assms Inr \<open>parse_throw J raw = Inr msg\<close> have "handleSendMessage J U D rid now i msg w = (r, w')"
        by (simp add: dispatchMessage_def)
      with handleSendMessage_effect 2 Inr \<open>parse_throw J raw = Inr msg\<close> show ?thesis by blast
    next
      case 3
      with assms Inr \<open>parse_throw J raw = Inr msg\<close> have "w' = w \<or> (\<exists>t. w' = ds_send i t w)"
        by (auto simp: dispatchMessage_def split: if_splits)
      then show ?thesis by (auto simp: quiet_def)
    qed
  qed
qed

section \<open>On whose behalf\<close>

text \<open>
  A stored message is on behalf of a user if one connection sent both a frame that authenticates
  as the user and a frame that sends this text to this chat.
\<close>

definition behalf :: "json_lib \<Rightarrow> uuid_lib \<Rightarrow> (nat \<times> string) list \<Rightarrow> stored_message \<Rightarrow> bool" where
  "behalf J U frames m \<longleftrightarrow>
     (\<exists>i raw raw' u chatIdStr. (i, raw) \<in> set frames \<and> authenticates J raw u \<and>
        string_generator U u = Inr (fst (snd (snd m))) \<and>
        (i, raw') \<in> set frames \<and> sends J raw' chatIdStr (snd (snd (snd m))) \<and>
        string_generator U chatIdStr = Inr (fst (snd m)))"

definition named :: "json_lib \<Rightarrow> (nat \<times> string) list \<Rightarrow> nat \<Rightarrow> string \<Rightarrow> bool" where
  "named J frames i u \<longleftrightarrow> (\<exists>raw. (i, raw) \<in> set frames \<and> authenticates J raw u)"

text \<open>The part of the invariant about the sessions and the manager.\<close>

definition names_ok :: "json_lib \<Rightarrow> (nat \<times> string) list \<Rightarrow> 'd ds_world \<Rightarrow> bool" where
  "names_ok J frames w \<longleftrightarrow>
     (\<forall>i u. users_of w i = Some u \<longrightarrow> u \<noteq> [] \<longrightarrow> named J frames i u) \<and>
     (\<forall>u i. dw_manager w u = Some i \<longrightarrow> named J frames i u)"

lemma named_mono: "named J frames i u \<Longrightarrow> named J (frames @ fs) i u"
  by (auto simp: named_def)

lemma behalf_mono: "behalf J U frames m \<Longrightarrow> behalf J U (frames @ fs) m"
  unfolding behalf_def set_append by blast

lemma names_ok_shrink:
  assumes "names_ok J frames w" and "\<And>i. users_of w' i \<in> {users_of w i, None, Some []}"
    and "\<And>u. dw_manager w' u \<in> {dw_manager w u, None}"
  shows "names_ok J (frames @ fs) w'"
  unfolding names_ok_def
proof (intro conjI allI impI)
  fix i u assume "users_of w' i = Some u" "u \<noteq> []"
  with assms(2) [of i] have "users_of w i = Some u" by auto
  with assms(1) \<open>u \<noteq> []\<close> show "named J (frames @ fs) i u" by (simp add: names_ok_def named_mono)
next
  fix u i assume "dw_manager w' u = Some i"
  with assms(3) [of u] have "dw_manager w u = Some i" by auto
  with assms(1) show "named J (frames @ fs) i u" by (simp add: names_ok_def named_mono)
qed

lemma names_ok_auth:
  assumes "names_ok J frames w" and "auth_effect J raw i w w'"
  shows "names_ok J (frames @ [(i, raw)]) w'"
proof -
  from assms(2) obtain u where u: "authenticates J raw u"
    and w': "users_of w' = (users_of w)(i := map_option (\<lambda>_. u) (users_of w i))" "dw_manager w' = (dw_manager w)(u \<mapsto> i)"
    by (auto simp: auth_effect_def)
  have n: "named J (frames @ [(i, raw)]) i u" using u by (auto simp: named_def)
  show ?thesis
    unfolding names_ok_def w'
    using assms(1) n by (auto simp: names_ok_def named_mono)
qed

lemma release_users: "users_of (ds_release i w) k \<in> {users_of w k, None}"
  by (auto simp: ds_release_def users_of_def split: option.splits)

lemma release_frame [simp]: "dw_manager (ds_release i w) = dw_manager w" "dw_db (ds_release i w) = dw_db w"
  by (simp_all add: ds_release_def split: option.splits)

lemma close_frame:
  "users_of (DirectSession_close i w) = users_of w" "dw_db (DirectSession_close i w) = dw_db w"
  "dw_manager (DirectSession_close i w) u \<in> {dw_manager w u, None}"
  by (auto simp: DirectSession_close_def SessionManager_removeSession_def)

text \<open>Every handler but that of a frame only lets names go.\<close>

lemma written_frame:
  "users_of (ds_written ec i w) = users_of w" "dw_db (ds_written ec i w) = dw_db w"
  "dw_manager (ds_written ec i w) u \<in> {dw_manager w u, None}"
proof -
  have keeps: "ds_userId (case DirectSession_onWrite ec s of None \<Rightarrow> s | Some s' \<Rightarrow> s') = ds_userId s" for s
    by (auto simp: DirectSession_onWrite_def DirectSession_doWrite_def Let_def split: list.splits option.splits if_splits)
  define w1 where "w1 = ds_update i (\<lambda>s. case DirectSession_onWrite ec s of None \<Rightarrow> s | Some s' \<Rightarrow> s') w"
  have "users_of w1 = users_of w" unfolding w1_def by (rule users_update) (rule keeps)
  moreover have "dw_manager w1 = dw_manager w" "dw_db w1 = dw_db w" by (simp_all add: w1_def)
  moreover have "ds_written ec i w = (if ec then DirectSession_close i w1 else w1)"
    by (simp add: ds_written_def w1_def Let_def)
  ultimately show "users_of (ds_written ec i w) = users_of w" "dw_db (ds_written ec i w) = dw_db w"
    "dw_manager (ds_written ec i w) u \<in> {dw_manager w u, None}"
    using close_frame [of i w1] close_frame(3) [of i w1 u] by (cases ec; simp)+
qed

lemma onRead_frame:
  assumes "DirectSession_onRead J U D rid now ec i w = (r, w')"
  obtains (closed) "users_of w' = users_of w" "dw_db w' = dw_db w" "\<And>u. dw_manager w' u \<in> {dw_manager w u, None}"
  | (frame) raw where "ec = ReadFrame raw" "quiet w w' \<or> auth_effect J raw i w w' \<or> store_effect J U D raw i w w'"
proof -
  let ?w = "ds_update i (\<lambda>s. s\<lparr>ds_reading := False\<rparr>) w"
  have q: "users_of ?w = users_of w" by (rule users_update) simp
  show thesis
  proof (cases ec)
    case (ReadFrame raw)
    obtain x w1 where x: "dispatchMessage J U D rid now i raw ?w = (x, w1)" by fastforce
    have "users_of w' = users_of w1 \<and> dw_manager w' = dw_manager w1 \<and> dw_db w' = dw_db w1"
      using assms ReadFrame x
      by (cases x) (auto simp: DirectSession_onRead_def Let_def users_update DirectSession_doRead_def)
    with dispatchMessage_effect [OF x] q have "quiet w w' \<or> auth_effect J raw i w w' \<or> store_effect J U D raw i w w'"
      by (simp add: quiet_def auth_effect_def store_effect_def ds_user_users)
    with ReadFrame show thesis by (rule frame)
  qed (use assms q close_frame [of i ?w] closed in \<open>auto simp: DirectSession_onRead_def Let_def\<close>)
qed

definition direct_ok ::
  "('d \<Rightarrow> stored_message list) \<Rightarrow> ('d \<Rightarrow> bool) \<Rightarrow> json_lib \<Rightarrow> uuid_lib \<Rightarrow> 'd \<Rightarrow> 'd direct_server \<Rightarrow> bool" where
  "direct_ok messages invar J U d0 st \<longleftrightarrow>
     names_ok J (dr_frames st) (dr_world st) \<and> invar (dw_db (dr_world st)) \<and>
     (\<exists>new. messages (dw_db (dr_world st)) = messages d0 @ new \<and> (\<forall>m \<in> set new. behalf J U (dr_frames st) m))"

context message_store
begin

abbreviation direct_port :: "'d MessageDispatcher" where
  "direct_port \<equiv> direct_dispatcher \<lparr>mr_create = create, mr_getByChat = getByChat\<rparr>"

lemma direct_ok_shrink:
  assumes "direct_ok messages invar J U d0 st" and "\<And>i. users_of (dr_world st') i \<in> {users_of (dr_world st) i, None, Some []}"
    and "\<And>u. dw_manager (dr_world st') u \<in> {dw_manager (dr_world st) u, None}"
    and "dw_db (dr_world st') = dw_db (dr_world st)" and "dr_frames st' = dr_frames st @ fs"
  shows "direct_ok messages invar J U d0 st'"
  using assms(1,4,5) names_ok_shrink [OF _ assms(2,3), of J "dr_frames st" fs] behalf_mono
  unfolding direct_ok_def by fastforce

lemma direct_ok_store:
  assumes "direct_ok messages invar J U d0 st" and "store_effect J U direct_port raw i (dr_world st) w"
    and "dr_world st' = ds_release i w" and "dr_frames st' = dr_frames st @ [(i, raw)]"
  shows "direct_ok messages invar J U d0 st'"
proof -
  let ?fs = "dr_frames st @ [(i, raw)]" and ?d = "dw_db (dr_world st)"
  from assms(2) obtain c u chatIdStr body rid now x where e: "users_of w = users_of (dr_world st)"
    "dw_manager w = dw_manager (dr_world st)" "ds_user (dr_world st) i \<noteq> []" "sends J raw chatIdStr body"
    "string_generator U chatIdStr = Inr c" "string_generator U (ds_user (dr_world st) i) = Inr u"
    and cr: "create (Message_new rid c u body now) ?d = (x, dw_db w)"
    unfolding store_effect_def by auto
  have names: "names_ok J ?fs (ds_release i w)"
    using assms(1) release_users [of i w] e(1,2) by (intro names_ok_shrink) (auto simp: direct_ok_def)
  have "users_of (dr_world st) i = Some (ds_user (dr_world st) i)"
    using e(3) by (simp add: ds_user_users split: option.splits)
  with e(3) assms(1) have "named J (dr_frames st) i (ds_user (dr_world st) i)"
    by (simp add: direct_ok_def names_ok_def)
  then have "behalf J U ?fs (rid, c, u, body)"
    using e(4-6) unfolding behalf_def named_def by fastforce
  moreover have "invar (dw_db w)" "messages (dw_db w) \<in> {messages ?d, messages ?d @ [(rid, c, u, body)]}"
    using create_adds [OF _ cr] assms(1) by (auto simp: direct_ok_def stored_def Message_new_def)
  moreover obtain new where "messages ?d = messages d0 @ new" "\<forall>m \<in> set new. behalf J U ?fs m"
    using assms(1) behalf_mono unfolding direct_ok_def by blast
  ultimately show ?thesis
    using names assms(3,4) unfolding direct_ok_def by auto
qed

lemma direct_ok_put:
  assumes "direct_ok messages invar J U d0 st" and "users_of w = users_of (dr_world st)"
    and "\<And>u. dw_manager w u \<in> {dw_manager (dr_world st) u, None}" and "dw_db w = dw_db (dr_world st)"
    and "dr_world st' = ds_release i w" and "dr_frames st' = dr_frames st @ fs"
  shows "direct_ok messages invar J U d0 st'"
  using release_users [of i w] assms(2-6) by (intro direct_ok_shrink [OF assms(1), of st' fs]) auto

lemma direct_ok_auth:
  assumes "direct_ok messages invar J U d0 st" and "auth_effect J raw i (dr_world st) w"
    and "dr_world st' = ds_release i w" and "dr_frames st' = dr_frames st @ [(i, raw)]"
  shows "direct_ok messages invar J U d0 st'"
proof -
  from names_ok_auth [OF _ assms(2)] assms(1) have n: "names_ok J (dr_frames st @ [(i, raw)]) w"
    by (simp add: direct_ok_def)
  have "names_ok J (dr_frames st') (dr_world st')"
    using names_ok_shrink [OF n, of "ds_release i w" "[]"] release_users [of i w] assms(3,4) by auto
  moreover have "dw_db (dr_world st') = dw_db (dr_world st)" using assms(2,3) by (auto simp: auth_effect_def)
  ultimately show ?thesis using assms(1,4) behalf_mono unfolding direct_ok_def by fastforce
qed

lemma direct_ok_read:
  assumes "direct_ok messages invar J U d0 st"
    and "DirectSession_onRead J U direct_port rid now ec i (dr_world st) = (r, w)"
    and "dr_world st' = ds_release i w" and "dr_frames st' = dr_frames st @ map (Pair i) (read_text ec)"
  shows "direct_ok messages invar J U d0 st'"
  using assms(2)
proof (cases rule: onRead_frame)
  case closed
  then show ?thesis by (intro direct_ok_put [OF assms(1) _ _ _ assms(3,4)])
next
  case (frame raw)
  then have fs: "dr_frames st' = dr_frames st @ [(i, raw)]" using assms(4) by simp
  from frame(2) consider "quiet (dr_world st) w" | "auth_effect J raw i (dr_world st) w"
    | "store_effect J U direct_port raw i (dr_world st) w" by blast
  then show ?thesis
  proof cases
    case 1
    then show ?thesis by (intro direct_ok_put [OF assms(1) _ _ _ assms(3) fs]) (auto simp: quiet_def)
  next
    case 2
    then show ?thesis by (rule direct_ok_auth [OF assms(1) _ assms(3) fs])
  next
    case 3
    then show ?thesis by (rule direct_ok_store [OF assms(1) _ assms(3) fs])
  qed
qed

lemma direct_ok_exec:
  assumes "direct_ok messages invar J U d0 st" and "direct_exec J U direct_port l st = Some st'"
  shows "direct_ok messages invar J U d0 st'"
proof (cases l)
  case (DConnect ec)
  then show ?thesis
    using assms(2)
    by (intro direct_ok_shrink [OF assms(1), of st' "[]"])
      (auto simp: DirectListener_onAccept_def DirectSession_run_def DirectSession_new_def users_of_def split: if_splits)
next
  case (DAccept i ec)
  let ?w = "ds_update i (DirectSession_onAccept ec) (dr_world st)"
  have "users_of ?w = users_of (dr_world st)"
    by (rule users_update) (simp add: DirectSession_onAccept_def DirectSession_doRead_def Let_def)
  moreover have "st' = direct_put i ?w st" using assms(2) DAccept by (auto split: option.splits if_splits)
  ultimately show ?thesis by (intro direct_ok_put [where w = ?w and i = i and fs = "[]", OF assms(1)]) (simp_all add: direct_put_def)
next
  case (DStrand i)
  from assms(2) DStrand obtain s s' where s: "dw_sessions (dr_world st) i = Some s" "DirectSession_posted s = Some s'"
    and st': "st' = direct_put i (ds_update i (\<lambda>_. s') (dr_world st)) st"
    by (auto split: option.splits if_splits)
  let ?w = "ds_update i (\<lambda>_. s') (dr_world st)"
  have "ds_userId s' = ds_userId s"
    using s(2) by (auto simp: DirectSession_posted_def DirectSession_doWrite_def Let_def split: list.splits)
  then have "users_of ?w = users_of (dr_world st)" using s(1) by (auto simp: users_of_def ds_update_def)
  then show ?thesis using st' by (intro direct_ok_put [where w = ?w and i = i and fs = "[]", OF assms(1)]) (simp_all add: direct_put_def)
next
  case (DWrite i ec)
  let ?w = "ds_written ec i (dr_world st)"
  have "st' = direct_put i ?w st" using assms(2) DWrite by (auto split: option.splits if_splits)
  then show ?thesis
    by (intro direct_ok_put [where fs = "[]", OF assms(1) written_frame(1,3,2)]) (simp_all add: direct_put_def)
next
  case (DRead i rid now ec)
  from assms(2) DRead obtain r w where x: "DirectSession_onRead J U direct_port rid now ec i (dr_world st) = (r, w)"
    and st': "dr_world st' = ds_release i w" "dr_frames st' = dr_frames st @ map (Pair i) (read_text ec)"
    by (auto simp: direct_put_def split: option.splits if_splits prod.splits)
  show ?thesis by (rule direct_ok_read [OF assms(1) x st'])
qed

lemma direct_ok_run:
  assumes "direct_run J U direct_port ls (direct_init d) = Some st" and "invar d"
  shows "direct_ok messages invar J U d st"
proof -
  have "direct_ok messages invar J U d (direct_init d)"
    using assms(2) by (simp add: direct_ok_def names_ok_def direct_init_def users_of_def)
  moreover have "direct_ok messages invar J U d st'" if "direct_run J U direct_port ls st = Some st'" "direct_ok messages invar J U d st" for st st'
    using that by (induction ls arbitrary: st) (auto simp del: direct_exec.simps split: option.splits dest: direct_ok_exec)
  ultimately show ?thesis using assms(1) by blast
qed

end

section \<open>Properties\<close>

text \<open>
  C39. In the direct layer nobody speaks for others unnamed. In every run, each message stored since
  the start has as its sender the user that the sending connection had named in an \<open>auth\<close> frame,
  and the session manager maps a user name only to a connection that had named this user.
\<close>

theorem direct_senders_named:
  assumes "messages_inv P U tbl s" and "direct_run J U (direct_dispatcher (pg_message_repository P U)) ls (direct_init s) = Some st"
  shows "\<exists>new. pg_messages U tbl (dw_db (dr_world st)) = pg_messages U tbl s @ new \<and>
    (\<forall>m \<in> set new. behalf J U (dr_frames st) m) \<and>
    (\<forall>u i. dw_manager (dr_world st) u = Some i \<longrightarrow> named J (dr_frames st) i u)"
  using pgm.direct_ok_run [OF assms(2) [unfolded pg_message_repository_def] assms(1)]
  unfolding direct_ok_def names_ok_def by blast

definition direct_json :: json_lib where
  "direct_json = table_json
     [(''auth'', JObject [(''type'', JString ''auth''), (''user_id'', JString ''2'')]),
      (''say'', JObject [(''chat_id'', JString ''1''), (''payload'', JObject [(''text'', JString ''a'')]),
                       (''type'', JString ''send_message'')]),
      (''out'', JObject [(''chat_id'', JString ''1''), (''from_user_id'', JString ''2''),
                       (''payload'', JArray [JString ''text'', JString ''a'']), (''type'', JString ''message_delivered'')])]"

theorem direct_senders_named_witness:
  "\<exists>st. direct_run direct_json hex_uuid (direct_dispatcher (pg_message_repository memory_pg hex_uuid))
       [DConnect False, DAccept 0 False, DRead 0 9 7 (ReadFrame ''say''), DRead 0 9 7 (ReadFrame ''auth''),
        DRead 0 9 7 (ReadFrame ''say'')] (direct_init memory_state) = Some st \<and>
     dr_crashed st = None \<and> pg_messages hex_uuid mem_messages (dw_db (dr_world st)) = [(9, 1, 2, ''a'')] \<and>
     behalf direct_json hex_uuid (dr_frames st) (9, 1, 2, ''a'')"
proof -
  let ?run = "direct_run direct_json hex_uuid (direct_dispatcher (pg_message_repository memory_pg hex_uuid))
       [DConnect False, DAccept 0 False, DRead 0 9 7 (ReadFrame ''say''), DRead 0 9 7 (ReadFrame ''auth''),
        DRead 0 9 7 (ReadFrame ''say'')] (direct_init memory_state)"
  have "map_option (\<lambda>st. (dr_crashed st, pg_messages hex_uuid mem_messages (dw_db (dr_world st)))) ?run =
      Some (None, [(9, 1, 2, ''a'')])" by code_simp
  then obtain st where st: "?run = Some st" "dr_crashed st = None"
    "pg_messages hex_uuid mem_messages (dw_db (dr_world st)) = [(9, 1, 2, ''a'')]" by auto
  have i: "messages_inv memory_pg hex_uuid mem_messages memory_state"
    by (simp add: messages_inv_def hex_uuid_ok memory_pg_messages memory_state_def mem_messages_def)
  have "pg_messages hex_uuid mem_messages memory_state = []"
    by (simp add: pg_messages_def memory_state_def mem_messages_def)
  with direct_senders_named [OF i st(1)] st show ?thesis by auto
qed

end
