(* ===== verification/Spec2Isabelle.thy ===== *)
theory Spec2Isabelle
  imports Shutdown Signals Registration Pool_Sharing Transactions Server Server_History Direct_Run
begin

text \<open>
  \<^bold>\<open>A verification library for the messenger backend Svitock.\<close>

  \<^bold>\<open>The program.\<close> Clients talk to the server over WebSocket and HTTP. A WebSocket frame is read
  by a session (\<open>infrastructure/network/websocket\<close>), turned into an event by the dispatcher
  (\<open>infrastructure/dispatcher\<close>) and put as a heap-allocated envelope into the mailbox of an
  actor (\<open>core/actor\<close>). A pool of worker threads polls the mailboxes of the four actors
  (\<open>infrastructure/actors\<close>): the message actor forwards to the chat actor, which sends a row to
  the storage actor and texts to the session actor; the storage actor writes through a
  repository (\<open>infrastructure/repositories\<close>) on a pool of Postgres connections, the session
  actor hands texts to the WebSocket sessions, which write them one at a time. HTTP requests
  go through a router (\<open>infrastructure/network/http\<close>) that issues and refreshes tokens
  (\<open>core/security\<close>) and reads message histories. Use cases and controllers
  (\<open>application\<close>, \<open>presentation\<close>) work on the repository ports; \<open>infrastructure/websocket\<close> is a
  second WebSocket layer without actors. \<open>main.cpp\<close> loads the configuration, builds everything
  and runs it until a signal arrives.

  \<^bold>\<open>What is a parameter.\<close> Code outside the repository is an argument of the definitions that
  call it: the lock-free queue (\<open>queue_lib\<close>), the JSON library (\<open>json_lib\<close>), UUID texts
  (\<open>uuid_lib\<close>), SHA-1 (\<open>sha1_lib\<close>), the Postgres client with the database (\<open>pg_lib\<close>), the YAML
  reader (\<open>yaml_lib\<close>) and the logging library with its registry (\<open>spdlog_lib\<close>). What the code relies on is named by the predicates \<open>lockfree_queue\<close>,
  \<open>nlohmann_json\<close>, \<open>boost_uuid\<close>, \<open>sha1_stream\<close>, \<open>postgres_messages\<close>, \<open>postgres_users\<close>,
  \<open>postgres_chats\<close>, \<open>unique_usernames\<close> (a unique constraint on the user names; the repository
  holds no schema that says whether there is one), \<open>postgres_order\<close> (the meaning of
  \<open>ORDER BY created_at DESC\<close>), \<open>transaction_time\<close> (\<open>NOW()\<close> is the start of its transaction, and a
  transaction starts later than those committed before it did), \<open>pg_concurrent\<close> (a commit keeps what others have committed meanwhile) and \<open>spdlog_registry\<close>, which theorems carry as hypotheses; for each there is a concrete instance
  (\<open>list_queue\<close>, \<open>table_json\<close>, \<open>hex_uuid\<close>, \<open>poly_hash\<close>, \<open>memory_pg\<close>, \<open>unique_pg\<close>, \<open>cell_pg\<close>,
  \<open>tree_yaml\<close>, \<open>memory_spdlog\<close>) on which the
  theorems are evaluated. Asio and Beast appear as the order in which completion handlers
  run, which the theorems quantify over, and as the error codes the handlers receive. Random
  ids and clock readings are arguments.

  \<^bold>\<open>Conventions.\<close> \<open>Class::method\<close> is \<open>Class_method\<close>; classes are records, enumerations and
  variants are datatypes, \<open>std::size_t\<close> is \<open>64 word\<close>, an operation that may throw returns
  \<open>exn + 'a\<close>, changed state is returned. Interfaces between parts are locales, and each is
  interpreted on the definitions that model the code: \<open>fifo_channel\<close> (mailbox), \<open>weak_registry\<close>
  (transport table, session manager), \<open>lifecycle\<close> (actor system, server), \<open>serial_writer\<close> (the write
  queues of both WebSocket sessions), \<open>serial_writer_pair\<close> (the two of them side by side),
  \<open>token_service\<close> (JWT), \<open>message_store\<close>, \<open>user_store\<close> and \<open>chat_store\<close> (repositories),
  \<open>reliable_message_store\<close> (a message store whose \<open>create\<close> returns true or throws),
  \<open>ordered_message_store\<close> (one whose histories list the newest messages first),
  \<open>registering_store\<close> (a user store whose \<open>create\<close> returns true or throws), \<open>unique_user_store\<close> (one
  that refuses a second row of one name).

  \<^bold>\<open>The theories.\<close>
  \<^item> \<open>Prelude\<close>: exceptions, \<open>std::string\<close> search and \<open>substr\<close> with their wrap-around, number
    output, the heap of \<open>unique_ptr\<close> objects, the generic interfaces.
  \<^item> \<open>Json_Lib\<close>: JSON values and the library's documented behaviour.
  \<^item> \<open>Mailbox\<close> (\<open>core/actor/mailbox\<close>, \<open>actor_message.hpp\<close>): order of delivery, the outcomes of a push
    with the leak of a refused envelope, the destructor.
  \<^item> \<open>Actor_System\<close> (\<open>core/actor/actor_system\<close>): sending and taking refine appending to and removing
    from one list of envelopes per actor, with the ownership of heap cells kept.
  \<^item> \<open>Serial_Writer\<close>, \<open>Ws_Session\<close>: messages leave a connection in sending order with one write
    outstanding; a failed write ends it; session ids are distinct.
  \<^item> \<open>Domain\<close>: entities and the contracts of the repository ports.
  \<^item> \<open>Actors\<close>: the handlers, the worker loop, and the handlers as lists of atomic actions.
  \<^item> \<open>Dispatcher\<close>: from the text of a frame to an envelope, with the frames that are dropped or throw.
  \<^item> \<open>Actor_Run\<close>, \<open>Pipeline\<close>, \<open>Guarantees\<close>: the runtime as a step relation in which workers, network
    threads and connections interleave freely; the invariant of all reachable states, and from
    it conservation of work, at-most-once and exactly-once storage, ownership, routing,
    termination, progress (the workers only stop at rest or before an action that throws), order
    with one worker and its failure with two, the refinement of
    the loop as written, and the death of a worker by a malformed id. The bound of twenty steps
    per accepted envelope covers taking, handling and finishing it and the at most four envelopes
    it causes.
  \<^item> \<open>Network\<close>, \<open>Net_History\<close>, \<open>Delivery\<close>: the runtime with its WebSocket sessions, from the accepted
    connection to the frame a peer receives. A run of the connected server is a run of the pipeline
    on exactly the frames read, in their order; what a peer has received is a prefix of the texts the
    session actor handed to its session, the rest of which the session still holds, and
    only texts an accepted frame asked for; a text handed to a session arrives while its writes
    succeed; every text a peer receives is a JSON object of one of two shapes.
  \<^item> \<open>Message_Log\<close>: the message table as the log of the storage actor, in all interleavings of storage
    calls and history requests.
  \<^item> \<open>Crash_Causes\<close>, \<open>Backend\<close>: the whole server, WebSocket side and HTTP side on one repository. A
    history answered over HTTP has the texts the WebSocket frames asked for; every exception that
    ends the process is traced back to a request or frame of that run; on the actor path the sender of a
    message is not checked.
  \<^item> \<open>Server_History\<close>: the order of the histories the whole server answers: by falling stamp, and with one
    actor thread and an advancing clock in the reverse order in which the frames were accepted.
  \<^item> \<open>Shutdown\<close>: once the workers are joined the destructor of the actor system frees every envelope
    that is still queued; what stays allocated is exactly what full mailboxes refused.
  \<^item> \<open>Jwt_Service\<close>: round trip of tokens, what validation accepts, the text of signatures.
  \<^item> \<open>Postgres\<close>: the pool in turn, the repositories as implementations of their ports.
  \<^item> \<open>Message_Order\<close>: the repository lists the messages of a chat by falling stamp, which is the reverse
    order of the inserts when these do not overlap and the clock of the database advances.
  \<^item> \<open>Transactions\<close>: repository calls split into acquiring, opening, executing and committing. Every
    interleaving is equivalent to the calls one after another in the order of their commits, which is
    why the other theories take a call as one step.
  \<^item> \<open>Pool_Sharing\<close>: the pool under several threads. Threads that return their connections within a
    round of the counter never share one; but for every size of the pool two threads suffice to
    get the same connection at the same time.
  \<^item> \<open>Use_Cases\<close>: registration and login, sending, proved from the ports' contracts.
  \<^item> \<open>Registration\<close>: registrations on several threads, interleaved between the look-up and the
    insert: what the look-up keeps out in every schedule; all that look up a free name before the
    first insert succeed, and at most one can where the table has a unique constraint.
  \<^item> \<open>Http_Router\<close>, \<open>Http_Session\<close>: the routes on every branch; one operation at a time on a
    connection, and the answers a router gives to its requests one after the other.
  \<^item> \<open>App_Config\<close>, \<open>Logging\<close>, \<open>Server\<close>: configuration loading, the logger and the two classes that
    only log, thread pool, the server's start and stop, \<open>main\<close>.
  \<^item> \<open>Signals\<close> (\<open>main.cpp\<close>): the wait of \<open>main\<close> for the signal, as a state machine of the mutex, the
    condition variable and runs of the handler, nested on the thread a signal interrupts: a signal
    ends the wait, unless one interrupts a thread, main or another, that holds the mutex; that thread
    then hangs for ever, and \<open>main\<close> with it.
  \<^item> \<open>Direct_Ws\<close>, \<open>Direct_Run\<close>: the second WebSocket layer, the equivalence of its write side with the
    first, the event DTO, and runs of the layer: messages are stored in the name of the user the
    connection gave. A completion handler is one step there.

  \<^bold>\<open>Bounds.\<close> The worker loop and connections are run over finite lists of iterations or events,
  and the theorems hold for every such list; no fuel is used elsewhere. Strings are assumed
  shorter than \<open>2^63\<close> where positions in them are computed. With \<open>k\<close> deliveries of a signal the wait
  of \<open>main\<close> and the handlers take at most \<open>3 + 12 * k\<close> steps.

  \<^bold>\<open>Not modelled.\<close> Log lines of the working components; the sleep of an idle worker; what
  \<open>libpqxx\<close> does when two threads use a connection at once, beyond the refusal of a second
  transaction (\<open>Pool_Sharing\<close>); the bytes of HTTP and WebSocket framing; \<open>RealtimeDispatcher\<close>, an abstract class, and
  \<open>ApiRouter\<close>, whose only method has an empty body.

  \<^bold>\<open>Limits.\<close> The step relation of the actors takes a repository call as one step; \<open>Transactions\<close> shows for the
  table that this loses nothing, \<open>Pool_Sharing\<close> and \<open>Registration\<close> what other steps in between can do.
  Rows whose \<open>created_at\<close> is equal are listed in any order, and transactions that overlap may commit in
  another order than they started in, so the order of histories is proved for one actor thread and
  a clock that advances. What remains of the sources are include lines, forward declarations and the
  declarations of classes whose members are arguments of the definitions.
\<close>

end
